(* ===== verification/Prelude.thy ===== *)
theory Prelude
  imports Main "HOL-Library.Word" "HOL-Library.Sublist"
begin

text \<open>
  Shared material of the development: the fixed-width integer types of the C++ code, the
  \<open>outcome\<close> of a C++ call (a value, an exception in flight, or undefined behaviour), the
  decimal rendering that \<open>operator<<\<close> gives for unsigned integers, and the one loop shape
  (\<open>erase_loop\<close>) that several classes of the program use on \<open>std::list\<close>.
\<close>

section \<open>Fixed-width integers\<close>

type_synonym u8 = "8 word"
type_synonym u16 = "16 word"
type_synonym u64 = "64 word"

section \<open>Outcomes of C++ calls\<close>

text \<open>
  Exceptions keep the C++ class that a \<open>catch\<close> clause distinguishes and the \<open>what()\<close> string.
  \<open>Json_parse_error\<close> is \<open>json::parse_error\<close>; \<open>Json_exception\<close> stands for the other classes derived from
  \<open>json::exception\<close> (\<open>type_error\<close>, \<open>out_of_range\<close>).
\<close>

datatype http_status = status_ok | status_bad_request | status_not_found
  | status_unsupported_media_type

datatype exn_kind = Logic_error | Runtime_error | Invalid_argument | Bad_alloc | Json_exception
  | Json_parse_error | System_error | HTTPError http_status | WebSocketError

datatype exn = Exn (kind: exn_kind) (what: string)

text \<open>
  \<open>Undef\<close> is undefined behaviour of ISO C++ (or of a documented precondition of a library):
  nothing is promised about the program after it.
\<close>

datatype 'a outcome = Ok 'a | Throw exn | Undef

fun bind_outcome :: "'a outcome \<Rightarrow> ('a \<Rightarrow> 'b outcome) \<Rightarrow> 'b outcome" where
  "bind_outcome (Ok x) f = f x"
| "bind_outcome (Throw e) f = Throw e"
| "bind_outcome Undef f = Undef"

fun is_Ok :: "'a outcome \<Rightarrow> bool" where
  "is_Ok (Ok x) = True"
| "is_Ok (Throw e) = False"
| "is_Ok Undef = False"

definition map_outcome_val :: "('a \<Rightarrow> 'b) \<Rightarrow> 'a outcome \<Rightarrow> 'b outcome" where
  "map_outcome_val f m = bind_outcome m (\<lambda>x. Ok (f x))"

named_theorems outcome_simps \<open>equations that evaluate sequenced outcomes\<close>

lemma bind_outcome_Ok_iff [outcome_simps]:
  "bind_outcome m f = Ok y \<longleftrightarrow> (\<exists>x. m = Ok x \<and> f x = Ok y)"
  by (cases m) auto

lemma bind_outcome_Undef_iff [outcome_simps]:
  "bind_outcome m f = Undef \<longleftrightarrow> m = Undef \<or> (\<exists>x. m = Ok x \<and> f x = Undef)"
  by (cases m) auto

lemma bind_outcome_assoc:
  "bind_outcome (bind_outcome m f) g = bind_outcome m (\<lambda>x. bind_outcome (f x) g)"
  by (cases m) auto

lemma bind_outcome_return [simp]: "bind_outcome m Ok = m"
  by (cases m) auto

lemma map_outcome_val_simps [simp]:
  "map_outcome_val f (Ok x) = Ok (f x)"
  "map_outcome_val f (Throw e) = Throw e"
  "map_outcome_val f Undef = Undef"
  by (simp_all add: map_outcome_val_def)

lemma map_outcome_val_Ok_iff [outcome_simps]:
  "map_outcome_val f m = Ok y \<longleftrightarrow> (\<exists>x. m = Ok x \<and> y = f x)"
  by (cases m) auto

lemma is_Ok_iff: "is_Ok m \<longleftrightarrow> (\<exists>x. m = Ok x)"
  by (cases m) auto

text \<open>A vector filled element by element stops at the first exception.\<close>

fun map_outcomes :: "('a \<Rightarrow> 'b outcome) \<Rightarrow> 'a list \<Rightarrow> 'b list outcome" where
  "map_outcomes f [] = Ok []"
| "map_outcomes f (x # xs) =
     bind_outcome (f x) (\<lambda>y. bind_outcome (map_outcomes f xs) (\<lambda>ys. Ok (y # ys)))"

lemma map_outcomes_roundtrip:
  assumes "\<And>x. x \<in> set xs \<Longrightarrow> f (g x) = Ok (h x)"
  shows "map_outcomes f (map g xs) = Ok (map h xs)"
  using assms by (induction xs) auto

lemma map_outcomes_Ok_iff:
  "map_outcomes f xs = Ok ys \<longleftrightarrow> list_all2 (\<lambda>x y. f x = Ok y) xs ys"
  by (induction xs arbitrary: ys) (auto simp: list_all2_Cons1 outcome_simps)

text \<open>A loop that threads a state through a list and stops at the first exception.\<close>

fun fold_outcome :: "('s \<Rightarrow> 'a \<Rightarrow> 's outcome) \<Rightarrow> 's \<Rightarrow> 'a list \<Rightarrow> 's outcome" where
  "fold_outcome f s [] = Ok s"
| "fold_outcome f s (x # xs) = bind_outcome (f s x) (\<lambda>s'. fold_outcome f s' xs)"

lemma fold_outcome_append:
  "fold_outcome f s (xs @ ys) = bind_outcome (fold_outcome f s xs) (\<lambda>s'. fold_outcome f s' ys)"
  by (induction xs arbitrary: s) (simp_all add: bind_outcome_assoc)

lemma fold_outcome_invariant:
  assumes "fold_outcome f s xs = Ok s'" and "P s"
    and "\<And>s x s'. P s \<Longrightarrow> f s x = Ok s' \<Longrightarrow> P s'"
  shows "P s'"
  using assms(1,2)
proof (induction xs arbitrary: s)
  case (Cons x xs)
  then show ?case using assms(3) by (fastforce simp: outcome_simps)
qed simp

text \<open>
  A call that changes an object returns its outcome and the object afterwards: an exception
  leaves the changes made before it was thrown.
\<close>

type_synonym ('a, 's) call = "'a outcome \<times> 's"

fun then_call :: "('a, 's) call \<Rightarrow> ('a \<Rightarrow> 's \<Rightarrow> ('b, 's) call) \<Rightarrow> ('b, 's) call" where
  "then_call (Ok x, s) f = f x s"
| "then_call (Throw e, s) f = (Throw e, s)"
| "then_call (Undef, s) f = (Undef, s)"

lemma then_call_Ok_iff [outcome_simps]:
  "then_call m f = (Ok y, s') \<longleftrightarrow> (\<exists>x s. m = (Ok x, s) \<and> f x s = (Ok y, s'))"
  by (induction m f rule: then_call.induct) auto

section \<open>Decimal rendering\<close>

definition digit_char :: "nat \<Rightarrow> char" where
  "digit_char d = char_of (48 + d)"

fun dec :: "nat \<Rightarrow> string" where
  "dec n = (if n < 10 then [digit_char n] else dec (n div 10) @ [digit_char (n mod 10)])"

declare dec.simps [simp del]

abbreviation dec_word :: "'w::len word \<Rightarrow> string" where
  "dec_word w \<equiv> dec (unat w)"

definition is_digit :: "char \<Rightarrow> bool" where
  "is_digit c \<longleftrightarrow> 48 \<le> (of_char c :: nat) \<and> (of_char c :: nat) \<le> 57"

lemma is_digit_digit_char [simp]: "d < 10 \<Longrightarrow> is_digit (digit_char d)"
  by (simp add: is_digit_def digit_char_def)

lemma digit_char_inj: "digit_char a = digit_char b \<Longrightarrow> a < 10 \<Longrightarrow> b < 10 \<Longrightarrow> a = b"
proof -
  assume eq: "digit_char a = digit_char b" and "a < 10" "b < 10"
  from eq have "(of_char (char_of (48 + a)) :: nat) = of_char (char_of (48 + b))"
    by (simp add: digit_char_def)
  with \<open>a < 10\<close> \<open>b < 10\<close> show "a = b" by simp
qed

lemma dec_not_Nil [simp]: "dec n \<noteq> []" "[] \<noteq> dec n"
  by (subst dec.simps, simp)+

lemma dec_digits: "c \<in> set (dec n) \<Longrightarrow> is_digit c"
proof (induction n rule: dec.induct)
  case (1 n)
  then show ?case
    by (cases "n < 10") (auto simp: dec.simps [of n])
qed

lemma dec_inject: "dec m = dec n \<longleftrightarrow> m = n"
proof
  show "dec m = dec n \<Longrightarrow> m = n"
  proof (induction m arbitrary: n rule: dec.induct)
    case (1 m)
    show ?case
    proof (cases "m < 10")
      case True
      with "1.prems" have "n < 10 \<and> digit_char m = digit_char n"
        by (cases "n < 10") (auto simp: dec.simps [of m] dec.simps [of n])
      with True show ?thesis using digit_char_inj by blast
    next
      case False
      with "1.prems" have n: "\<not> n < 10"
        by (cases "n < 10") (auto simp: dec.simps [of m] dec.simps [of n])
      with False "1.prems" have "dec (m div 10) = dec (n div 10)"
        and d: "digit_char (m mod 10) = digit_char (n mod 10)"
        by (auto simp: dec.simps [of m] dec.simps [of n])
      with "1.IH" False have "m div 10 = n div 10" by blast
      moreover from d have "m mod 10 = n mod 10" by (rule digit_char_inj) simp_all
      ultimately show ?thesis by (metis div_mult_mod_eq)
    qed
  qed
qed simp

section \<open>Erasing from a list while iterating over it\<close>

text \<open>
  The program removes list elements with
  \<^verbatim>\<open>for (it = l.begin(); it != l.end(); ++it) { if (P(*it)) it = l.erase(it); }\<close>.
  \<open>erase\<close> returns the iterator behind the erased element and the loop header then advances once
  more: the element behind an erased one is never inspected, and when the erased element was the
  last one the loop increments the end iterator, which is undefined. The argument is the part of
  the list from the iterator on.
\<close>

fun erase_loop :: "('a \<Rightarrow> bool) \<Rightarrow> 'a list \<Rightarrow> 'a list outcome" where
  "erase_loop P [] = Ok []"
| "erase_loop P (x # xs) =
     (if P x then
        (case xs of
           [] \<Rightarrow> Undef
         | y # ys \<Rightarrow> map_outcome_val ((#) y) (erase_loop P ys))
      else map_outcome_val ((#) x) (erase_loop P xs))"

lemma erase_loop_none: "(\<And>x. x \<in> set xs \<Longrightarrow> \<not> P x) \<Longrightarrow> erase_loop P xs = Ok xs"
  by (induction xs) auto

lemma erase_loop_no_throw: "erase_loop P xs \<noteq> Throw e"
proof (induction P xs rule: erase_loop.induct)
  case (2 P x xs)
  then show ?case
    by (cases "erase_loop P xs"; cases xs; cases "erase_loop P (tl xs)") auto
qed simp

text \<open>Where no two neighbours match and the last element does not, the loop is a filter.\<close>

lemma erase_loop_filter:
  assumes "successively (\<lambda>x y. \<not> (P x \<and> P y)) xs" and "xs \<noteq> [] \<Longrightarrow> \<not> P (last xs)"
  shows "erase_loop P xs = Ok (filter (\<lambda>x. \<not> P x) xs)"
  using assms
proof (induction P xs rule: erase_loop.induct)
  case (1 P)
  then show ?case by simp
next
  case (2 P x xs)
  then show ?case
    by (cases xs; cases "tl xs") (auto simp: successively_Cons split: if_splits)
qed

text \<open>With at most one match, the outcome is the filtered list unless the match is last.\<close>

lemma erase_loop_unique:
  assumes "distinct (map f xs)" and "\<And>x. P x \<longleftrightarrow> f x = k"
  shows "erase_loop P xs =
    (if xs \<noteq> [] \<and> P (last xs) then Undef else Ok (filter (\<lambda>x. \<not> P x) xs))"
  using assms
proof (induction P xs rule: erase_loop.induct)
  case (1 P)
  then show ?case by simp
next
  case (2 P x xs)
  show ?case
  proof (cases "P x")
    case False
    with 2 show ?thesis by (cases xs) auto
  next
    case True
    with "2.prems" have none: "\<And>y. y \<in> set xs \<Longrightarrow> \<not> P y"
      by (simp add: image_iff) (metis (no_types))
    show ?thesis
    proof (cases xs)
      case Nil
      with True show ?thesis by simp
    next
      case (Cons y ys)
      with none have "erase_loop P ys = Ok ys" by (intro erase_loop_none) simp
      moreover from none have "filter (\<lambda>x. \<not> P x) xs = xs" by (simp add: filter_id_conv)
      moreover from none Cons have "\<not> P (last xs)" by (metis last_in_set list.discI)
      ultimately show ?thesis using True Cons by auto
    qed
  qed
qed

text \<open>Whatever the loop returns is a subsequence.\<close>

lemma erase_loop_subseq: "erase_loop P xs = Ok ys \<Longrightarrow> subseq ys xs"
proof (induction P xs arbitrary: ys rule: erase_loop.induct)
  case (2 P x xs)
  then show ?case
    by (cases xs) (auto simp: outcome_simps split: if_splits)
qed simp

lemma sorted_wrt_subseq: "subseq ys xs \<Longrightarrow> sorted_wrt R xs \<Longrightarrow> sorted_wrt R ys"
  by (induction rule: list_emb.induct) (auto dest: list_emb_set)

section \<open>Operations that share an invariant\<close>

text \<open>
  The contract of a class whose operations may throw or be undefined but keep its invariant
  whenever they return.
\<close>

locale invariant_machine =
  fixes inv :: "'s \<Rightarrow> bool" and step :: "'op \<Rightarrow> 's \<Rightarrow> 's outcome"
  assumes step_inv: "inv s \<Longrightarrow> step op s = Ok s' \<Longrightarrow> inv s'"
begin

lemma run_inv: "inv s \<Longrightarrow> fold_outcome (\<lambda>s op. step op s) s ops = Ok s' \<Longrightarrow> inv s'"
  by (rule fold_outcome_invariant) (auto dest: step_inv)

end

text \<open>
  A detailed machine refines another when each of its steps is a sequence of steps of the other,
  possibly empty; then every run corresponds to a run, and the other's invariants hold.
\<close>

locale machine_refinement =
  fixes abs :: "'s \<Rightarrow> 'a" and cstep :: "'e \<Rightarrow> 's \<Rightarrow> 's outcome" and astep :: "'op \<Rightarrow> 'a \<Rightarrow> 'a outcome"
  assumes simulates: "cstep ev s = Ok s' \<Longrightarrow> \<exists>ops. fold_outcome (\<lambda>a op. astep op a) (abs s) ops = Ok (abs s')"
begin

lemma run_simulated:
  "fold_outcome (\<lambda>s ev. cstep ev s) s evs = Ok s' \<Longrightarrow>
     \<exists>ops. fold_outcome (\<lambda>a op. astep op a) (abs s) ops = Ok (abs s')"
proof (induction evs arbitrary: s)
  case Nil
  then show ?case by (intro exI [of _ "[]"]) simp
next
  case (Cons ev evs)
  then obtain s1 where s1: "cstep ev s = Ok s1" and "fold_outcome (\<lambda>s ev. cstep ev s) s1 evs = Ok s'"
    by (auto simp: outcome_simps)
  with Cons.IH obtain ops2 where "fold_outcome (\<lambda>a op. astep op a) (abs s1) ops2 = Ok (abs s')"
    by blast
  moreover from simulates [OF s1] obtain ops1 where "fold_outcome (\<lambda>a op. astep op a) (abs s) ops1 = Ok (abs s1)" ..
  ultimately show ?case by (intro exI [of _ "ops1 @ ops2"]) (simp add: fold_outcome_append)
qed

end

text \<open>
  The detailed machine may also be checked event by event: the same event explains the step of the
  abstract machine, which is left with a choice.
\<close>

locale event_refinement =
  fixes abs :: "'s \<Rightarrow> 'a" and cstep :: "'e \<Rightarrow> 's \<Rightarrow> 's outcome"
    and astep :: "'e \<Rightarrow> 'choice \<Rightarrow> 'a \<Rightarrow> 'a outcome"
  assumes explains: "cstep ev s = Ok s' \<Longrightarrow> \<exists>choice. astep ev choice (abs s) = Ok (abs s')"
begin

sublocale machine_refinement abs cstep "\<lambda>(ev, choice). astep ev choice"
proof
  fix ev s s'
  assume "cstep ev s = Ok s'"
  from explains [OF this] obtain choice where "astep ev choice (abs s) = Ok (abs s')" ..
  then show "\<exists>ops. fold_outcome (\<lambda>a op. (case op of (ev, choice) \<Rightarrow> astep ev choice) a) (abs s) ops = Ok (abs s')"
    by (intro exI [of _ "[(ev, choice)]"]) simp
qed

lemma run_explained:
  "fold_outcome (\<lambda>s ev. cstep ev s) s evs = Ok s' \<Longrightarrow>
     \<exists>choices. length choices = length evs \<and>
       fold_outcome (\<lambda>a (ev, choice). astep ev choice a) (abs s) (zip evs choices) = Ok (abs s')"
proof (induction evs arbitrary: s)
  case (Cons ev evs)
  then obtain s1 where s1: "cstep ev s = Ok s1" and "fold_outcome (\<lambda>s ev. cstep ev s) s1 evs = Ok s'"
    by (auto simp: outcome_simps)
  with Cons.IH obtain choices where "length choices = length evs"
    "fold_outcome (\<lambda>a (ev, choice). astep ev choice a) (abs s1) (zip evs choices) = Ok (abs s')"
    by blast
  moreover from explains [OF s1] obtain choice where "astep ev choice (abs s) = Ok (abs s1)" ..
  ultimately show ?case by (intro exI [of _ "choice # choices"]) simp
qed simp

end

text \<open>
  Where each event of the detailed machine causes certain operations of the abstract one, a run of the
  first is the run of the second over what its events cause.
\<close>

fun caused_along :: "('e \<Rightarrow> 's \<Rightarrow> 's outcome) \<Rightarrow> ('e \<Rightarrow> 's \<Rightarrow> 'op list) \<Rightarrow> 's \<Rightarrow> 'e list \<Rightarrow> 'op list" where
  "caused_along step caused s [] = []"
| "caused_along step caused s (ev # evs) =
     caused ev s @ (case step ev s of Ok s' \<Rightarrow> caused_along step caused s' evs | _ \<Rightarrow> [])"

locale traced_refinement =
  fixes abs :: "'s \<Rightarrow> 'a" and cstep :: "'e \<Rightarrow> 's \<Rightarrow> 's outcome" and astep :: "'op \<Rightarrow> 'a \<Rightarrow> 'a outcome"
    and caused :: "'e \<Rightarrow> 's \<Rightarrow> 'op list"
  assumes traces: "cstep ev s = Ok s' \<Longrightarrow> fold_outcome (\<lambda>a op. astep op a) (abs s) (caused ev s) = Ok (abs s')"
begin

sublocale machine_refinement abs cstep astep
  by unfold_locales (blast dest: traces)

lemma run_traced:
  "fold_outcome (\<lambda>s ev. cstep ev s) s evs = Ok s' \<Longrightarrow>
     fold_outcome (\<lambda>a op. astep op a) (abs s) (caused_along cstep caused s evs) = Ok (abs s')"
proof (induction evs arbitrary: s)
  case (Cons ev evs)
  then obtain s1 where s1: "cstep ev s = Ok s1" and "fold_outcome (\<lambda>s ev. cstep ev s) s1 evs = Ok s'"
    by (auto simp: outcome_simps)
  with Cons.IH show ?case by (simp add: fold_outcome_append traces)
qed simp

end

end
