(* ===== verification/Ieee.thy ===== *)
theory Ieee
  imports Prelude Complex_Main "HOL-Library.Log_Nat"
begin

text \<open>
  The part of IEEE 754 binary64 arithmetic that \<open>double\<close> values of the program go through:
  conversion from integers, multiplication, division, addition, comparison and conversion to
  \<open>std::size_t\<close>. A finite value is the rational number it denotes; every operation rounds its
  exact result to the nearest representable number, ties to even. The sign of zero is not
  represented: the program never divides by a negative zero.
\<close>

section \<open>Model\<close>

datatype double = Fin rat | PInf | NInf | NaN

text \<open>The exponent of the leading bit of a positive rational.\<close>

definition ilog2 :: "rat \<Rightarrow> int" where
  "ilog2 x = (case quotient_of x of (p, q) \<Rightarrow>
     let k = bitlen p - bitlen q in if 2 powi k \<le> x then k else k - 1)"

definition round_half_even :: "rat \<Rightarrow> int" where
  "round_half_even x =
     (let f = \<lfloor>x\<rfloor>; r = x - of_int f in
      if r < 1 / 2 then f else if 1 / 2 < r then f + 1 else if even f then f else f + 1)"

text \<open>The weight of the last bit of the 53-bit significand; \<open>-1074\<close> is the subnormal limit.\<close>

definition ulp_exp :: "rat \<Rightarrow> int" where
  "ulp_exp x = max (ilog2 \<bar>x\<bar> - 52) (- 1074)"

definition round_rat :: "rat \<Rightarrow> rat" where
  "round_rat x =
     (if x = 0 then 0
      else of_int (round_half_even (x / 2 powi ulp_exp x)) * 2 powi ulp_exp x)"

definition round_double :: "rat \<Rightarrow> double" where
  "round_double x =
     (let y = round_rat x in
      if 2 ^ 1024 \<le> y then PInf else if y \<le> - (2 ^ 1024) then NInf else Fin y)"

definition double_of_int :: "int \<Rightarrow> double" where
  "double_of_int i = round_double (of_int i)"

definition signed_inf :: "rat \<Rightarrow> double" where
  "signed_inf x = (if 0 < x then PInf else if x < 0 then NInf else NaN)"

fun d_neg :: "double \<Rightarrow> double" where
  "d_neg (Fin a) = Fin (- a)"
| "d_neg PInf = NInf"
| "d_neg NInf = PInf"
| "d_neg NaN = NaN"

fun d_mult :: "double \<Rightarrow> double \<Rightarrow> double" where
  "d_mult (Fin a) (Fin b) = round_double (a * b)"
| "d_mult NaN y = NaN"
| "d_mult x NaN = NaN"
| "d_mult PInf (Fin b) = signed_inf b"
| "d_mult NInf (Fin b) = signed_inf (- b)"
| "d_mult (Fin a) PInf = signed_inf a"
| "d_mult (Fin a) NInf = signed_inf (- a)"
| "d_mult PInf y = y"
| "d_mult NInf y = d_neg y"

fun d_div :: "double \<Rightarrow> double \<Rightarrow> double" where
  "d_div (Fin a) (Fin b) = (if b = 0 then signed_inf a else round_double (a / b))"
| "d_div NaN y = NaN"
| "d_div x NaN = NaN"
| "d_div PInf (Fin b) = (if b < 0 then NInf else PInf)"
| "d_div NInf (Fin b) = (if b < 0 then PInf else NInf)"
| "d_div (Fin a) y = Fin 0"
| "d_div x y = NaN"

fun d_add :: "double \<Rightarrow> double \<Rightarrow> double" where
  "d_add (Fin a) (Fin b) = round_double (a + b)"
| "d_add NaN y = NaN"
| "d_add x NaN = NaN"
| "d_add (Fin a) y = y"
| "d_add x (Fin b) = x"
| "d_add PInf PInf = PInf"
| "d_add NInf NInf = NInf"
| "d_add x y = NaN"

text \<open>Every comparison with NaN is false.\<close>

fun d_less :: "double \<Rightarrow> double \<Rightarrow> bool" where
  "d_less (Fin a) (Fin b) \<longleftrightarrow> a < b"
| "d_less (Fin a) PInf \<longleftrightarrow> True"
| "d_less NInf (Fin b) \<longleftrightarrow> True"
| "d_less NInf PInf \<longleftrightarrow> True"
| "d_less x y \<longleftrightarrow> False"

definition d_le :: "double \<Rightarrow> double \<Rightarrow> bool" where
  "d_le x y \<longleftrightarrow> d_less x y \<or> (x = y \<and> x \<noteq> NaN)"

text \<open>
  \<open>static_cast<std::size_t>(x)\<close> truncates towards zero and is undefined when the truncated value
  does not fit.
\<close>

fun double_to_size :: "double \<Rightarrow> u64 outcome" where
  "double_to_size (Fin a) =
     (let t = (if 0 \<le> a then \<lfloor>a\<rfloor> else \<lceil>a\<rceil>) in
      if 0 \<le> t \<and> t < 2 ^ 64 then Ok (word_of_int t) else Undef)"
| "double_to_size x = Undef"

section \<open>Rounding\<close>

lemma bitlen_powi:
  assumes "0 < n"
  shows "2 powi (bitlen n - 1) \<le> (of_int n :: rat)" "(of_int n :: rat) < 2 powi bitlen n"
proof -
  have len: "1 \<le> bitlen n"
    using assms bitlen_eq_zero_iff [of n] bitlen_nonneg [of n] by linarith
  from bitlen_bounds [OF assms]
  have "(of_int (2 ^ nat (bitlen n - 1)) :: rat) \<le> of_int n"
    and "(of_int n :: rat) < of_int (2 ^ nat (bitlen n))"
    by (simp_all only: of_int_le_iff of_int_less_iff)
  with len show "2 powi (bitlen n - 1) \<le> (of_int n :: rat)" "(of_int n :: rat) < 2 powi bitlen n"
    by (simp_all add: power_int_def)
qed

lemma ilog2_bounds:
  assumes "0 < x"
  shows "2 powi ilog2 x \<le> x" and "x < 2 powi (ilog2 x + 1)"
proof -
  obtain p q where pq: "quotient_of x = (p, q)" by (cases "quotient_of x")
  have q: "0 < q" using quotient_of_denom_pos [OF pq] .
  have x: "x = of_int p / of_int q" using quotient_of_div [OF pq] .
  have p: "0 < p" using assms q by (simp add: x zero_less_divide_iff)
  define k where "k = bitlen p - bitlen q"
  note P = bitlen_powi [OF p] and Q = bitlen_powi [OF q]
  have "x < 2 powi bitlen p / 2 powi (bitlen q - 1)"
    unfolding x using P Q p by (intro frac_less) simp_all
  also have "\<dots> = 2 powi (k + 1)"
    by (simp add: k_def power_int_diff power_int_add)
  finally have up: "x < 2 powi (k + 1)" .
  have "2 powi (bitlen p - 1) / 2 powi bitlen q < x"
    unfolding x using P Q p q by (intro frac_less2) simp_all
  then have lo: "2 powi (k - 1) < x"
    by (simp add: k_def power_int_diff power_int_add field_simps)
  have il: "ilog2 x = (if 2 powi k \<le> x then k else k - 1)"
    by (simp add: ilog2_def pq k_def Let_def)
  show "2 powi ilog2 x \<le> x" and "x < 2 powi (ilog2 x + 1)"
    using up lo by (auto simp: il)
qed

lemma powi_le_iff: "2 powi m \<le> (2 powi n :: rat) \<longleftrightarrow> m \<le> n"
  by (metis linorder_not_le one_less_numeral_iff power_int_increasing power_int_strict_increasing
      order_less_le semiring_norm(76))

lemma ilog2_mono:
  assumes "0 < x" "x \<le> y"
  shows "ilog2 x \<le> ilog2 y"
proof -
  have "2 powi ilog2 x < (2 powi (ilog2 y + 1) :: rat)"
    using ilog2_bounds(1) [of x] ilog2_bounds(2) [of y] assms by linarith
  then have "\<not> ilog2 y + 1 \<le> ilog2 x" by (simp flip: powi_le_iff)
  then show ?thesis by simp
qed

lemma round_half_even_of_int [simp]: "round_half_even (of_int i) = i"
  by (simp add: round_half_even_def)

lemma round_half_even_mono: "x \<le> y \<Longrightarrow> round_half_even x \<le> round_half_even y"
proof (cases "\<lfloor>x\<rfloor> = \<lfloor>y\<rfloor>")
  case True
  assume "x \<le> y"
  with True show ?thesis by (auto simp: round_half_even_def Let_def)
next
  case False
  assume "x \<le> y"
  with False have "\<lfloor>x\<rfloor> + 1 \<le> \<lfloor>y\<rfloor>" using floor_mono [of x y] by linarith
  moreover have "round_half_even x \<le> \<lfloor>x\<rfloor> + 1" and "\<lfloor>y\<rfloor> \<le> round_half_even y"
    by (auto simp: round_half_even_def Let_def)
  ultimately show ?thesis by linarith
qed

lemma round_rat_nonneg: "0 \<le> x \<Longrightarrow> 0 \<le> round_rat x"
  using round_half_even_mono [of 0 "x / 2 powi ulp_exp x"] round_half_even_of_int [of 0]
  by (auto simp: round_rat_def)

lemma round_rat_upper:
  assumes "0 < x"
  shows "round_rat x \<le> 2 powi (ulp_exp x + 53)"
proof -
  have "x < 2 powi (ilog2 x + 1)" using ilog2_bounds(2) assms .
  also have "\<dots> \<le> 2 powi (ulp_exp x + 53)"
    using assms by (simp add: powi_le_iff ulp_exp_def)
  finally have "x / 2 powi ulp_exp x \<le> of_int (2 ^ 53)"
    by (simp add: power_int_add divide_le_eq mult.commute)
  then have "round_half_even (x / 2 powi ulp_exp x) \<le> 2 ^ 53"
    using round_half_even_mono round_half_even_of_int by metis
  then have "(of_int (round_half_even (x / 2 powi ulp_exp x)) :: rat) \<le> of_int (2 ^ 53)"
    by (simp only: of_int_le_iff)
  then show ?thesis
    using assms by (simp add: round_rat_def power_int_add mult.commute)
qed

lemma round_rat_lower:
  assumes "0 < x" and "- 1074 < ulp_exp x"
  shows "2 powi (ulp_exp x + 52) \<le> round_rat x"
proof -
  have "ilog2 x = ulp_exp x + 52" using assms by (auto simp: ulp_exp_def)
  then have "of_int (2 ^ 52) \<le> x / 2 powi ulp_exp x"
    using ilog2_bounds(1) [OF assms(1)]
    by (simp add: power_int_add le_divide_eq mult.commute)
  then have "2 ^ 52 \<le> round_half_even (x / 2 powi ulp_exp x)"
    using round_half_even_mono round_half_even_of_int by metis
  then have "of_int (2 ^ 52) \<le> (of_int (round_half_even (x / 2 powi ulp_exp x)) :: rat)"
    by (simp only: of_int_le_iff)
  then show ?thesis
    using assms by (simp add: round_rat_def power_int_add mult.commute)
qed

text \<open>Rounding is monotone, also across a change of exponent.\<close>

lemma round_rat_mono:
  assumes "0 \<le> x" "x \<le> y"
  shows "round_rat x \<le> round_rat y"
proof (cases "x = 0")
  case True
  with assms show ?thesis using round_rat_nonneg [of y] by (simp add: round_rat_def)
next
  case False
  with assms have pos: "0 < x" "0 < y" by simp_all
  have e: "ulp_exp x \<le> ulp_exp y"
    using ilog2_mono [OF pos(1) assms(2)] pos by (simp add: ulp_exp_def)
  show ?thesis
  proof (cases "ulp_exp x = ulp_exp y")
    case True
    have "x / 2 powi ulp_exp y \<le> y / 2 powi ulp_exp y"
      using assms by (simp add: divide_right_mono)
    then show ?thesis
      using pos True by (simp add: round_rat_def round_half_even_mono mult_right_mono)
  next
    case False
    with e have lt: "ulp_exp x < ulp_exp y" by simp
    have "- 1074 \<le> ulp_exp x" by (simp add: ulp_exp_def)
    with lt have lo: "2 powi (ulp_exp y + 52) \<le> round_rat y"
      by (intro round_rat_lower pos) simp
    have "round_rat x \<le> 2 powi (ulp_exp x + 53)" by (rule round_rat_upper [OF pos(1)])
    also have "\<dots> \<le> 2 powi (ulp_exp y + 52)" using lt by (simp add: powi_le_iff)
    finally show ?thesis using lo by simp
  qed
qed

text \<open>Numbers with at most 53 significant bits are representable.\<close>

lemma round_rat_exact:
  assumes y: "y = of_int m * 2 powi e" and e: "ulp_exp y \<le> e"
  shows "round_rat y = y"
proof (cases "y = 0")
  case False
  have "(2 :: rat) powi (int (nat (e - ulp_exp y)) + ulp_exp y) =
      2 ^ nat (e - ulp_exp y) * 2 powi ulp_exp y"
    by (subst power_int_add) (simp_all only: power_int_of_nat, simp)
  with e have "(2 :: rat) powi e = 2 ^ nat (e - ulp_exp y) * 2 powi ulp_exp y" by simp
  then have q: "y = of_int (m * 2 ^ nat (e - ulp_exp y)) * 2 powi ulp_exp y"
    by (subst y) simp
  then have "y / 2 powi ulp_exp y = of_int (m * 2 ^ nat (e - ulp_exp y))"
    by (metis nonzero_mult_div_cancel_right power_int_eq_0_iff zero_neq_numeral)
  then have "round_half_even (y / 2 powi ulp_exp y) = m * 2 ^ nat (e - ulp_exp y)"
    by (metis round_half_even_of_int)
  with False q show ?thesis by (simp add: round_rat_def)
qed (simp add: round_rat_def)

lemma ulp_exp_le:
  assumes "0 < y" "y < 2 powi (e + 53)" "- 1074 \<le> e"
  shows "ulp_exp y \<le> e"
proof -
  have "2 powi ilog2 y < (2 powi (e + 53) :: rat)"
    using ilog2_bounds(1) [OF assms(1)] assms(2) by simp
  then have "\<not> e + 53 \<le> ilog2 y" by (simp flip: powi_le_iff)
  with assms show ?thesis by (simp add: ulp_exp_def)
qed

lemma round_rat_dyadic:
  assumes "0 \<le> m" "m < 2 ^ 53" "- 1074 \<le> e"
  shows "round_rat (of_int m * 2 powi e) = of_int m * 2 powi e"
proof (cases "m = 0")
  case False
  with assms(1) have "0 < of_int m * (2 powi e :: rat)" by simp
  moreover have "(of_int m :: rat) < of_int (2 ^ 53)"
    using assms(2) by (simp only: of_int_less_iff)
  then have "of_int m * 2 powi e < (2 powi (e + 53) :: rat)"
    by (simp add: power_int_add mult.commute)
  ultimately have "ulp_exp (of_int m * 2 powi e) \<le> e"
    using assms(3) by (rule ulp_exp_le)
  then show ?thesis by (rule round_rat_exact [OF refl])
qed (simp add: round_rat_def)

lemma round_rat_int: "0 \<le> m \<Longrightarrow> m < 2 ^ 53 \<Longrightarrow> round_rat (of_int m) = of_int m"
  using round_rat_dyadic [of m 0] by simp

lemma round_double_mono:
  assumes "0 \<le> x" "x \<le> y"
  shows "d_le (round_double x) (round_double y)"
  using round_rat_mono [OF assms] round_rat_nonneg [of x] round_rat_nonneg [of y] assms
  by (auto simp: round_double_def d_le_def Let_def)

lemma round_double_nonneg:
  "0 \<le> x \<Longrightarrow> round_double x = PInf \<or> (\<exists>y \<ge> 0. round_double x = Fin y)"
  using round_rat_nonneg [of x] by (auto simp: round_double_def Let_def)

lemma d_le_trans [trans]: "d_le x y \<Longrightarrow> d_le y z \<Longrightarrow> d_le x z"
  by (cases x; cases y; cases z) (auto simp: d_le_def)

lemma d_le_simps [simp]:
  "d_le (Fin a) (Fin b) \<longleftrightarrow> a \<le> b" "d_le (Fin a) PInf" "d_le PInf PInf"
  "\<not> d_le PInf (Fin a)" "\<not> d_le NaN x" "\<not> d_le x NaN" "d_le PInf x \<longleftrightarrow> x = PInf"
  by (auto simp: d_le_def elim: d_less.elims)

end
