(* ===== verification/Config.thy ===== *)
theory Config
  imports Ieee
begin

text \<open>
  \<open>include/clock.h\<close>, \<open>include/config.h\<close> and \<open>src/config.cc\<close>: time points and intervals as
  signed 64-bit millisecond counts, the configuration record with its defaults, and its loading
  from a TOML file. The TOML library is not part of the repository; the accessors that
  \<open>config.cc\<close> calls are a parameter (\<open>toml_api\<close>).
\<close>

section \<open>Clock\<close>

text \<open>
  A count is a 64-bit word read as two's complement by \<open>sint\<close>. Arithmetic on counts is signed
  arithmetic of C++: a result outside the range is undefined.
\<close>

type_synonym time_interval = "64 word"
type_synonym time_point = "64 word"

definition in_i64 :: "int \<Rightarrow> bool" where
  "in_i64 i \<longleftrightarrow> - (2 ^ 63) \<le> i \<and> i < 2 ^ 63"

definition time_sub :: "time_point \<Rightarrow> 64 word \<Rightarrow> 64 word outcome" where
  "time_sub a b =
     (if in_i64 (sint a - sint b) then Ok (word_of_int (sint a - sint b)) else Undef)"

definition time_less :: "64 word \<Rightarrow> 64 word \<Rightarrow> bool" where
  "time_less a b \<longleftrightarrow> sint a < sint b"

text \<open>Conversions between \<open>int64_t\<close> counts and \<open>uint64_t\<close> keep the bit pattern.\<close>

definition to_time_since_epoch :: "time_point \<Rightarrow> u64" where
  "to_time_since_epoch tp = word_of_int (sint tp)"

definition from_time_since_epoch :: "u64 \<Rightarrow> time_point" where
  "from_time_since_epoch tse = word_of_int (uint tse)"

section \<open>Configuration\<close>

record config =
  blockgen_time_expected :: time_interval
  blockgen_time_max_delta :: time_interval
  blockgen_difficulty_init :: double
  blockgen_difficulty_adjust_after :: u64
  blockgen_difficulty_adjust_factor_limit :: double
  transaction_num_per_block :: u64
  transaction_reward_amount :: u64

definition from_defaults :: config where
  "from_defaults = \<lparr>
     blockgen_time_expected = 10000,
     blockgen_time_max_delta = 60000,
     blockgen_difficulty_init = Fin 2,
     blockgen_difficulty_adjust_after = 10,
     blockgen_difficulty_adjust_factor_limit = Fin 16,
     transaction_num_per_block = 10,
     transaction_reward_amount = 50\<rparr>"

text \<open>
  The TOML accessors: \<open>parse_file\<close>, \<open>contains\<close>/\<open>operator[]\<close> on a table, \<open>is_table\<close>/\<open>as_table\<close>
  on a node, and \<open>value<T>()\<close> for the three types the code asks for.
\<close>

record ('t, 'n) toml_api =
  toml_parse_file :: "string \<Rightarrow> 't outcome"
  toml_contains :: "'t \<Rightarrow> string \<Rightarrow> bool"
  toml_index :: "'t \<Rightarrow> string \<Rightarrow> 'n"
  toml_as_table :: "'n \<Rightarrow> 't option"
  toml_value_rep :: "'n \<Rightarrow> 64 word option"
  toml_value_double :: "'n \<Rightarrow> double option"
  toml_value_size :: "'n \<Rightarrow> u64 option"

definition toml_for_table ::
    "('t, 'n) toml_api \<Rightarrow> 't \<Rightarrow> string \<Rightarrow> ('t \<Rightarrow> config \<Rightarrow> config) \<Rightarrow> config \<Rightarrow> config" where
  "toml_for_table T parent name action cfg =
     (if \<not> toml_contains T parent name then cfg
      else (case toml_as_table T (toml_index T parent name) of
              None \<Rightarrow> cfg
            | Some tbl \<Rightarrow> action tbl cfg))"

definition toml_assign ::
    "('t, 'n) toml_api \<Rightarrow> ('n \<Rightarrow> 'v option) \<Rightarrow> (('v \<Rightarrow> 'v) \<Rightarrow> config \<Rightarrow> config) \<Rightarrow>
     't \<Rightarrow> string \<Rightarrow> config \<Rightarrow> config" where
  "toml_assign T val upd parent name cfg =
     (if \<not> toml_contains T parent name then cfg
      else (case val (toml_index T parent name) of
              None \<Rightarrow> cfg
            | Some v \<Rightarrow> upd (\<lambda>_. v) cfg))"

definition toml_blockgen :: "('t, 'n) toml_api \<Rightarrow> 't \<Rightarrow> config \<Rightarrow> config" where
  "toml_blockgen T t =
     toml_assign T (toml_value_double T) blockgen_difficulty_adjust_factor_limit_update t
       ''difficulty_adjust_factor_limit'' \<circ>
     toml_assign T (toml_value_size T) blockgen_difficulty_adjust_after_update t
       ''difficulty_adjust_after'' \<circ>
     toml_assign T (toml_value_double T) blockgen_difficulty_init_update t ''difficulty_init'' \<circ>
     toml_assign T (toml_value_rep T) blockgen_time_max_delta_update t ''time_max_delta'' \<circ>
     toml_assign T (toml_value_rep T) blockgen_time_expected_update t ''time_expected''"

definition toml_transaction :: "('t, 'n) toml_api \<Rightarrow> 't \<Rightarrow> config \<Rightarrow> config" where
  "toml_transaction T t =
     toml_assign T (toml_value_size T) transaction_reward_amount_update t ''reward_amount'' \<circ>
     toml_assign T (toml_value_size T) transaction_num_per_block_update t ''num_per_block''"

definition from_toml :: "('t, 'n) toml_api \<Rightarrow> string \<Rightarrow> config outcome" where
  "from_toml T filename =
     bind_outcome (toml_parse_file T filename) (\<lambda>t.
       Ok (toml_for_table T t ''transaction'' (toml_transaction T)
            (toml_for_table T t ''blockgen'' (toml_blockgen T) from_defaults)))"

section \<open>Lemmas\<close>

lemma from_defaults_simps [simp]:
  "blockgen_time_expected from_defaults = 10000"
  "blockgen_time_max_delta from_defaults = 60000"
  "blockgen_difficulty_init from_defaults = Fin 2"
  "blockgen_difficulty_adjust_after from_defaults = 10"
  "blockgen_difficulty_adjust_factor_limit from_defaults = Fin 16"
  "transaction_num_per_block from_defaults = 10"
  "transaction_reward_amount from_defaults = 50"
  by (simp_all add: from_defaults_def)

lemma sint_in_i64 [simp]: "in_i64 (sint (w :: 64 word))"
  using sint_greater_eq [of w] sint_less [of w] by (simp add: in_i64_def)

lemma sint_word_of_int_i64: "in_i64 i \<Longrightarrow> sint (word_of_int i :: 64 word) = i"
  by (simp add: in_i64_def sint_sbintrunc' signed_take_bit_int_eq_self)

lemma sint_time_sub: "time_sub a b = Ok d \<Longrightarrow> sint d = sint a - sint b"
  using sint_word_of_int_i64 [of "sint a - sint b"] by (simp add: time_sub_def split: if_splits)

lemma time_since_epoch_inverse [simp]:
  "from_time_since_epoch (to_time_since_epoch tp) = tp"
  "to_time_since_epoch (from_time_since_epoch n) = n"
  by (simp_all add: from_time_since_epoch_def to_time_since_epoch_def)

text \<open>
  What the configuration field holds after \<open>toml_assign\<close>: the file's value if the key is there
  with a value of the type, the old value otherwise.
\<close>

definition toml_table :: "('t, 'n) toml_api \<Rightarrow> 't \<Rightarrow> string \<Rightarrow> 't option" where
  "toml_table T doc table =
     (if toml_contains T doc table then toml_as_table T (toml_index T doc table) else None)"

definition toml_key :: "('t, 'n) toml_api \<Rightarrow> ('n \<Rightarrow> 'v option) \<Rightarrow> 't \<Rightarrow> string \<Rightarrow> 'v option" where
  "toml_key T val tbl key = (if toml_contains T tbl key then val (toml_index T tbl key) else None)"

definition toml_lookup ::
    "('t, 'n) toml_api \<Rightarrow> ('n \<Rightarrow> 'v option) \<Rightarrow> 't \<Rightarrow> string \<Rightarrow> string \<Rightarrow> 'v option" where
  "toml_lookup T val doc table key =
     Option.bind (toml_table T doc table) (\<lambda>tbl. toml_key T val tbl key)"

fun or_default :: "'v option \<Rightarrow> 'v \<Rightarrow> 'v" where
  "or_default None d = d"
| "or_default (Some v) d = v"

lemma or_default_fun: "or_default None = (\<lambda>d. d)" "or_default (Some v) = (\<lambda>d. v)"
  by (rule ext, simp)+

lemma toml_for_table_eq:
  "toml_for_table T doc table act cfg =
     (case toml_table T doc table of None \<Rightarrow> cfg | Some tbl \<Rightarrow> act tbl cfg)"
  by (simp add: toml_for_table_def toml_table_def)

lemma toml_assign_eq:
  "upd (\<lambda>d. d) cfg = cfg \<Longrightarrow>
     toml_assign T val upd tbl key cfg = upd (or_default (toml_key T val tbl key)) cfg"
  by (cases "val (toml_index T tbl key)") (simp_all add: toml_assign_def toml_key_def or_default_fun)

text \<open>
  \<open>Config::from_toml\<close> overrides exactly the fields whose key is present with a value of the
  expected type and keeps the documented default for every other field; it fails only when the
  file does not parse.
\<close>

theorem from_toml_fields:
  "from_toml T f = bind_outcome (toml_parse_file T f) (\<lambda>t. Ok \<lparr>
     blockgen_time_expected =
       or_default (toml_lookup T (toml_value_rep T) t ''blockgen'' ''time_expected'') 10000,
     blockgen_time_max_delta =
       or_default (toml_lookup T (toml_value_rep T) t ''blockgen'' ''time_max_delta'') 60000,
     blockgen_difficulty_init =
       or_default (toml_lookup T (toml_value_double T) t ''blockgen'' ''difficulty_init'') (Fin 2),
     blockgen_difficulty_adjust_after =
       or_default (toml_lookup T (toml_value_size T) t ''blockgen'' ''difficulty_adjust_after'') 10,
     blockgen_difficulty_adjust_factor_limit =
       or_default (toml_lookup T (toml_value_double T) t ''blockgen''
         ''difficulty_adjust_factor_limit'') (Fin 16),
     transaction_num_per_block =
       or_default (toml_lookup T (toml_value_size T) t ''transaction'' ''num_per_block'') 10,
     transaction_reward_amount =
       or_default (toml_lookup T (toml_value_size T) t ''transaction'' ''reward_amount'') 50\<rparr>)"
  unfolding from_toml_def
  apply (rule arg_cong [where f = "bind_outcome (toml_parse_file T f)"], rule ext,
      rule arg_cong [where f = Ok])
  subgoal for t
    by (cases "toml_table T t ''blockgen''"; cases "toml_table T t ''transaction''")
      (simp_all add: toml_for_table_eq toml_blockgen_def toml_transaction_def toml_assign_eq
        toml_lookup_def from_defaults_def)
  done

end
