(* ===== verification/Digest.thy ===== *)
theory Digest
  imports Prelude
begin

unbundle bit_operations_syntax

text \<open>
  The class \<open>Digest\<close> of \<open>include/crypto/digest.h\<close>: a byte vector with its hexadecimal rendering
  and parsing, and the number of leading zero bits that measures proof of work.
\<close>

section \<open>Model\<close>

type_synonym digest = "u8 list"

text \<open>The inner loop over the mask; the flag says that the function returned from inside it.\<close>

function mask_loop :: "u8 \<Rightarrow> u8 \<Rightarrow> nat \<Rightarrow> nat \<times> bool" where
  "mask_loop byte m count =
     (if m = 0 then (count, False)
      else if byte AND m = 0 then mask_loop byte (drop_bit 1 m) (count + 1)
      else (count, True))"
  by pat_completeness auto
termination
proof (relation "measure (\<lambda>(byte, m, count). unat m)")
  fix byte m :: u8 and count :: nat
  assume "m \<noteq> 0"
  then have "0 < unat m" by (simp add: unat_gt_0)
  then have "unat (drop_bit 1 m) < unat m"
    by (simp add: drop_bit_eq_div unat_div)
  then show "((byte, drop_bit 1 m, count + 1), byte, m, count)
      \<in> measure (\<lambda>(byte, m, count). unat m)"
    by simp
qed simp

declare mask_loop.simps [simp del]

fun zero_prefix_loop :: "digest \<Rightarrow> nat \<Rightarrow> nat" where
  "zero_prefix_loop [] count = count"
| "zero_prefix_loop (byte # bytes) count =
     (case mask_loop byte 0x80 count of
        (count', True) \<Rightarrow> count'
      | (count', False) \<Rightarrow> zero_prefix_loop bytes count')"

definition zero_prefix_length :: "digest \<Rightarrow> nat" where
  "zero_prefix_length d = zero_prefix_loop d 0"

definition hex_digit :: "nat \<Rightarrow> char" where
  "hex_digit n = (if n < 10 then char_of (48 + n) else char_of (87 + n))"

fun hex :: "nat \<Rightarrow> string" where
  "hex n = (if n < 16 then [hex_digit n] else hex (n div 16) @ [hex_digit (n mod 16)])"

declare hex.simps [simp del]

text \<open>\<open>std::setw(2)\<close> with fill character \<open>0\<close>.\<close>

definition setw2 :: "string \<Rightarrow> string" where
  "setw2 s = replicate (2 - length s) (CHR ''0'') @ s"

definition digest_to_string :: "digest \<Rightarrow> string" where
  "digest_to_string d = concat (map (\<lambda>b. setw2 (hex (unat b))) d)"

definition char_to_nibble :: "char \<Rightarrow> nat outcome" where
  "char_to_nibble c =
     (let n = of_char c :: nat in
      if 48 \<le> n \<and> n \<le> 57 then Ok (n - 48)
      else if 97 \<le> n \<and> n \<le> 102 then Ok (n - 97 + 10)
      else if 65 \<le> n \<and> n \<le> 70 then Ok (n - 65 + 10)
      else Throw (Exn Invalid_argument ''invalid digest string''))"

text \<open>The loop runs \<open>str.length() / 2\<close> times, so a trailing odd character is never read.\<close>

fun digest_from_string :: "string \<Rightarrow> digest outcome" where
  "digest_from_string (c1 # c2 # cs) =
     bind_outcome (char_to_nibble c1) (\<lambda>h.
     bind_outcome (char_to_nibble c2) (\<lambda>l.
     bind_outcome (digest_from_string cs) (\<lambda>d.
       Ok (word_of_nat (push_bit 4 h OR l) # d))))"
| "digest_from_string cs = Ok []"

section \<open>Leading zero bits\<close>

text \<open>Reference: the bits of a digest, most significant first, and the number they denote.\<close>

definition byte_bits :: "u8 \<Rightarrow> bool list" where
  "byte_bits b = map (bit b) (rev [0..<8])"

definition digest_bits :: "digest \<Rightarrow> bool list" where
  "digest_bits d = concat (map byte_bits d)"

definition digest_value :: "digest \<Rightarrow> nat" where
  "digest_value d = foldl (\<lambda>v b. v * 256 + unat b) 0 d"

fun bits_value :: "bool list \<Rightarrow> nat" where
  "bits_value [] = 0"
| "bits_value (b # bs) = of_bool b * 2 ^ length bs + bits_value bs"

lemma length_byte_bits [simp]: "length (byte_bits b) = 8"
  by (simp add: byte_bits_def)

lemma length_digest_bits [simp]: "length (digest_bits d) = 8 * length d"
  by (induction d) (auto simp: digest_bits_def)

lemma and_two_power_eq_0_iff: "(b :: u8) AND 2 ^ k = 0 \<longleftrightarrow> \<not> bit b k" if "k < 8"
proof -
  have "b AND 2 ^ k = of_bool (bit b k) * 2 ^ k"
    by (rule bit_word_eqI) (auto simp: bit_simps)
  with that show ?thesis by (simp add: exp_eq_zero_iff)
qed

lemma mask_loop_bits:
  assumes "k < 8"
  shows "mask_loop b (2 ^ k) c =
    (c + length (takeWhile Not (map (bit b) (rev [0..<Suc k]))),
     \<exists>x \<in> set (map (bit b) (rev [0..<Suc k])). x)"
  using assms
proof (induction k arbitrary: c)
  case 0
  have "mask_loop b 0 c' = (c', False)" for c' by (simp add: mask_loop.simps)
  with 0 and_two_power_eq_0_iff [of 0 b] show ?case
    by (auto simp: mask_loop.simps [of b 1] drop_bit_eq_div)
next
  case (Suc k)
  have half: "drop_bit 1 (2 ^ Suc k :: u8) = 2 ^ k"
    by (rule bit_word_eqI) (use Suc.prems in \<open>auto simp: bit_simps\<close>)
  have nz: "(2 ^ Suc k :: u8) \<noteq> 0"
    using Suc.prems by (simp only: exp_eq_zero_iff) simp
  show ?case
  proof (cases "bit b (Suc k)")
    case True
    with Suc.prems nz show ?thesis
      by (auto simp: mask_loop.simps [of b "2 ^ Suc k"] and_two_power_eq_0_iff simp del: power_Suc)
  next
    case False
    with Suc nz half show ?thesis
      by (auto simp: mask_loop.simps [of b "2 ^ Suc k"] and_two_power_eq_0_iff le_Suc_eq
          simp del: power_Suc)
  qed
qed

lemma mask_loop_byte:
  "mask_loop b 0x80 c =
     (c + length (takeWhile Not (byte_bits b)), \<exists>x \<in> set (byte_bits b). x)"
proof -
  have "(0x80 :: u8) = 2 ^ 7" and "[0..<8] = [0..<Suc 7]" by (simp_all add: upt_rec)
  with mask_loop_bits [of 7 b c] show ?thesis by (simp only: byte_bits_def)
qed

lemma zero_prefix_loop_bits:
  "zero_prefix_loop d c = c + length (takeWhile Not (digest_bits d))"
proof (induction d arbitrary: c)
  case Nil
  then show ?case by (simp add: digest_bits_def)
next
  case (Cons b d)
  show ?case
  proof (cases "\<exists>x \<in> set (byte_bits b). x")
    case True
    then have "takeWhile Not (byte_bits b @ digest_bits d) = takeWhile Not (byte_bits b)"
      by (auto simp: takeWhile_append)
    with True show ?thesis
      by (simp add: mask_loop_byte digest_bits_def)
  next
    case False
    then have "length (takeWhile Not (byte_bits b)) = 8" by (simp add: takeWhile_eq_all_conv [THEN iffD2])
    moreover from False
    have "takeWhile Not (byte_bits b @ digest_bits d) = byte_bits b @ takeWhile Not (digest_bits d)"
      by (auto simp: takeWhile_append)
    ultimately show ?thesis using False Cons
      by (auto simp: mask_loop_byte digest_bits_def split: bool.split)
  qed
qed

lemma zero_prefix_length_bits:
  "zero_prefix_length d = length (takeWhile Not (digest_bits d))"
  by (simp add: zero_prefix_length_def zero_prefix_loop_bits)

lemma bits_value_less: "bits_value bs < 2 ^ length bs"
  by (induction bs) auto

lemma bits_value_append:
  "bits_value (as @ bs) = bits_value as * 2 ^ length bs + bits_value bs"
  by (induction as) (auto simp: algebra_simps power_add)

lemma bits_value_prefix_iff:
  "k \<le> length bs \<Longrightarrow> bits_value bs < 2 ^ (length bs - k) \<longleftrightarrow> k \<le> length (takeWhile Not bs)"
proof (induction bs arbitrary: k)
  case (Cons b bs)
  show ?case
  proof (cases k)
    case 0
    then show ?thesis using bits_value_less [of "b # bs"] by simp
  next
    case (Suc k')
    have "2 ^ (length bs - k') \<le> (2 ^ length bs :: nat)" by simp
    then have "\<not> 2 ^ length bs + bits_value bs < 2 ^ (length bs - k')" by linarith
    with Suc Cons show ?thesis by auto
  qed
qed simp

lemma bits_value_bit: "bits_value (map (bit a) (rev [0..<n])) = take_bit n (a :: nat)"
proof (induction n)
  case (Suc n)
  have "take_bit (Suc n) a = 2 ^ n * of_bool (bit a n) + take_bit n a"
  proof (rule of_nat_eq_iff [where 'a = int, THEN iffD1])
    show "int (take_bit (Suc n) a) = int (2 ^ n * of_bool (bit a n) + take_bit n a)"
      using take_bit_Suc_from_most [of n "int a"] by (simp add: take_bit_of_nat bit_of_nat_iff)
  qed
  with Suc show ?case by simp
qed simp

lemma bit_unat: "bit (unat (b :: u8)) = bit b"
  by (rule ext, simp only: unat_eq_nat_uint bit_nat_iff bit_uint_iff)
    (auto dest: bit_imp_le_length)

lemma unat_byte_less: "unat (b :: u8) < 256"
  using unsigned_less [of b] by simp

lemma bits_value_byte_bits: "bits_value (byte_bits b) = unat b"
proof -
  have "map (bit b) (rev [0..<8]) = map (bit (unat b)) (rev [0..<8])"
    by (simp only: bit_unat)
  moreover have "take_bit 8 (unat b) = unat b"
    using unat_byte_less [of b] by (simp add: take_bit_nat_eq_self)
  ultimately show ?thesis
    by (simp only: byte_bits_def bits_value_bit)
qed

lemma digest_value_bits: "digest_value d = bits_value (digest_bits d)"
proof (induction d rule: rev_induct)
  case (snoc b d)
  then show ?case
    by (simp add: digest_value_def digest_bits_def bits_value_append bits_value_byte_bits)
qed (simp add: digest_value_def digest_bits_def)

section \<open>Hexadecimal rendering and parsing\<close>

definition hex_byte :: "u8 \<Rightarrow> string" where
  "hex_byte b = [hex_digit (unat b div 16), hex_digit (unat b mod 16)]"

lemma char_of_48: "char_of (48 :: nat) = CHR ''0''"
  by code_simp

lemma setw2_hex: "setw2 (hex (unat (b :: u8))) = hex_byte b"
proof (cases "unat b < 16")
  case True
  then show ?thesis
    by (simp add: setw2_def hex.simps [of "unat b"] hex_byte_def hex_digit_def
        char_of_48)
next
  case False
  moreover have "unat b div 16 < 16" using unat_byte_less [of b] by simp
  ultimately show ?thesis
    by (simp add: setw2_def hex_byte_def hex.simps [of "unat b"] hex.simps [of "unat b div 16"])
qed

lemma digest_to_string_simps [simp]:
  "digest_to_string [] = []"
  "digest_to_string (b # d) = hex_byte b @ digest_to_string d"
  by (simp_all add: digest_to_string_def setw2_hex)

lemma char_to_nibble_hex_digit [simp]: "n < 16 \<Longrightarrow> char_to_nibble (hex_digit n) = Ok n"
  by (auto simp: char_to_nibble_def hex_digit_def Let_def)

lemma char_to_nibble_less: "char_to_nibble c = Ok n \<Longrightarrow> n < 16"
  by (auto simp: char_to_nibble_def Let_def split: if_splits)

lemma nibbles_or:
  assumes "l < 16"
  shows "push_bit 4 h OR l = 16 * h + (l :: nat)"
proof -
  have "take_bit 4 l = l" using assms by (simp add: take_bit_nat_eq_self)
  then have "\<not> bit (push_bit 4 h) n \<or> \<not> bit l n" for n
    by (metis bit_push_bit_iff_nat bit_take_bit_iff not_le)
  then have "push_bit 4 h + l = push_bit 4 h OR l" by (intro disjunctive_add) blast
  then show ?thesis by (simp add: push_bit_eq_mult)
qed

lemma nibbles_byte: "word_of_nat (16 * (unat (b :: u8) div 16) + unat b mod 16) = b"
  by (simp only: mult_div_mod_eq) simp

lemma unat_nibbles:
  assumes "h < 16" "l < 16"
  shows "unat (word_of_nat (16 * h + l) :: u8) = 16 * h + l"
proof -
  have "16 * h + l < 256" using assms by simp
  then show ?thesis by (simp only: unat_of_nat) simp
qed

lemma from_to_string: "digest_from_string (digest_to_string d) = Ok d"
proof (induction d)
  case (Cons b d)
  have "unat b div 16 < 16" using unat_byte_less [of b] by simp
  with Cons show ?case
    by (simp add: hex_byte_def nibbles_or nibbles_byte del: of_nat_add of_nat_mult)
qed simp

lemma digest_to_string_inject: "digest_to_string d = digest_to_string d' \<longleftrightarrow> d = d'"
  by (metis from_to_string outcome.inject(1))

lemma length_digest_to_string [simp]: "length (digest_to_string d) = 2 * length d"
  by (induction d) (simp_all add: hex_byte_def)

text \<open>Letters are read in either case and printed in lower case.\<close>

definition hex_lower :: "char \<Rightarrow> char" where
  "hex_lower c = (if 65 \<le> (of_char c :: nat) \<and> (of_char c :: nat) \<le> 70
     then char_of (of_char c + 32 :: nat) else c)"

lemma hex_digit_of_nibble: "char_to_nibble c = Ok n \<Longrightarrow> hex_digit n = hex_lower c"
  by (auto simp: char_to_nibble_def hex_digit_def hex_lower_def Let_def split: if_splits)

lemma to_from_string:
  "digest_from_string s = Ok d \<Longrightarrow>
     digest_to_string d = map hex_lower (take (2 * (length s div 2)) s)"
proof (induction s arbitrary: d rule: digest_from_string.induct)
  case (1 c1 c2 cs)
  then obtain h l d' where h: "char_to_nibble c1 = Ok h" and l: "char_to_nibble c2 = Ok l"
    and d': "digest_from_string cs = Ok d'" and d: "d = word_of_nat (push_bit 4 h OR l) # d'"
    by (auto simp: outcome_simps)
  from h l have less: "h < 16" "l < 16" by (auto dest: char_to_nibble_less)
  then have "unat (word_of_nat (push_bit 4 h OR l) :: u8) = 16 * h + l"
    by (simp only: nibbles_or unat_nibbles)
  with less h l have "hex_byte (word_of_nat (push_bit 4 h OR l)) = [hex_lower c1, hex_lower c2]"
    by (simp add: hex_byte_def hex_digit_of_nibble)
  with "1.IH" [OF d'] d show ?case by simp
qed simp_all

definition hex_read :: "string \<Rightarrow> string" where
  "hex_read s = take (2 * (length s div 2)) s"

lemma hex_read_simps [simp]:
  "hex_read [] = []" "hex_read [c] = []" "hex_read (c1 # c2 # cs) = c1 # c2 # hex_read cs"
  by (simp_all add: hex_read_def)

lemma digest_from_string_ok:
  "\<forall>c \<in> set (hex_read s). is_Ok (char_to_nibble c) \<Longrightarrow> \<exists>d. digest_from_string s = Ok d"
  by (induction s rule: digest_from_string.induct) (auto simp: is_Ok_iff)

lemma digest_from_string_bad:
  "\<exists>c \<in> set (hex_read s). \<not> is_Ok (char_to_nibble c) \<Longrightarrow>
     digest_from_string s = Throw (Exn Invalid_argument ''invalid digest string'')"
proof (induction s rule: digest_from_string.induct)
  case (1 c1 c2 cs)
  have bad: "\<not> is_Ok (char_to_nibble c) \<Longrightarrow>
      char_to_nibble c = Throw (Exn Invalid_argument ''invalid digest string'')" for c
    by (auto simp: char_to_nibble_def Let_def split: if_splits)
  show ?case
  proof (cases "is_Ok (char_to_nibble c1) \<and> is_Ok (char_to_nibble c2)")
    case True
    with 1 have "digest_from_string cs = Throw (Exn Invalid_argument ''invalid digest string'')"
      by auto
    with True show ?thesis by (auto simp: is_Ok_iff)
  next
    case False
    with bad [of c1] bad [of c2] show ?thesis
      by (cases "is_Ok (char_to_nibble c1)") (auto simp: is_Ok_iff)
  qed
qed simp_all

section \<open>Properties\<close>

text \<open>
  C27. \<open>Digest::zero_prefix_length\<close> measures proof of work as intended: a digest has at least
  \<open>k\<close> leading zero bits exactly when the big-endian number it denotes is below
  \<open>2 ^ (8 * length - k)\<close>, and the count never exceeds the number of bits.
\<close>

theorem zero_prefix_length_threshold:
  "zero_prefix_length d \<le> 8 * length d \<and>
   (\<forall>k. k \<le> zero_prefix_length d \<longleftrightarrow>
        k \<le> 8 * length d \<and> digest_value d < 2 ^ (8 * length d - k))"
proof -
  have le: "zero_prefix_length d \<le> 8 * length d"
    using length_takeWhile_le [of Not "digest_bits d"] by (simp add: zero_prefix_length_bits)
  then show ?thesis
    using bits_value_prefix_iff [of _ "digest_bits d"]
    by (auto simp: zero_prefix_length_bits digest_value_bits)
qed

text \<open>
  Rendering a digest and parsing the text again gives the same digest, so hashes and
  signatures survive the JSON messages; the rendering is twice as long as the digest and
  different digests render differently.
\<close>

theorem digest_string_roundtrip:
  "digest_from_string (digest_to_string d) = Ok d \<and>
   length (digest_to_string d) = 2 * length d \<and>
   (digest_to_string d = digest_to_string d' \<longleftrightarrow> d = d')"
  by (simp add: from_to_string digest_to_string_inject)

text \<open>
  Parsing a digest string is total: it throws \<open>invalid_argument\<close> exactly when one of the
  characters it reads is not a hexadecimal digit, and otherwise returns half as many bytes whose
  rendering is the lower-case form of what was read. A trailing odd character is ignored.
\<close>

theorem digest_from_string_spec:
  "(if list_all (\<lambda>c. is_Ok (char_to_nibble c)) (hex_read s)
    then \<exists>d. digest_from_string s = Ok d \<and> length d = length s div 2 \<and>
           digest_to_string d = map hex_lower (hex_read s)
    else digest_from_string s = Throw (Exn Invalid_argument ''invalid digest string''))"
proof (cases "list_all (\<lambda>c. is_Ok (char_to_nibble c)) (hex_read s)")
  case True
  then obtain d where d: "digest_from_string s = Ok d"
    using digest_from_string_ok by (auto simp: list_all_iff)
  have str: "digest_to_string d = map hex_lower (hex_read s)"
    using to_from_string [OF d] by (simp add: hex_read_def)
  then have "2 * length d = length (hex_read s)"
    by (metis length_digest_to_string length_map)
  with d str True show ?thesis by (simp add: hex_read_def)
next
  case False
  then show ?thesis using digest_from_string_bad by (auto simp: list_all_iff)
qed

end
