(* ===== verification/Json_Api.thy ===== *)
theory Json_Api
  imports Config Crypto
begin

text \<open>
  The interface to the JSON library (nlohmann::json, not part of the repository) and the wrapper
  \<open>json_get\<close> of \<open>include/json.h\<close>, and the environment \<open>env\<close> in which the rest of the program
  runs: the libraries it calls, the global configuration and the build flag.
\<close>

section \<open>Model\<close>

text \<open>
  One field per library operation the code uses. \<open>json_at\<close> is \<open>operator[]\<close> on a constant object:
  its documentation leaves a missing key undefined and promises an exception for a value that
  is not an object, so its result is an \<open>outcome\<close>. A sequence of assignments \<open>j["k"] = v\<close> to
  different keys of a fresh value is \<open>json_object\<close> of the pairs; \<open>json::array()\<close> filled by
  \<open>push_back\<close> is \<open>json_array\<close>; \<open>json_elems\<close> is what a range-for loop visits.
\<close>

record 'j json_api =
  json_null :: 'j
  json_of_string :: "string \<Rightarrow> 'j"
  json_of_u64 :: "u64 \<Rightarrow> 'j"
  json_array :: "'j list \<Rightarrow> 'j"
  json_object :: "(string \<times> 'j) list \<Rightarrow> 'j"
  json_contains :: "'j \<Rightarrow> string \<Rightarrow> bool"
  json_at :: "'j \<Rightarrow> string \<Rightarrow> 'j outcome"
  json_elems :: "'j \<Rightarrow> 'j list"
  json_get_string :: "'j \<Rightarrow> string outcome"
  json_get_u64 :: "'j \<Rightarrow> u64 outcome"
  json_get_u16 :: "'j \<Rightarrow> u16 outcome"
  json_eq_string :: "'j \<Rightarrow> string \<Rightarrow> bool"
  json_dump :: "'j \<Rightarrow> string"

definition json_get :: "'j json_api \<Rightarrow> 'j \<Rightarrow> string \<Rightarrow> 'j outcome" where
  "json_get J j key =
     (if \<not> json_contains J j key
      then Throw (Exn Invalid_argument (''nonexistent key: '' @ key))
      else json_at J j key)"

text \<open>
  The environment. \<open>sha256\<close> is the function \<open>SHA256Hasher::hash\<close> computes when the OpenSSL calls in
  it succeed (theory \<open>Crypto\<close> models the calls and their failures); \<open>c_log2\<close> is \<open>std::log2\<close>;
  \<open>cfg\<close> is the \<open>config()\<close> singleton; \<open>proof_of_work\<close> is the macro \<open>PROOF_OF_WORK\<close>.
\<close>

record 'j env =
  api :: "'j json_api"
  sha256 :: "string \<Rightarrow> digest"
  evp :: evp_api
  c_log2 :: "double \<Rightarrow> double"
  cfg :: config
  proof_of_work :: bool

section \<open>What the code relies on\<close>

text \<open>
  The documented behaviour that serialisation needs: members of a constructed object are found
  under their keys, a constructed array is visited in order, scalars read back as written.
\<close>

locale json_library =
  fixes J :: "'j json_api"
  assumes contains_object:
      "distinct (map fst kvs) \<Longrightarrow> json_contains J (json_object J kvs) k \<longleftrightarrow> k \<in> fst ` set kvs"
    and at_object:
      "distinct (map fst kvs) \<Longrightarrow> (k, v) \<in> set kvs \<Longrightarrow> json_at J (json_object J kvs) k = Ok v"
    and elems_array: "json_elems J (json_array J js) = js"
    and get_string: "json_get_string J (json_of_string J s) = Ok s"
    and get_u64: "json_get_u64 J (json_of_u64 J n) = Ok n"
    and get_u16: "json_get_u16 J (json_of_u64 J (ucast p)) = Ok p"
    and eq_string: "json_eq_string J (json_of_string J s) s' \<longleftrightarrow> s = s'"
begin

lemma at_object_lookup:
  "distinct (map fst kvs) \<Longrightarrow> map_of kvs k = Some v \<Longrightarrow> json_at J (json_object J kvs) k = Ok v"
  using at_object map_of_SomeD by metis

lemma get_object:
  "distinct (map fst kvs) \<Longrightarrow> json_get J (json_object J kvs) k =
     (case map_of kvs k of
        None \<Rightarrow> Throw (Exn Invalid_argument (''nonexistent key: '' @ k))
      | Some v \<Rightarrow> Ok v)"
proof (cases "map_of kvs k")
  case None
  assume d: "distinct (map fst kvs)"
  from None have "k \<notin> fst ` set kvs" by (simp only: map_of_eq_None_iff) simp
  with d None show ?thesis by (simp add: json_get_def contains_object)
next
  case (Some v)
  assume d: "distinct (map fst kvs)"
  from Some have "k \<in> fst ` set kvs" by (metis map_of_eq_None_iff option.discI)
  with d Some show ?thesis by (simp add: json_get_def contains_object at_object_lookup)
qed

lemmas scalar_laws = get_string get_u64 get_u16 eq_string elems_array

end

text \<open>
  JSON values as a datatype satisfy the interface: an object is its member list, reading a
  number as \<open>std::size_t\<close> or \<open>uint16_t\<close> accepts unsigned numbers only, and rendering follows
  \<open>dump()\<close> without indentation.
\<close>

datatype jval = JNull | JUnsigned u64 | JString string | JArray "jval list"
  | JObject "(string \<times> jval) list"

definition json_type_error :: "'a outcome" where
  "json_type_error = Throw (Exn Json_exception ''type_error'')"

definition json_syntax_error :: "'a outcome" where
  "json_syntax_error = Throw (Exn Json_parse_error ''parse_error'')"

fun jval_contains :: "jval \<Rightarrow> string \<Rightarrow> bool" where
  "jval_contains (JObject kvs) k = (map_of kvs k \<noteq> None)"
| "jval_contains j k = False"

fun jval_at :: "jval \<Rightarrow> string \<Rightarrow> jval outcome" where
  "jval_at (JObject kvs) k = (case map_of kvs k of None \<Rightarrow> Undef | Some v \<Rightarrow> Ok v)"
| "jval_at j k = json_type_error"

fun jval_elems :: "jval \<Rightarrow> jval list" where
  "jval_elems JNull = []"
| "jval_elems (JArray js) = js"
| "jval_elems (JObject kvs) = map snd kvs"
| "jval_elems j = [j]"

fun jval_get_string :: "jval \<Rightarrow> string outcome" where
  "jval_get_string (JString s) = Ok s"
| "jval_get_string j = json_type_error"

fun jval_get_u64 :: "jval \<Rightarrow> u64 outcome" where
  "jval_get_u64 (JUnsigned n) = Ok n"
| "jval_get_u64 j = json_type_error"

fun escape :: "string \<Rightarrow> string" where
  "escape [] = []"
| "escape (c # cs) = (if c = CHR 0x22 \<or> c = CHR 0x5C then [CHR 0x5C, c] else [c]) @ escape cs"

definition quote :: "string \<Rightarrow> string" where
  "quote s = [CHR 0x22] @ escape s @ [CHR 0x22]"

fun intercalate :: "string list \<Rightarrow> string" where
  "intercalate [] = []"
| "intercalate [s] = s"
| "intercalate (s # ss) = s @ '','' @ intercalate ss"

fun jval_dump :: "jval \<Rightarrow> string" where
  "jval_dump JNull = ''null''"
| "jval_dump (JUnsigned n) = dec_word n"
| "jval_dump (JString s) = quote s"
| "jval_dump (JArray js) = ''['' @ intercalate (map jval_dump js) @ '']''"
| "jval_dump (JObject kvs) =
     ''{'' @ intercalate (map (\<lambda>(k, v). quote k @ '':'' @ jval_dump v) kvs) @ ''}''"

definition jval_api :: "jval json_api" where
  "jval_api = \<lparr>
     json_null = JNull, json_of_string = JString, json_of_u64 = JUnsigned,
     json_array = JArray, json_object = JObject,
     json_contains = jval_contains, json_at = jval_at, json_elems = jval_elems,
     json_get_string = jval_get_string, json_get_u64 = jval_get_u64,
     json_get_u16 = (\<lambda>j. map_outcome_val ucast (jval_get_u64 j)),
     json_eq_string = (\<lambda>j s. j = JString s), json_dump = jval_dump\<rparr>"

lemma ucast_u16_u64: "ucast (ucast (p :: u16) :: u64) = p"
  by (rule bit_word_eqI) (auto simp: bit_simps)

interpretation jval: json_library jval_api
proof unfold_locales
  fix kvs :: "(string \<times> jval) list" and k v
  assume d: "distinct (map fst kvs)"
  then show "json_contains jval_api (json_object jval_api kvs) k \<longleftrightarrow> k \<in> fst ` set kvs"
    by (simp add: jval_api_def map_of_eq_None_iff)
  assume "(k, v) \<in> set kvs"
  with d show "json_at jval_api (json_object jval_api kvs) k = Ok v"
    by (simp add: jval_api_def)
qed (simp_all add: jval_api_def ucast_u16_u64)

text \<open>
  A complete concrete environment, for evaluating the model: the digest of a message is its own
  bytes, a signature is accepted when it equals the hash, every OpenSSL call succeeds, and the
  binary logarithm is rounded down to an integer.
\<close>

definition example_evp :: evp_api where
  "example_evp = \<lparr>
     md_ctx_new = Some 1, digest_init_ex = (\<lambda>_. 1), digest_update = (\<lambda>_ _. 1),
     digest_final_ex = (\<lambda>_ m. (1, map (\<lambda>c. word_of_nat (of_char c)) m)),
     bio_new_mem_buf = (\<lambda>_. Some 1), pem_read_bio_ec_pubkey = (\<lambda>_ _. Some 1),
     pem_read_bio_ec_private_key = (\<lambda>_ _. Some 1), pkey_new = Some 1,
     pkey_assign_ec_key = (\<lambda>_ _. 1), pkey_ctx_new = (\<lambda>_ _. Some 1),
     pkey_verify_init = (\<lambda>_. 1), pkey_verify = (\<lambda>_ s h. of_bool (s = h)),
     pkey_sign_init = (\<lambda>_. 1), pkey_sign = (\<lambda>_ _ h. (1, h)), err_error_string = ''error''\<rparr>"

fun example_log2 :: "double \<Rightarrow> double" where
  "example_log2 (Fin x) =
     (if 0 < x then Fin (of_int (ilog2 x)) else if x = 0 then NInf else NaN)"
| "example_log2 PInf = PInf"
| "example_log2 x = NaN"

definition example_env :: "bool \<Rightarrow> jval env" where
  "example_env pow = \<lparr>
     api = jval_api, sha256 = map (\<lambda>c. word_of_nat (of_char c)), evp = example_evp,
     c_log2 = example_log2, cfg = from_defaults, proof_of_work = pow\<rparr>"

lemma example_env_simps [simp]:
  "api (example_env pow) = jval_api"
  "sha256 (example_env pow) = map (\<lambda>c. word_of_nat (of_char c))"
  "evp (example_env pow) = example_evp"
  "c_log2 (example_env pow) = example_log2"
  "cfg (example_env pow) = from_defaults"
  "proof_of_work (example_env pow) = pow"
  by (simp_all add: example_env_def)

lemma example_verify [simp]: "public_key_verify example_evp k h s = Ok (s = h)"
  by (simp add: public_key_verify_def read_public_key_def example_evp_def)

end
