(* ===== verification/Transaction.thy ===== *)
theory Transaction
  imports Json_Api
begin

text \<open>
  The classes \<open>Transaction\<close> and \<open>TransactionList\<close> of \<open>include/transaction.h\<close> and
  \<open>src/transaction.cc\<close>: inputs, outputs and unspent outputs, serialisation, the hash of a
  transaction, and the validity checks. \<open>std::size_t\<close> is 64 bits wide and its sums wrap around.
\<close>

section \<open>Model: data\<close>

record txi =
  txi_output_hash :: digest
  txi_output_index :: u64
  txi_signature :: digest

record txo =
  txo_amount :: u64
  txo_address :: string

record utxo =
  utxo_output_hash :: digest
  utxo_output_index :: u64
  utxo_output :: txo

datatype transaction_type = STANDARD | REWARD

record transaction =
  t_type :: transaction_type
  t_index :: u64
  t_hash :: digest
  t_inputs :: "txi list"
  t_outputs :: "txo list"
  t_unspent_outputs :: "utxo list"

definition txi_eq :: "txi \<Rightarrow> txi \<Rightarrow> bool" where
  "txi_eq a b \<longleftrightarrow> txi_output_hash a = txi_output_hash b \<and> txi_output_index a = txi_output_index b"

definition utxo_eq_txi :: "utxo \<Rightarrow> txi \<Rightarrow> bool" where
  "utxo_eq_txi u i \<longleftrightarrow>
     utxo_output_hash u = txi_output_hash i \<and> utxo_output_index u = txi_output_index i"

definition update_unspent_outputs :: "utxo list \<Rightarrow> transaction \<Rightarrow> transaction" where
  "update_unspent_outputs us t = t\<lparr>t_unspent_outputs := us\<rparr>"

section \<open>Model: serialisation\<close>

definition json_get_digest :: "'j json_api \<Rightarrow> 'j \<Rightarrow> string \<Rightarrow> digest outcome" where
  "json_get_digest J j key =
     bind_outcome (json_get J j key) (\<lambda>v.
     bind_outcome (json_get_string J v) digest_from_string)"

definition txi_to_json :: "'j json_api \<Rightarrow> txi \<Rightarrow> 'j" where
  "txi_to_json J i = json_object J
     [(''output_hash'', json_of_string J (digest_to_string (txi_output_hash i))),
      (''output_index'', json_of_u64 J (txi_output_index i)),
      (''signature'', json_of_string J (digest_to_string (txi_signature i)))]"

definition txi_from_json :: "'j json_api \<Rightarrow> 'j \<Rightarrow> txi outcome" where
  "txi_from_json J j =
     bind_outcome (json_get_digest J j ''output_hash'') (\<lambda>output_hash.
     bind_outcome (bind_outcome (json_get J j ''output_index'') (json_get_u64 J)) (\<lambda>output_index.
     bind_outcome (json_get_digest J j ''signature'') (\<lambda>signature.
       Ok \<lparr>txi_output_hash = output_hash, txi_output_index = output_index,
           txi_signature = signature\<rparr>)))"

definition txo_to_json :: "'j json_api \<Rightarrow> txo \<Rightarrow> 'j" where
  "txo_to_json J out = json_object J
     [(''amount'', json_of_u64 J (txo_amount out)),
      (''address'', json_of_string J (txo_address out))]"

definition txo_from_json :: "'j json_api \<Rightarrow> 'j \<Rightarrow> txo outcome" where
  "txo_from_json J j =
     bind_outcome (bind_outcome (json_get J j ''amount'') (json_get_u64 J)) (\<lambda>amount.
     bind_outcome (bind_outcome (json_get J j ''address'') (json_get_string J)) (\<lambda>address.
       Ok \<lparr>txo_amount = amount, txo_address = address\<rparr>))"

definition utxo_to_json :: "'j json_api \<Rightarrow> utxo \<Rightarrow> 'j" where
  "utxo_to_json J u = json_object J
     [(''output_hash'', json_of_string J (digest_to_string (utxo_output_hash u))),
      (''output_index'', json_of_u64 J (utxo_output_index u)),
      (''output'', txo_to_json J (utxo_output u))]"

definition transaction_to_json :: "'j json_api \<Rightarrow> transaction \<Rightarrow> 'j" where
  "transaction_to_json J t = json_object J
     [(''type'', json_of_string J
        (case t_type t of STANDARD \<Rightarrow> ''standard'' | REWARD \<Rightarrow> ''reward'')),
      (''index'', json_of_u64 J (t_index t)),
      (''hash'', json_of_string J (digest_to_string (t_hash t))),
      (''inputs'', json_array J (map (txi_to_json J) (t_inputs t))),
      (''outputs'', json_array J (map (txo_to_json J) (t_outputs t)))]"

definition transaction_type_from_json :: "'j json_api \<Rightarrow> 'j \<Rightarrow> transaction_type outcome" where
  "transaction_type_from_json J j =
     bind_outcome (json_get J j ''type'') (\<lambda>v.
       if json_eq_string J v ''standard'' then Ok STANDARD
       else if json_eq_string J v ''reward'' then Ok REWARD
       else Throw (Exn Logic_error ''invalid transaction type''))"

definition transaction_from_json :: "'j json_api \<Rightarrow> 'j \<Rightarrow> transaction outcome" where
  "transaction_from_json J j =
     bind_outcome (transaction_type_from_json J j) (\<lambda>type.
     bind_outcome (bind_outcome (json_get J j ''index'') (json_get_u64 J)) (\<lambda>index.
     bind_outcome (json_get_digest J j ''hash'') (\<lambda>hash.
     bind_outcome (bind_outcome (json_get J j ''inputs'')
         (\<lambda>v. map_outcomes (txi_from_json J) (json_elems J v))) (\<lambda>inputs.
     bind_outcome (bind_outcome (json_get J j ''outputs'')
         (\<lambda>v. map_outcomes (txo_from_json J) (json_elems J v))) (\<lambda>outputs.
       Ok \<lparr>t_type = type, t_index = index, t_hash = hash, t_inputs = inputs,
           t_outputs = outputs, t_unspent_outputs = []\<rparr>)))))"

section \<open>Model: hash and validity\<close>

definition transaction_hash_input :: "transaction \<Rightarrow> string" where
  "transaction_hash_input t =
     dec_word (t_index t) @
     concat (map (\<lambda>i. digest_to_string (txi_output_hash i) @ dec_word (txi_output_index i))
       (t_inputs t)) @
     concat (map (\<lambda>out. dec_word (txo_amount out) @ txo_address out) (t_outputs t))"

definition transaction_determine_hash :: "'j env \<Rightarrow> transaction \<Rightarrow> digest" where
  "transaction_determine_hash E t = sha256 E (transaction_hash_input t)"

definition reward :: "'j env \<Rightarrow> string \<Rightarrow> u64 \<Rightarrow> transaction" where
  "reward E reward_address index =
     (let t = \<lparr>t_type = REWARD, t_index = index, t_hash = [], t_inputs = [],
               t_outputs = [\<lparr>txo_amount = transaction_reward_amount (cfg E),
                             txo_address = reward_address\<rparr>],
               t_unspent_outputs = []\<rparr>
      in t\<lparr>t_hash := transaction_determine_hash E t\<rparr>)"

text \<open>The loop over the unspent outputs for one input: the address found last and the sum.\<close>

fun match_unspent :: "txi \<Rightarrow> utxo list \<Rightarrow> string \<times> u64 \<Rightarrow> string \<times> u64" where
  "match_unspent i [] acc = acc"
| "match_unspent i (u # us) (txi_address, txi_sum) =
     (if utxo_eq_txi u i
      then match_unspent i us (txo_address (utxo_output u), txi_sum + txo_amount (utxo_output u))
      else match_unspent i us (txi_address, txi_sum))"

text \<open>The loop over the inputs from position \<open>i\<close> on: an error text or the sum of the inputs.\<close>

fun check_inputs :: "'j env \<Rightarrow> transaction \<Rightarrow> nat \<Rightarrow> txi list \<Rightarrow> u64 \<Rightarrow> string + u64" where
  "check_inputs E t i [] txi_sum = Inr txi_sum"
| "check_inputs E t i (txi # txis) txi_sum =
     (case match_unspent txi (t_unspent_outputs t) ([], txi_sum) of
        (txi_address, txi_sum') \<Rightarrow>
          if txi_address = []
          then Inl (''input '' @ dec i @ '': no corresponding unspent output found'')
          else (case public_key_verify (evp E) (public_key txi_address) (t_hash t)
                       (txi_signature txi) of
                  Ok True \<Rightarrow> check_inputs E t (Suc i) txis txi_sum'
                | Ok False \<Rightarrow> Inl (''input '' @ dec i @ '': invalid signature'')
                | Throw e \<Rightarrow> Inl (''input '' @ dec i @
                    '': exception during signature validation: '' @ what e)
                | Undef \<Rightarrow> Inl []))"

definition txo_sum :: "txo list \<Rightarrow> u64" where
  "txo_sum outputs = foldl (\<lambda>s out. s + txo_amount out) 0 outputs"

definition valid_standard :: "'j env \<Rightarrow> transaction \<Rightarrow> bool \<times> string" where
  "valid_standard E t =
     (if t_hash t \<noteq> transaction_determine_hash E t then (False, ''invalid hash'')
      else (case check_inputs E t 0 (t_inputs t) 0 of
              Inl err \<Rightarrow> (False, err)
            | Inr txi_sum \<Rightarrow>
                if txi_sum \<noteq> txo_sum (t_outputs t)
                then (False, ''mismatched input/output sums'')
                else (True, [])))"

definition valid_reward :: "'j env \<Rightarrow> transaction \<Rightarrow> bool \<times> string" where
  "valid_reward E t =
     (if t_hash t \<noteq> transaction_determine_hash E t then (False, ''invalid hash'')
      else if t_inputs t \<noteq> [] then (False, ''inputs must be empty'')
      else if length (t_outputs t) \<noteq> 1 then (False, ''more than one output'')
      else if txo_amount (t_outputs t ! 0) \<noteq> transaction_reward_amount (cfg E)
      then (False, ''output amount does not match reward amount'')
      else (True, []))"

definition transaction_valid :: "'j env \<Rightarrow> transaction \<Rightarrow> bool \<times> string" where
  "transaction_valid E t =
     (case t_type t of REWARD \<Rightarrow> valid_reward E t | STANDARD \<Rightarrow> valid_standard E t)"

section \<open>Model: transaction lists\<close>

type_synonym transaction_list = "transaction list"

fun transactions_valid_from ::
    "'j env \<Rightarrow> u64 \<Rightarrow> nat \<Rightarrow> transaction list \<Rightarrow> bool \<times> string" where
  "transactions_valid_from E index i [] = (True, [])"
| "transactions_valid_from E index i (t # ts) =
     (if t_type t \<noteq> (if i = 0 then REWARD else STANDARD)
      then (False, ''transaction '' @ dec i @ '': invalid type'')
      else if t_index t \<noteq> index
      then (False, ''transaction '' @ dec i @ '': invalid index '' @ dec_word (t_index t))
      else (case transaction_valid E t of
              (False, err) \<Rightarrow> (False, ''transaction '' @ dec i @ '': '' @ err)
            | (True, _) \<Rightarrow> transactions_valid_from E index (Suc i) ts))"

text \<open>The sum \<open>transaction_num_per_block + 1\<close> is computed in \<open>std::size_t\<close>.\<close>

definition transaction_list_valid :: "'j env \<Rightarrow> transaction_list \<Rightarrow> u64 \<Rightarrow> bool \<times> string" where
  "transaction_list_valid E ts index =
     (if unat (transaction_num_per_block (cfg E) + 1) < length ts
      then (False, ''invalid number of transactions'')
      else transactions_valid_from E index 0 ts)"

definition transaction_list_to_json :: "'j json_api \<Rightarrow> transaction_list \<Rightarrow> 'j" where
  "transaction_list_to_json J ts = json_array J (map (transaction_to_json J) ts)"

definition transaction_list_from_json :: "'j json_api \<Rightarrow> 'j \<Rightarrow> transaction_list outcome" where
  "transaction_list_from_json J j = map_outcomes (transaction_from_json J) (json_elems J j)"

section \<open>Serialisation round trips\<close>

context json_library
begin

lemma get_digest_object:
  "distinct (map fst kvs) \<Longrightarrow> map_of kvs k = Some (json_of_string J (digest_to_string d)) \<Longrightarrow>
     json_get_digest J (json_object J kvs) k = Ok d"
  by (simp add: json_get_digest_def get_object get_string from_to_string)

lemma txi_roundtrip: "txi_from_json J (txi_to_json J i) = Ok i"
  by (simp add: txi_from_json_def txi_to_json_def get_digest_object get_object scalar_laws)

lemma txo_roundtrip: "txo_from_json J (txo_to_json J out) = Ok out"
  by (simp add: txo_from_json_def txo_to_json_def get_object scalar_laws)

lemma txis_roundtrip: "map_outcomes (txi_from_json J) (map (txi_to_json J) is) = Ok is"
  using map_outcomes_roundtrip [of "is" "txi_from_json J" "txi_to_json J" id]
  by (simp add: txi_roundtrip)

lemma txos_roundtrip: "map_outcomes (txo_from_json J) (map (txo_to_json J) outs) = Ok outs"
  using map_outcomes_roundtrip [of outs "txo_from_json J" "txo_to_json J" id]
  by (simp add: txo_roundtrip)

lemma transaction_roundtrip:
  "transaction_from_json J (transaction_to_json J t) = Ok (update_unspent_outputs [] t)"
  by (cases "t_type t")
    (simp_all add: transaction_from_json_def transaction_to_json_def transaction_type_from_json_def
      get_digest_object get_object scalar_laws txis_roundtrip txos_roundtrip
      update_unspent_outputs_def)

lemma transaction_list_roundtrip:
  "transaction_list_from_json J (transaction_list_to_json J ts) =
     Ok (map (update_unspent_outputs []) ts)"
  unfolding transaction_list_from_json_def transaction_list_to_json_def elems_array
  by (rule map_outcomes_roundtrip) (rule transaction_roundtrip)

end

section \<open>What the validity checks accept\<close>

definition utxo_key :: "utxo \<Rightarrow> digest \<times> u64" where
  "utxo_key u = (utxo_output_hash u, utxo_output_index u)"

definition txi_key :: "txi \<Rightarrow> digest \<times> u64" where
  "txi_key i = (txi_output_hash i, txi_output_index i)"

lemma utxo_eq_txi_key: "utxo_eq_txi u i \<longleftrightarrow> utxo_key u = txi_key i"
  by (simp add: utxo_eq_txi_def utxo_key_def txi_key_def)

lemma txi_eq_key: "txi_eq a b \<longleftrightarrow> txi_key a = txi_key b"
  by (simp add: txi_eq_def txi_key_def)

definition find_unspent :: "utxo list \<Rightarrow> txi \<Rightarrow> utxo option" where
  "find_unspent us i = find (\<lambda>u. utxo_eq_txi u i) us"

definition input_amount :: "utxo list \<Rightarrow> txi \<Rightarrow> u64" where
  "input_amount us i = (case find_unspent us i of None \<Rightarrow> 0 | Some u \<Rightarrow> txo_amount (utxo_output u))"

definition authorised :: "'j env \<Rightarrow> transaction \<Rightarrow> txi \<Rightarrow> bool" where
  "authorised E t i \<longleftrightarrow>
     (case find_unspent (t_unspent_outputs t) i of
        None \<Rightarrow> False
      | Some u \<Rightarrow> txo_address (utxo_output u) \<noteq> [] \<and>
          public_key_verify (evp E) (public_key (txo_address (utxo_output u))) (t_hash t)
            (txi_signature i) = Ok True)"

lemma find_unspent_Some_iff:
  "distinct (map utxo_key us) \<Longrightarrow>
     find_unspent us i = Some u \<longleftrightarrow> u \<in> set us \<and> utxo_key u = txi_key i"
  by (induction us) (auto simp: find_unspent_def utxo_eq_txi_key image_iff)

lemma find_unspent_None_iff: "find_unspent us i = None \<longleftrightarrow> txi_key i \<notin> utxo_key ` set us"
  by (force simp: find_unspent_def find_None_iff utxo_eq_txi_key)

lemma match_unspent_absent:
  "txi_key i \<notin> utxo_key ` set us \<Longrightarrow> match_unspent i us acc = acc"
  by (induction i us acc rule: match_unspent.induct) (auto simp: utxo_eq_txi_key)

lemma match_unspent_unique:
  "distinct (map utxo_key us) \<Longrightarrow> match_unspent i us (a, s) =
     (case find_unspent us i of
        None \<Rightarrow> (a, s)
      | Some u \<Rightarrow> (txo_address (utxo_output u), s + txo_amount (utxo_output u)))"
proof (induction us)
  case (Cons u us)
  then show ?case
    by (cases "utxo_key u = txi_key i")
      (auto simp: find_unspent_def utxo_eq_txi_key match_unspent_absent)
qed (simp add: find_unspent_def)

lemma check_inputs_unique:
  assumes "distinct (map utxo_key (t_unspent_outputs t))"
  shows "check_inputs E t n is s = Inr r \<longleftrightarrow>
    list_all (authorised E t) is \<and>
    r = s + sum_list (map (input_amount (t_unspent_outputs t)) is)"
proof (induction "is" arbitrary: n s)
  case (Cons i "is")
  show ?case
  proof (cases "find_unspent (t_unspent_outputs t) i")
    case None
    with assms show ?thesis by (simp add: match_unspent_unique authorised_def)
  next
    case (Some u)
    with assms Cons show ?thesis
      by (auto simp: match_unspent_unique authorised_def input_amount_def add.assoc
          split: outcome.split bool.split)
  qed
qed auto

lemma txo_sum_sum_list: "txo_sum outs = sum_list (map txo_amount outs)"
proof -
  have "foldl (\<lambda>s out. s + txo_amount out) a outs = a + sum_list (map txo_amount outs)" for a
    by (induction outs arbitrary: a) (simp_all add: add.assoc)
  then show ?thesis by (simp add: txo_sum_def)
qed

lemma valid_standard_True: "fst (valid_standard E t) \<longleftrightarrow> valid_standard E t = (True, [])"
  by (auto simp: valid_standard_def split: sum.split)

lemma valid_standard_unique:
  assumes "distinct (map utxo_key (t_unspent_outputs t))"
  shows "valid_standard E t = (True, []) \<longleftrightarrow>
    t_hash t = transaction_determine_hash E t \<and>
    list_all (authorised E t) (t_inputs t) \<and>
    sum_list (map (input_amount (t_unspent_outputs t)) (t_inputs t)) =
      sum_list (map txo_amount (t_outputs t))"
proof -
  have "valid_standard E t = (True, []) \<longleftrightarrow> t_hash t = transaction_determine_hash E t \<and>
      check_inputs E t 0 (t_inputs t) 0 = Inr (txo_sum (t_outputs t))"
    by (auto simp: valid_standard_def split: sum.split)
  then show ?thesis
    by (auto simp: check_inputs_unique [OF assms] txo_sum_sum_list)
qed

lemma check_inputs_no_unspent:
  assumes "t_unspent_outputs t = []" "is \<noteq> []"
  shows "check_inputs E t n is s = Inl (''input '' @ dec n @ '': no corresponding unspent output found'')"
  using assms by (cases "is") simp_all

lemma unat_sum_list:
  "sum_list (map unat ws) < 2 ^ 64 \<Longrightarrow> unat (sum_list (ws :: u64 list)) = sum_list (map unat ws)"
proof (induction ws)
  case (Cons w ws)
  then show ?case by (simp add: unat_word_ariths)
qed simp

lemma valid_reward_iff:
  "valid_reward E t = (True, []) \<longleftrightarrow>
     t_hash t = transaction_determine_hash E t \<and> t_inputs t = [] \<and>
     (\<exists>out. t_outputs t = [out] \<and> txo_amount out = transaction_reward_amount (cfg E))"
  by (cases "t_outputs t") (auto simp: valid_reward_def)

lemma transactions_valid_from_iff:
  "transactions_valid_from E index i ts = (True, []) \<longleftrightarrow>
     (\<forall>k < length ts. t_type (ts ! k) = (if i + k = 0 then REWARD else STANDARD) \<and>
        t_index (ts ! k) = index \<and> fst (transaction_valid E (ts ! k)))"
proof (induction ts arbitrary: i)
  case (Cons t ts)
  show ?case
    by (auto simp: Cons.IH All_less_Suc2 split: prod.split bool.split)
qed simp

section \<open>Properties\<close>

lemma dec_50_1_150: "dec 50 = ''50''" "dec (Suc 0) = ''1''" "dec 150 = ''150''"
  by code_simp+

text \<open>
  Serialising a transaction or a list of transactions to JSON and reading it back gives the
  same transaction, except that the unspent outputs it was linked to are not transmitted: they
  come back empty.
\<close>

theorem transaction_json_roundtrip:
  assumes "json_library J"
  shows "transaction_from_json J (transaction_to_json J t) = Ok (update_unspent_outputs [] t) \<and>
    transaction_list_from_json J (transaction_list_to_json J ts) =
      Ok (map (update_unspent_outputs []) ts)"
  using json_library.transaction_roundtrip [OF assms]
    json_library.transaction_list_roundtrip [OF assms] by blast

definition example_output :: txo where
  "example_output = \<lparr>txo_amount = 50, txo_address = ''alice''\<rparr>"

definition example_utxo :: utxo where
  "example_utxo = \<lparr>utxo_output_hash = [1], utxo_output_index = 0, utxo_output = example_output\<rparr>"

text \<open>A transaction that spends \<open>example_utxo\<close>, signed in the sense of \<open>example_env\<close>.\<close>

definition spend :: "txi list \<Rightarrow> txo list \<Rightarrow> utxo list \<Rightarrow> transaction" where
  "spend is outs us =
     (let h = transaction_determine_hash (example_env True)
                \<lparr>t_type = STANDARD, t_index = 1, t_hash = [], t_inputs = is, t_outputs = outs,
                 t_unspent_outputs = us\<rparr>
      in \<lparr>t_type = STANDARD, t_index = 1, t_hash = h,
          t_inputs = map (\<lambda>i. i\<lparr>txi_signature := h\<rparr>) is, t_outputs = outs,
          t_unspent_outputs = us\<rparr>)"

definition example_input :: txi where
  "example_input = \<lparr>txi_output_hash = [1], txi_output_index = 0, txi_signature = []\<rparr>"

definition example_spend :: transaction where
  "example_spend = spend [example_input] [example_output] [example_utxo]"

theorem transaction_json_roundtrip_witness:
  "transaction_from_json jval_api (transaction_to_json jval_api example_spend) =
     Ok (update_unspent_outputs [] example_spend) \<and>
   transaction_list_from_json jval_api (transaction_list_to_json jval_api [example_spend]) =
     Ok [update_unspent_outputs [] example_spend]"
  using transaction_json_roundtrip [OF jval.json_library_axioms, of example_spend "[example_spend]"]
  by simp

text \<open>
  C22. A standard transaction whose linked unspent outputs have distinct references passes the
  check exactly when its hash is the one computed from its contents, every input refers to a
  linked unspent output with a non-empty address whose key verifies the input's signature over
  that hash, and the amounts agree as 64-bit sums.
\<close>

theorem valid_standard_spec:
  assumes "distinct (map utxo_key (t_unspent_outputs t))"
  shows "valid_standard E t = (True, []) \<longleftrightarrow>
    t_hash t = transaction_determine_hash E t \<and>
    list_all (authorised E t) (t_inputs t) \<and>
    sum_list (map (input_amount (t_unspent_outputs t)) (t_inputs t)) =
      sum_list (map txo_amount (t_outputs t))"
  using assms by (rule valid_standard_unique)

theorem valid_standard_spec_witness:
  "valid_standard (example_env True) example_spend = (True, [])"
proof -
  have "distinct (map utxo_key (t_unspent_outputs example_spend))"
    by (simp add: example_spend_def spend_def Let_def)
  from valid_standard_spec [OF this, of "example_env True"] show ?thesis
    by (simp add: example_spend_def spend_def transaction_determine_hash_def
        transaction_hash_input_def authorised_def find_unspent_def utxo_eq_txi_def
        example_input_def example_utxo_def example_output_def input_amount_def Let_def)
qed

lemma reward_valid: "transaction_valid E (reward E a i) = (True, [])"
  by (simp add: transaction_valid_def valid_reward_def reward_def Let_def
      transaction_determine_hash_def transaction_hash_input_def)

text \<open>
  The text a transaction hash is computed from concatenates decimal numbers and addresses
  without separators, so different transactions can have the same hash whatever the hash
  function: with the default reward amount, the rewards of block 1 to address \<open>50x\<close> and of block
  150 to address \<open>x\<close> are both valid and have equal hashes, hence create outputs with the same
  reference.
\<close>

theorem transaction_hash_ambiguous:
  assumes "transaction_reward_amount (cfg E) = 50"
  shows "t_hash (reward E ''50x'' 1) = t_hash (reward E ''x'' 150) \<and>
    transaction_valid E (reward E ''50x'' 1) = (True, []) \<and>
    transaction_valid E (reward E ''x'' 150) = (True, []) \<and>
    t_index (reward E ''50x'' 1) \<noteq> t_index (reward E ''x'' 150)"
proof -
  have "transaction_hash_input (reward E ''50x'' 1) = transaction_hash_input (reward E ''x'' 150)"
    using assms by (simp add: transaction_hash_input_def reward_def Let_def dec_50_1_150)
  moreover have "t_hash (reward E a i) = sha256 E (transaction_hash_input (reward E a i))" for a i
    by (simp add: reward_def Let_def transaction_determine_hash_def transaction_hash_input_def)
  moreover have "t_index (reward E a i) = i" for a i by (simp add: reward_def Let_def)
  ultimately show ?thesis by (simp add: reward_valid)
qed

theorem transaction_hash_ambiguous_witness:
  "t_hash (reward (example_env True) ''50x'' 1) = t_hash (reward (example_env True) ''x'' 150)"
  using transaction_hash_ambiguous [of "example_env True"] by (simp add: from_defaults_def)

end
