(* ===== verification/Difficulty.thy ===== *)
theory Difficulty
  imports Config
begin

text \<open>
  The class \<open>DifficultyAdjuster\<close> of \<open>include/difficulty.h\<close>: every \<open>adjust_after\<close> blocks the
  difficulty is multiplied by the ratio of expected to actual time, limited from both sides.
\<close>

section \<open>Model\<close>

record difficulty_adjuster =
  m_difficulty :: double
  m_cumulative_difficulty :: double
  m_counter :: u64
  m_timestamp :: time_point

definition adjuster_init :: "config \<Rightarrow> difficulty_adjuster" where
  "adjuster_init C = \<lparr>m_difficulty = blockgen_difficulty_init C,
     m_cumulative_difficulty = Fin 0, m_counter = 0, m_timestamp = 0\<rparr>"

definition clamp_factor :: "double \<Rightarrow> double \<Rightarrow> double" where
  "clamp_factor limit adjust_factor =
     (if d_less adjust_factor (d_div (Fin 1) limit) then d_div (Fin 1) limit
      else if d_less limit adjust_factor then limit
      else adjust_factor)"

text \<open>
  \<open>time_expected * adjust_after\<close> multiplies a signed count by a \<open>std::size_t\<close>, so it is computed
  modulo \<open>2 ^ 64\<close> and read as unsigned; \<open>timestamp - m_timestamp\<close> is signed. A modulus of zero is
  undefined.
\<close>

definition adjust :: "config \<Rightarrow> time_point \<Rightarrow> difficulty_adjuster \<Rightarrow> difficulty_adjuster outcome" where
  "adjust C timestamp a =
     (let time_expected = blockgen_time_expected C;
          adjust_after = blockgen_difficulty_adjust_after C;
          adjust_factor_limit = blockgen_difficulty_adjust_factor_limit C
      in if m_counter a = 0
         then Ok (a\<lparr>m_timestamp := timestamp, m_counter := m_counter a + 1\<rparr>)
         else if adjust_after = 0 then Undef
         else if m_counter a mod adjust_after = 0
         then bind_outcome (time_sub timestamp (m_timestamp a)) (\<lambda>total_time_actual.
           let adjust_factor = clamp_factor adjust_factor_limit
                 (d_div (double_of_int (uint (time_expected * adjust_after)))
                        (double_of_int (sint total_time_actual)));
               difficulty = d_mult (m_difficulty a) adjust_factor
           in Ok \<lparr>m_difficulty = difficulty,
                  m_cumulative_difficulty = d_add (m_cumulative_difficulty a) difficulty,
                  m_counter = m_counter a + 1,
                  m_timestamp = timestamp\<rparr>)
         else Ok (a\<lparr>m_counter := m_counter a + 1\<rparr>))"

section \<open>Lemmas\<close>

lemma adjust_counter: "adjust C ts a = Ok a' \<Longrightarrow> m_counter a' = m_counter a + 1"
  by (auto simp: adjust_def Let_def outcome_simps split: if_splits)

text \<open>Before the first adjustment only the counter and the first timestamp change.\<close>

lemma adjust_quiet:
  assumes "m_counter a < blockgen_difficulty_adjust_after C"
  shows "\<exists>a'. adjust C ts a = Ok a' \<and> m_difficulty a' = m_difficulty a \<and>
    m_cumulative_difficulty a' = m_cumulative_difficulty a \<and> m_counter a' = m_counter a + 1"
proof (cases "m_counter a = 0")
  case False
  have "m_counter a mod blockgen_difficulty_adjust_after C = m_counter a"
    using assms by (simp add: word_less_nat_alt word_unat_eq_iff unat_mod_distrib)
  moreover have "blockgen_difficulty_adjust_after C \<noteq> 0"
    using assms by (auto simp: word_less_nat_alt)
  ultimately show ?thesis using False by (simp add: adjust_def Let_def)
qed (simp add: adjust_def Let_def)

lemma unat_u64_less: "unat (w :: u64) < 18446744073709551616"
  using unsigned_less [of w] by simp

lemma adjust_run_quiet:
  assumes "unat (m_counter a) + length tss \<le> unat (blockgen_difficulty_adjust_after C)"
  shows "\<exists>a'. fold_outcome (\<lambda>a ts. adjust C ts a) a tss = Ok a' \<and>
    m_difficulty a' = m_difficulty a \<and> m_cumulative_difficulty a' = m_cumulative_difficulty a \<and>
    unat (m_counter a') = unat (m_counter a) + length tss"
  using assms
proof (induction tss arbitrary: a)
  case (Cons ts tss)
  then have lt: "unat (m_counter a) < unat (blockgen_difficulty_adjust_after C)" by simp
  then obtain a1 where a1: "adjust C ts a = Ok a1" "m_difficulty a1 = m_difficulty a"
      "m_cumulative_difficulty a1 = m_cumulative_difficulty a" "m_counter a1 = m_counter a + 1"
    using adjust_quiet [of a C ts] by (auto simp: word_less_nat_alt)
  have "unat (m_counter a1) = unat (m_counter a) + 1"
    using lt a1(4) unat_u64_less [of "blockgen_difficulty_adjust_after C"]
    by (simp add: unat_word_ariths)
  moreover from this Cons.prems
  have "unat (m_counter a1) + length tss \<le> unat (blockgen_difficulty_adjust_after C)" by simp
  ultimately show ?case using Cons.IH [of a1] a1 by fastforce
qed simp


text \<open>The ratio of two integer counts is a number as soon as the first is not zero.\<close>

lemma round_double_not_NaN [simp]: "round_double x \<noteq> NaN"
  by (simp add: round_double_def Let_def)

lemma round_rat_u64:
  assumes "1 \<le> u" "u \<le> 2 ^ 64"
  shows "1 \<le> round_rat (of_int u)" "round_rat (of_int u) \<le> 2 ^ 64"
proof -
  have "round_rat (of_int 1) \<le> round_rat (of_int u)"
    using assms by (intro round_rat_mono) simp_all
  moreover have "round_rat (of_int 1) = of_int 1" by (rule round_rat_int) simp_all
  ultimately show "1 \<le> round_rat (of_int u)" by simp
  have "round_rat (of_int u) \<le> round_rat (of_int 1 * 2 powi 64)"
  proof (rule round_rat_mono)
    have "(of_int u :: rat) \<le> of_int (2 ^ 64)" using assms(2) by (simp only: of_int_le_iff)
    then show "of_int u \<le> of_int 1 * (2 powi 64 :: rat)" by (simp add: power_int_def)
  qed (use assms in simp)
  moreover have "round_rat (of_int 1 * 2 powi 64) = of_int 1 * 2 powi 64"
    by (rule round_rat_dyadic) simp_all
  ultimately show "round_rat (of_int u) \<le> 2 ^ 64" by (simp add: power_int_def)
qed

lemma double_of_u64:
  assumes "w \<noteq> (0 :: 64 word)"
  shows "\<exists>q. double_of_int (uint w) = Fin q \<and> 1 \<le> q \<and> q \<le> 2 ^ 64"
proof -
  define u where "u = uint w"
  have "u \<noteq> 0" "0 \<le> u" using assms by (simp_all add: u_def uint_0_iff)
  moreover have "u \<le> 2 ^ 64" using uint_lt2p [of w] by (simp add: u_def)
  ultimately have "1 \<le> round_rat (of_int u)" "round_rat (of_int u) \<le> 2 ^ 64"
    using round_rat_u64 [of u] by simp_all
  then have "double_of_int u = Fin (round_rat (of_int u))"
    by (auto simp: double_of_int_def round_double_def Let_def)
  with \<open>1 \<le> round_rat (of_int u)\<close> \<open>round_rat (of_int u) \<le> 2 ^ 64\<close>
  show ?thesis by (auto simp: u_def)
qed

lemma ratio_not_NaN: "0 < e \<Longrightarrow> d_div (Fin e) (round_double x) \<noteq> NaN"
  by (cases "round_double x") (auto simp: signed_inf_def)

lemma clamp_factor_bounds:
  assumes "1 \<le> L" and "f \<noteq> NaN"
  shows "\<exists>q lo. clamp_factor (Fin L) f = Fin q \<and> d_div (Fin 1) (Fin L) = Fin lo \<and>
    0 \<le> lo \<and> lo \<le> q \<and> q \<le> L"
proof -
  have "round_rat (1 / L) \<le> round_rat (of_int 1)"
    using assms(1) by (intro round_rat_mono) (simp_all add: field_simps)
  moreover have "round_rat (of_int 1) = of_int 1" by (rule round_rat_int) simp_all
  moreover have "0 \<le> round_rat (1 / L)" using assms(1) by (intro round_rat_nonneg) simp
  ultimately have lo: "d_div (Fin 1) (Fin L) = Fin (round_rat (1 / L))" "0 \<le> round_rat (1 / L)"
      "round_rat (1 / L) \<le> L"
    using assms(1) by (auto simp: round_double_def Let_def)
  then show ?thesis
    using assms by (cases f) (auto simp: clamp_factor_def not_less)
qed

lemma d_mult_between:
  assumes "0 \<le> d" "0 \<le> lo" "lo \<le> q" "q \<le> hi"
  shows "d_le (d_mult (Fin d) (Fin lo)) (d_mult (Fin d) (Fin q)) \<and>
    d_le (d_mult (Fin d) (Fin q)) (d_mult (Fin d) (Fin hi))"
  using assms by (auto intro!: round_double_mono mult_left_mono)

text \<open>An adjustment moves a finite difficulty by at most the configured factor.\<close>

lemma adjust_bounds:
  assumes "adjust C ts a = Ok a'" and "m_counter a \<noteq> 0"
    and "m_counter a mod blockgen_difficulty_adjust_after C = 0"
    and "blockgen_time_expected C * blockgen_difficulty_adjust_after C \<noteq> 0"
    and "blockgen_difficulty_adjust_factor_limit C = Fin L" and "1 \<le> L"
    and "m_difficulty a = Fin d" and "0 \<le> d"
  shows "d_le (d_mult (Fin d) (d_div (Fin 1) (Fin L))) (m_difficulty a') \<and>
    d_le (m_difficulty a') (d_mult (Fin d) (Fin L))"
proof -
  obtain dt where f: "m_difficulty a' = d_mult (Fin d) (clamp_factor (Fin L)
      (d_div (double_of_int (uint (blockgen_time_expected C * blockgen_difficulty_adjust_after C)))
        (round_double dt)))"
    using assms by (auto simp: adjust_def Let_def outcome_simps double_of_int_def split: if_splits)
  obtain e where e: "double_of_int (uint (blockgen_time_expected C *
      blockgen_difficulty_adjust_after C)) = Fin e" "1 \<le> e"
    using double_of_u64 [OF assms(4)] by blast
  have "d_div (Fin e) (round_double dt) \<noteq> NaN" using e(2) by (intro ratio_not_NaN) simp
  from clamp_factor_bounds [OF assms(6) this] obtain q lo
    where q: "clamp_factor (Fin L) (d_div (Fin e) (round_double dt)) = Fin q"
      "d_div (Fin 1) (Fin L) = Fin lo" "0 \<le> lo" "lo \<le> q" "q \<le> L" by blast
  from d_mult_between [OF assms(8) q(3-5)] show ?thesis using f e q by simp
qed


text \<open>On schedule the ratio is exactly one and nothing changes.\<close>

lemma adjust_on_schedule:
  assumes "m_counter a \<noteq> 0" and "m_counter a mod blockgen_difficulty_adjust_after C = 0"
    and "blockgen_difficulty_adjust_after C \<noteq> 0"
    and "blockgen_time_expected C * blockgen_difficulty_adjust_after C \<noteq> 0"
    and "sint ts - sint (m_timestamp a) =
      uint (blockgen_time_expected C * blockgen_difficulty_adjust_after C)"
    and "in_i64 (uint (blockgen_time_expected C * blockgen_difficulty_adjust_after C))"
    and "blockgen_difficulty_adjust_factor_limit C = Fin L" and "1 \<le> L"
    and "m_difficulty a = Fin d" and "round_double d = Fin d"
  shows "\<exists>a'. adjust C ts a = Ok a' \<and> m_difficulty a' = Fin d \<and> m_timestamp a' = ts \<and>
    m_counter a' = m_counter a + 1"
proof -
  let ?w = "blockgen_time_expected C * blockgen_difficulty_adjust_after C"
  obtain e where e: "double_of_int (uint ?w) = Fin e" "1 \<le> e"
    using double_of_u64 [OF assms(4)] by blast
  have sub: "time_sub ts (m_timestamp a) = Ok (word_of_int (uint ?w))"
    using assms(5,6) by (simp add: time_sub_def)
  have "sint (word_of_int (uint ?w) :: 64 word) = uint ?w"
    using assms(6) by (rule sint_word_of_int_i64)
  moreover have one: "round_double 1 = Fin 1"
    using round_rat_int [of 1] by (simp add: round_double_def)
  moreover have "clamp_factor (Fin L) (Fin 1) = Fin 1"
  proof -
    have "round_rat (1 / L) \<le> 1"
      using round_rat_mono [of "1 / L" 1] round_rat_int [of 1] assms(8) by (simp add: field_simps)
    moreover have "0 \<le> round_rat (1 / L)" using assms(8) by (intro round_rat_nonneg) simp
    ultimately have "d_div (Fin 1) (Fin L) = Fin (round_rat (1 / L))" "round_rat (1 / L) \<le> 1"
      using assms(8) by (auto simp: round_double_def Let_def)
    then show ?thesis using assms(8) by (simp add: clamp_factor_def)
  qed
  moreover have "d_div (Fin e) (Fin e) = Fin 1" using e(2) one by simp
  ultimately show ?thesis
    using assms e sub by (simp add: adjust_def Let_def)
qed

section \<open>Properties\<close>

text \<open>
  Until \<open>adjust_after\<close> blocks have been processed the adjuster never fails, the difficulty is
  the configured initial one and the cumulative difficulty is zero, whatever the timestamps.
\<close>

theorem first_period_quiet:
  assumes "length tss \<le> unat (blockgen_difficulty_adjust_after C)"
  shows "\<exists>a. fold_outcome (\<lambda>a ts. adjust C ts a) (adjuster_init C) tss = Ok a \<and>
    m_difficulty a = blockgen_difficulty_init C \<and> m_cumulative_difficulty a = Fin 0 \<and>
    unat (m_counter a) = length tss"
  using adjust_run_quiet [of "adjuster_init C" tss C] assms by (simp add: adjuster_init_def)

theorem first_period_quiet_witness:
  "\<exists>a. fold_outcome (\<lambda>a ts. adjust from_defaults ts a) (adjuster_init from_defaults)
      [1000, 1, 500] = Ok a \<and> m_difficulty a = Fin 2 \<and> m_cumulative_difficulty a = Fin 0 \<and>
      unat (m_counter a) = 3"
  using first_period_quiet [of "[1000, 1, 500]" from_defaults]
  by (simp add: numeral_3_eq_3)

text \<open>
  C38. An adjustment multiplies the difficulty by a factor between the reciprocal of the limit and
  the limit, with the rounding of double arithmetic on both bounds, even when no time or negative
  time has passed.
\<close>

theorem adjust_factor_limited:
  assumes "adjust C ts a = Ok a'" and "m_counter a \<noteq> 0"
    and "m_counter a mod blockgen_difficulty_adjust_after C = 0"
    and "blockgen_time_expected C * blockgen_difficulty_adjust_after C \<noteq> 0"
    and "blockgen_difficulty_adjust_factor_limit C = Fin L" and "1 \<le> L"
    and "m_difficulty a = Fin d" and "0 \<le> d"
  shows "d_le (d_mult (Fin d) (d_div (Fin 1) (Fin L))) (m_difficulty a') \<and>
    d_le (m_difficulty a') (d_mult (Fin d) (Fin L))"
  using assms by (rule adjust_bounds)

definition example_adjuster :: difficulty_adjuster where
  "example_adjuster = \<lparr>m_difficulty = Fin 2, m_cumulative_difficulty = Fin 0, m_counter = 10,
     m_timestamp = 1000\<rparr>"

theorem adjust_factor_limited_witness:
  "\<exists>a'. adjust from_defaults 0 example_adjuster = Ok a' \<and>
     d_le (d_mult (Fin 2) (d_div (Fin 1) (Fin 16))) (m_difficulty a') \<and>
     d_le (m_difficulty a') (d_mult (Fin 2) (Fin 16))"
proof -
  obtain a' where a': "adjust from_defaults 0 example_adjuster = Ok a'"
    by (simp add: adjust_def Let_def example_adjuster_def time_sub_def in_i64_def)
  with adjust_factor_limited [OF a', of 16 2] show ?thesis
    by (simp add: example_adjuster_def)
qed


text \<open>Timestamps exactly \<open>time_expected\<close> apart.\<close>

definition on_schedule :: "config \<Rightarrow> int \<Rightarrow> nat \<Rightarrow> time_point" where
  "on_schedule C t0 k = word_of_int (t0 + int k * sint (blockgen_time_expected C))"

text \<open>The configuration and the schedule fit the ranges of the types.\<close>

definition schedulable :: "config \<Rightarrow> int \<Rightarrow> nat \<Rightarrow> bool" where
  "schedulable C t0 n \<longleftrightarrow>
     blockgen_difficulty_adjust_after C \<noteq> 0 \<and> 0 < sint (blockgen_time_expected C) \<and>
     in_i64 (int (unat (blockgen_difficulty_adjust_after C)) * sint (blockgen_time_expected C)) \<and>
     n < 2 ^ 64 \<and> in_i64 t0 \<and> in_i64 (t0 + int n * sint (blockgen_time_expected C))"

lemma expected_product:
  assumes "schedulable C t0 n"
  shows "uint (blockgen_time_expected C * blockgen_difficulty_adjust_after C) =
    int (unat (blockgen_difficulty_adjust_after C)) * sint (blockgen_time_expected C)"
proof -
  let ?T = "blockgen_time_expected C" and ?A = "blockgen_difficulty_adjust_after C"
  have "?T = word_of_int (sint ?T)" "?A = word_of_int (int (unat ?A))" by simp_all
  then have "?T * ?A = word_of_int (int (unat ?A) * sint ?T)"
    by (metis mult.commute wi_hom_mult)
  moreover have "0 \<le> int (unat ?A) * sint ?T" using assms by (simp add: schedulable_def)
  ultimately show ?thesis using assms
    by (simp only: uint_word_of_int) (simp add: schedulable_def in_i64_def)
qed

lemma sint_on_schedule:
  assumes "schedulable C t0 n" and "k \<le> n"
  shows "sint (on_schedule C t0 k) = t0 + int k * sint (blockgen_time_expected C)"
proof -
  have "int k * sint (blockgen_time_expected C) \<le> int n * sint (blockgen_time_expected C)"
    and "0 \<le> int k * sint (blockgen_time_expected C)"
    using assms by (simp_all add: schedulable_def mult_right_mono)
  then have "in_i64 (t0 + int k * sint (blockgen_time_expected C))"
    using assms(1) unfolding schedulable_def in_i64_def by linarith
  then show ?thesis unfolding on_schedule_def by (rule sint_word_of_int_i64)
qed

text \<open>The state after \<open>k\<close> blocks on schedule.\<close>

definition schedule_inv :: "config \<Rightarrow> int \<Rightarrow> rat \<Rightarrow> nat \<Rightarrow> difficulty_adjuster \<Rightarrow> bool" where
  "schedule_inv C t0 d k a \<longleftrightarrow> m_difficulty a = Fin d \<and> m_counter a = word_of_nat k \<and>
     (k = 0 \<or> (let A = unat (blockgen_difficulty_adjust_after C) in
        m_timestamp a = on_schedule C t0 ((k - 1) div A * A)))"

lemma schedule_step:
  assumes ok: "schedulable C t0 n" and k: "k < n" and inv: "schedule_inv C t0 d k a"
    and L: "blockgen_difficulty_adjust_factor_limit C = Fin L" "1 \<le> L" "round_double d = Fin d"
  shows "\<exists>a'. adjust C (on_schedule C t0 k) a = Ok a' \<and> schedule_inv C t0 d (Suc k) a'"
proof -
  define A where "A = unat (blockgen_difficulty_adjust_after C)"
  have A: "0 < A" "blockgen_difficulty_adjust_after C \<noteq> 0"
    using ok unat_gt_0 by (auto simp: A_def schedulable_def)
  have c: "unat (m_counter a) = k"
    using inv k ok by (simp add: schedule_inv_def schedulable_def unat_of_nat)
  have modA: "m_counter a mod blockgen_difficulty_adjust_after C = 0 \<longleftrightarrow> k mod A = 0"
    by (simp add: word_unat_eq_iff unat_mod_distrib c A_def)
  consider "k = 0" | "0 < k" "k mod A \<noteq> 0" | "0 < k" "k mod A = 0" by blast
  then show ?thesis
  proof cases
    case 1
    with inv show ?thesis by (simp add: schedule_inv_def adjust_def Let_def)
  next
    case 2
    then have "Suc (k - 1) mod A \<noteq> 0" by simp
    then have "Suc (k - 1) div A = (k - 1) div A" by (simp add: div_Suc)
    with 2 have "k div A = (k - 1) div A" by simp
    moreover have "m_counter a \<noteq> 0" using 2 c by auto
    ultimately show ?thesis
      using inv 2 A modA by (simp add: schedule_inv_def adjust_def Let_def A_def)
  next
    case 3
    then obtain m where m: "k = A * m" by (auto simp: mod_eq_0_iff_dvd)
    with 3 obtain j where "m = Suc j" by (cases m) auto
    with m have j: "k = Suc j * A" by (simp add: mult.commute)
    have last: "(k - 1) div A * A = j * A"
    proof -
      obtain b where b: "A = Suc b" using A(1) by (cases A) auto
      then have "k - 1 = b + j * Suc b" using j by simp
      moreover have "(b + j * Suc b) div Suc b = j" by (subst div_mult_self1) simp_all
      ultimately show ?thesis using b by simp
    qed
    have ts: "m_timestamp a = on_schedule C t0 (j * A)"
      using inv 3 by (simp only: schedule_inv_def Let_def A_def [symmetric] last) simp
    have "sint (on_schedule C t0 k) - sint (m_timestamp a) =
        uint (blockgen_time_expected C * blockgen_difficulty_adjust_after C)"
      unfolding expected_product [OF ok] A_def [symmetric]
      using sint_on_schedule [OF ok, of k] sint_on_schedule [OF ok, of "j * A"] k j
      by (simp add: ts algebra_simps)
    moreover have "in_i64 (uint (blockgen_time_expected C * blockgen_difficulty_adjust_after C))"
      "blockgen_time_expected C * blockgen_difficulty_adjust_after C \<noteq> 0"
      using ok expected_product [OF ok] A by (auto simp: schedulable_def uint_0_iff)
    moreover have "m_counter a \<noteq> 0" using 3 c by auto
    ultimately obtain a' where "adjust C (on_schedule C t0 k) a = Ok a'" "m_difficulty a' = Fin d"
        "m_timestamp a' = on_schedule C t0 k" "m_counter a' = m_counter a + 1"
      using adjust_on_schedule [of a C "on_schedule C t0 k" L d] 3 modA A L inv
      by (auto simp: schedule_inv_def)
    moreover have "k div A * A = k" using 3 by auto
    ultimately show ?thesis using inv by (simp add: schedule_inv_def Let_def A_def)
  qed
qed

lemma schedule_run:
  assumes "schedulable C t0 n" "k \<le> n" "schedule_inv C t0 d 0 a"
    and "blockgen_difficulty_adjust_factor_limit C = Fin L" "1 \<le> L" "round_double d = Fin d"
  shows "\<exists>a'. fold_outcome (\<lambda>a ts. adjust C ts a) a (map (on_schedule C t0) [0..<k]) = Ok a' \<and>
    schedule_inv C t0 d k a'"
  using assms(2)
proof (induction k)
  case (Suc k)
  then obtain a1 where "fold_outcome (\<lambda>a ts. adjust C ts a) a (map (on_schedule C t0) [0..<k]) = Ok a1"
      "schedule_inv C t0 d k a1" by auto
  with schedule_step [OF assms(1) _ _ assms(4-6), of k a1] Suc.prems show ?case
    by (auto simp: fold_outcome_append)
qed (use assms in simp)

text \<open>
  With blocks arriving exactly \<open>time_expected\<close> apart the difficulty never changes, however many
  blocks there are and however many adjustments they trigger.
\<close>

theorem perfect_timing_keeps_difficulty:
  assumes "schedulable C t0 n" and "blockgen_difficulty_init C = Fin d" and "round_double d = Fin d"
    and "blockgen_difficulty_adjust_factor_limit C = Fin L" and "1 \<le> L"
  shows "\<exists>a. fold_outcome (\<lambda>a ts. adjust C ts a) (adjuster_init C)
      (map (on_schedule C t0) [0..<n]) = Ok a \<and> m_difficulty a = Fin d"
  using schedule_run [OF assms(1) order_refl _ assms(4,5,3), of "adjuster_init C"] assms(2)
  by (auto simp: schedule_inv_def adjuster_init_def)

theorem perfect_timing_keeps_difficulty_witness:
  "\<exists>a. fold_outcome (\<lambda>a ts. adjust from_defaults ts a) (adjuster_init from_defaults)
      (map (on_schedule from_defaults 0) [0..<1000]) = Ok a \<and> m_difficulty a = Fin 2"
proof (rule perfect_timing_keeps_difficulty [where d = 2 and L = 16])
  show "round_double 2 = Fin 2"
    using round_rat_int [of 2] by (simp add: round_double_def)
qed (simp_all add: schedulable_def in_i64_def)

end
