(* ===== verification/Block.thy ===== *)
theory Block
  imports Transaction Difficulty
begin

text \<open>
  The class template \<open>Block\<close> of \<open>include/blockchain.h\<close>, its template parameter (the data a block
  carries) as a record of operations, and the two instances the program uses: \<open>Text\<close> of
  \<open>include/text.h\<close> and \<open>TransactionList\<close>. Each call of \<open>clock::now()\<close> is an argument.
\<close>

section \<open>Model: block data\<close>

record ('d, 'j) data_ops =
  d_valid :: "'j env \<Rightarrow> 'd \<Rightarrow> u64 \<Rightarrow> bool \<times> string"
  d_to_json :: "'j json_api \<Rightarrow> 'd \<Rightarrow> 'j"
  d_from_json :: "'j json_api \<Rightarrow> 'j \<Rightarrow> 'd outcome"

type_synonym text_data = string

definition text_valid :: "'j env \<Rightarrow> text_data \<Rightarrow> u64 \<Rightarrow> bool \<times> string" where
  "text_valid E txt index = (True, [])"

definition text_to_json :: "'j json_api \<Rightarrow> text_data \<Rightarrow> 'j" where
  "text_to_json J txt = json_of_string J txt"

definition text_from_json :: "'j json_api \<Rightarrow> 'j \<Rightarrow> text_data outcome" where
  "text_from_json J j = json_get_string J j"

definition text_ops :: "(text_data, 'j) data_ops" where
  "text_ops = \<lparr>d_valid = text_valid, d_to_json = text_to_json, d_from_json = text_from_json\<rparr>"

definition transaction_list_ops :: "(transaction_list, 'j) data_ops" where
  "transaction_list_ops = \<lparr>d_valid = transaction_list_valid, d_to_json = transaction_list_to_json,
     d_from_json = transaction_list_from_json\<rparr>"

section \<open>Model: blocks\<close>

record 'd block =
  b_data :: 'd
  b_timestamp :: time_point
  b_nonce :: u64
  b_index :: u64
  b_hash_prev :: "digest option"
  b_hash :: digest

definition block_hash_input :: "('d, 'j) data_ops \<Rightarrow> 'j json_api \<Rightarrow> 'd block \<Rightarrow> string" where
  "block_hash_input D J b =
     json_dump J (d_to_json D J (b_data b)) @
     dec_word (to_time_since_epoch (b_timestamp b)) @
     dec_word (b_nonce b) @
     dec_word (b_index b) @
     (case b_hash_prev b of None \<Rightarrow> [] | Some h \<Rightarrow> digest_to_string h)"

definition block_determine_hash :: "('d, 'j) data_ops \<Rightarrow> 'j env \<Rightarrow> 'd block \<Rightarrow> digest" where
  "block_determine_hash D E b = sha256 E (block_hash_input D (api E) b)"

definition block_first :: "('d, 'j) data_ops \<Rightarrow> 'j env \<Rightarrow> time_point \<Rightarrow> 'd \<Rightarrow> 'd block" where
  "block_first D E now data =
     (let b = \<lparr>b_data = data, b_timestamp = now, b_nonce = 0, b_index = 0,
               b_hash_prev = None, b_hash = []\<rparr>
      in b\<lparr>b_hash := block_determine_hash D E b\<rparr>)"

definition block_after ::
    "('d, 'j) data_ops \<Rightarrow> 'j env \<Rightarrow> time_point \<Rightarrow> 'd \<Rightarrow> 'd block \<Rightarrow> 'd block" where
  "block_after D E now data prev =
     (let b = \<lparr>b_data = data, b_timestamp = now, b_nonce = 0, b_index = b_index prev + 1,
               b_hash_prev = Some (b_hash prev), b_hash = []\<rparr>
      in b\<lparr>b_hash := block_determine_hash D E b\<rparr>)"

definition block_valid ::
    "('d, 'j) data_ops \<Rightarrow> 'j env \<Rightarrow> time_point \<Rightarrow> 'd block \<Rightarrow> (bool \<times> string) outcome" where
  "block_valid D E now b =
     (case d_valid D E (b_data b) (b_index b) of
        (False, data_error) \<Rightarrow> Ok (False, ''invalid data: '' @ data_error)
      | (True, _) \<Rightarrow>
          bind_outcome (time_sub (b_timestamp b) (blockgen_time_max_delta (cfg E))) (\<lambda>earliest.
            if \<not> time_less earliest now then Ok (False, ''invalid timestamp'')
            else if b_hash b \<noteq> block_determine_hash D E b then Ok (False, ''invalid hash'')
            else Ok (True, [])))"

definition is_genesis :: "'d block \<Rightarrow> bool" where
  "is_genesis b \<longleftrightarrow> b_index b = 0 \<and> b_hash_prev b = None"

definition is_successor_of :: "'j env \<Rightarrow> 'd block \<Rightarrow> 'd block \<Rightarrow> bool outcome" where
  "is_successor_of E b prev =
     bind_outcome (time_sub (b_timestamp prev) (blockgen_time_max_delta (cfg E))) (\<lambda>earliest.
       Ok (time_less earliest (b_timestamp b) \<and> b_index b = b_index prev + 1 \<and>
           b_hash_prev b = Some (b_hash prev)))"

definition max_difficulty :: "'d block \<Rightarrow> double" where
  "max_difficulty b = round_double (2 ^ zero_prefix_length (b_hash b))"

text \<open>
  The proof-of-work loop. It may run forever, then there is no result; \<open>k\<close> counts the iterations
  and selects the clock reading.
\<close>

partial_function (option) mine ::
    "('d, 'j) data_ops \<Rightarrow> 'j env \<Rightarrow> (nat \<Rightarrow> time_point) \<Rightarrow> nat \<Rightarrow> nat \<Rightarrow> 'd block \<Rightarrow>
     'd block option" where
  "mine D E clk difficulty_log2 k b =
     (let b' = b\<lparr>b_timestamp := clk k\<rparr>;
          maybe_hash = block_determine_hash D E b'
      in if difficulty_log2 \<le> zero_prefix_length maybe_hash
         then Some (b'\<lparr>b_hash := maybe_hash\<rparr>)
         else mine D E clk difficulty_log2 (Suc k) (b'\<lparr>b_nonce := b_nonce b' + 1\<rparr>))"

text \<open>\<open>Block::adjust_difficulty\<close>; the conversion of the logarithm may be undefined.\<close>

definition adjust_difficulty ::
    "('d, 'j) data_ops \<Rightarrow> 'j env \<Rightarrow> (nat \<Rightarrow> time_point) \<Rightarrow> double \<Rightarrow> 'd block \<Rightarrow>
     'd block outcome option" where
  "adjust_difficulty D E clk difficulty b =
     (case double_to_size (c_log2 E difficulty) of
        Ok difficulty_log2 \<Rightarrow> map_option Ok (mine D E clk (unat difficulty_log2) 0 b)
      | Throw e \<Rightarrow> Some (Throw e)
      | Undef \<Rightarrow> Some Undef)"

definition block_to_json :: "('d, 'j) data_ops \<Rightarrow> 'j json_api \<Rightarrow> 'd block \<Rightarrow> 'j" where
  "block_to_json D J b = json_object J
     ([(''data'', d_to_json D J (b_data b)),
       (''timestamp'', json_of_u64 J (to_time_since_epoch (b_timestamp b))),
       (''nonce'', json_of_u64 J (b_nonce b)),
       (''index'', json_of_u64 J (b_index b)),
       (''hash'', json_of_string J (digest_to_string (b_hash b)))] @
      (case b_hash_prev b of
         None \<Rightarrow> []
       | Some h \<Rightarrow> [(''hash_prev'', json_of_string J (digest_to_string h))]))"

definition json_at_digest :: "'j json_api \<Rightarrow> 'j \<Rightarrow> string \<Rightarrow> digest outcome" where
  "json_at_digest J j key =
     bind_outcome (json_at J j key) (\<lambda>v. bind_outcome (json_get_string J v) digest_from_string)"

definition block_from_json :: "('d, 'j) data_ops \<Rightarrow> 'j json_api \<Rightarrow> 'j \<Rightarrow> 'd block outcome" where
  "block_from_json D J j =
     bind_outcome (bind_outcome (json_at J j ''data'') (d_from_json D J)) (\<lambda>data.
     bind_outcome (bind_outcome (json_at J j ''timestamp'') (json_get_u64 J)) (\<lambda>timestamp.
     bind_outcome (bind_outcome (json_at J j ''nonce'') (json_get_u64 J)) (\<lambda>nonce.
     bind_outcome (bind_outcome (json_at J j ''index'') (json_get_u64 J)) (\<lambda>index.
     bind_outcome (json_at_digest J j ''hash'') (\<lambda>hash.
     bind_outcome (if json_contains J j ''hash_prev''
                   then map_outcome_val Some (json_at_digest J j ''hash_prev'')
                   else Ok None) (\<lambda>hash_prev.
       Ok \<lparr>b_data = data, b_timestamp = from_time_since_epoch timestamp, b_nonce = nonce,
           b_index = index, b_hash_prev = hash_prev, b_hash = hash\<rparr>))))))"

section \<open>The contract of block data\<close>

text \<open>
  What \<open>Block\<close> relies on: data read back from its JSON form is the data up to what is not
  transmitted (\<open>strip\<close>), and that part does not influence the JSON form, hence not the hash.
\<close>

definition strip_block :: "('d \<Rightarrow> 'd) \<Rightarrow> 'd block \<Rightarrow> 'd block" where
  "strip_block strip b = b\<lparr>b_data := strip (b_data b)\<rparr>"

locale block_data = json_library J for J :: "'j json_api" +
  fixes D :: "('d, 'j) data_ops" and strip :: "'d \<Rightarrow> 'd"
  assumes data_roundtrip: "d_from_json D J (d_to_json D J x) = Ok (strip x)"
    and strip_to_json: "d_to_json D J (strip x) = d_to_json D J x"
begin

lemma block_roundtrip: "block_from_json D J (block_to_json D J b) = Ok (strip_block strip b)"
proof (cases "b_hash_prev b")
  case None
  then show ?thesis
    by (simp add: block_from_json_def block_to_json_def at_object_lookup contains_object
        data_roundtrip scalar_laws json_at_digest_def from_to_string strip_block_def)
next
  case (Some h)
  then show ?thesis
    by (simp add: block_from_json_def block_to_json_def at_object_lookup contains_object
        data_roundtrip scalar_laws json_at_digest_def from_to_string strip_block_def)
qed

lemma strip_block_hash: "block_hash_input D J (strip_block strip b) = block_hash_input D J b"
  by (simp add: block_hash_input_def strip_block_def strip_to_json)

end


lemma strip_transaction_to_json [simp]:
  "transaction_to_json J (update_unspent_outputs us t) = transaction_to_json J t"
  by (simp add: transaction_to_json_def update_unspent_outputs_def)

lemma strip_transactions_to_json [simp]:
  "transaction_list_to_json J (map (update_unspent_outputs us) ts) = transaction_list_to_json J ts"
  by (simp add: transaction_list_to_json_def comp_def)

sublocale json_library \<subseteq> text_block: block_data J text_ops "\<lambda>x. x"
  by unfold_locales (simp_all add: text_ops_def text_to_json_def text_from_json_def get_string)

sublocale json_library \<subseteq> transactions_block: block_data J transaction_list_ops
    "map (update_unspent_outputs [])"
  by unfold_locales
    (simp_all add: transaction_list_ops_def transaction_list_roundtrip)

context json_library
begin

lemma text_block_roundtrip: "block_from_json text_ops J (block_to_json text_ops J b) = Ok b"
  using text_block.block_roundtrip by (simp add: strip_block_def)

lemmas transactions_block_roundtrip = transactions_block.block_roundtrip
  and transactions_block_hash = transactions_block.strip_block_hash

end

section \<open>Proof of work\<close>

text \<open>The block in the \<open>j\<close>-th iteration from \<open>k\<close> on, and whether that iteration succeeds.\<close>

definition attempt :: "(nat \<Rightarrow> time_point) \<Rightarrow> nat \<Rightarrow> 'd block \<Rightarrow> nat \<Rightarrow> 'd block" where
  "attempt clk k b j = b\<lparr>b_timestamp := clk (k + j), b_nonce := b_nonce b + word_of_nat j\<rparr>"

definition hits ::
    "('d, 'j) data_ops \<Rightarrow> 'j env \<Rightarrow> (nat \<Rightarrow> time_point) \<Rightarrow> nat \<Rightarrow> nat \<Rightarrow> 'd block \<Rightarrow> nat \<Rightarrow> bool" where
  "hits D E clk need k b j \<longleftrightarrow>
     need \<le> zero_prefix_length (block_determine_hash D E (attempt clk k b j))"

definition mined ::
    "('d, 'j) data_ops \<Rightarrow> 'j env \<Rightarrow> (nat \<Rightarrow> time_point) \<Rightarrow> nat \<Rightarrow> 'd block \<Rightarrow> nat \<Rightarrow> 'd block" where
  "mined D E clk k b j =
     (attempt clk k b j)\<lparr>b_hash := block_determine_hash D E (attempt clk k b j)\<rparr>"

text \<open>The hash does not depend on the hash field, so storing it does not change it.\<close>

lemma block_determine_hash_update [simp]:
  "block_determine_hash D E (b\<lparr>b_hash := h\<rparr>) = block_determine_hash D E b"
  by (simp add: block_determine_hash_def block_hash_input_def)

definition retry :: "(nat \<Rightarrow> time_point) \<Rightarrow> nat \<Rightarrow> 'd block \<Rightarrow> 'd block" where
  "retry clk k b = b\<lparr>b_timestamp := clk k, b_nonce := b_nonce b + 1\<rparr>"

lemma attempt_Suc: "attempt clk k b (Suc j) = attempt clk (Suc k) (retry clk k b) j"
  by (simp add: attempt_def retry_def algebra_simps)

lemma mine_unfold:
  "mine D E clk need k b =
     (if hits D E clk need k b 0 then Some (mined D E clk k b 0)
      else mine D E clk need (Suc k) (retry clk k b))"
  by (subst mine.simps) (simp add: hits_def attempt_def mined_def retry_def Let_def)

lemma mine_Some:
  assumes "hits D E clk need k b n" and "\<And>j. j < n \<Longrightarrow> \<not> hits D E clk need k b j"
  shows "mine D E clk need k b = Some (mined D E clk k b n)"
  using assms
proof (induction n arbitrary: k b)
  case 0
  then show ?case by (subst mine_unfold) simp
next
  case (Suc n)
  have "mine D E clk need (Suc k) (retry clk k b) = Some (mined D E clk (Suc k) (retry clk k b) n)"
    using Suc.prems(1) Suc.prems(2) [of "Suc j" for j]
    by (intro Suc.IH) (simp_all add: hits_def attempt_Suc)
  with Suc.prems(2) [of 0] show ?case
    by (subst mine_unfold) (simp add: mined_def attempt_Suc)
qed

lemma mine_SomeD:
  assumes "mine D E clk need k b = Some r"
  shows "\<exists>n. hits D E clk need k b n \<and> r = mined D E clk k b n"
proof (rule mine.raw_induct [OF _ assms, where P = "\<lambda>D E clk need k b r.
    \<exists>n. hits D E clk need k b n \<and> r = mined D E clk k b n"])
  fix f D E clk need k and b r :: "'a block"
  assume IH: "\<And>D E clk need k b r. f D E clk need k b = Some r \<Longrightarrow>
      \<exists>n. hits D E clk need k b n \<and> r = mined D E clk k b n"
    and eq: "(let b' = b\<lparr>b_timestamp := clk k\<rparr>; maybe_hash = block_determine_hash D E b'
      in if need \<le> zero_prefix_length maybe_hash then Some (b'\<lparr>b_hash := maybe_hash\<rparr>)
         else f D E clk need (Suc k) (b'\<lparr>b_nonce := b_nonce b' + 1\<rparr>)) = Some r"
  show "\<exists>n. hits D E clk need k b n \<and> r = mined D E clk k b n"
  proof (cases "hits D E clk need k b 0")
    case True
    with eq have "r = mined D E clk k b 0"
      by (simp add: hits_def attempt_def mined_def Let_def)
    with True show ?thesis by blast
  next
    case False
    with eq have "f D E clk need (Suc k) (retry clk k b) = Some r"
      by (simp add: hits_def attempt_def retry_def Let_def)
    from IH [OF this] show ?thesis
      by (auto simp: hits_def mined_def attempt_Suc [symmetric])
  qed
qed

lemma hits_mined: "hits D E clk need k b n \<longleftrightarrow> need \<le> zero_prefix_length (b_hash (mined D E clk k b n))"
  by (simp add: hits_def mined_def)

lemma mined_fields [simp]:
  "b_data (mined D E clk k b j) = b_data b" "b_index (mined D E clk k b j) = b_index b"
  "b_hash_prev (mined D E clk k b j) = b_hash_prev b"
  "block_determine_hash D E (mined D E clk k b j) = b_hash (mined D E clk k b j)"
  by (simp_all add: mined_def attempt_def)


section \<open>Properties\<close>

text \<open>
  C26. The proof-of-work loop returns exactly when some iteration finds a hash with enough leading
  zero bits, and then returns the first such block: its hash is the hash of its contents, it
  meets the requirement, and data, index and previous hash are untouched.
\<close>

theorem mine_finds_first:
  "mine D E clk need k b =
     (if \<exists>n. hits D E clk need k b n
      then Some (mined D E clk k b (LEAST n. hits D E clk need k b n)) else None) \<and>
   (\<forall>n. hits D E clk need k b n \<longleftrightarrow> need \<le> zero_prefix_length (b_hash (mined D E clk k b n))) \<and>
   (\<forall>n. b_hash (mined D E clk k b n) = block_determine_hash D E (mined D E clk k b n) \<and>
     b_data (mined D E clk k b n) = b_data b \<and> b_index (mined D E clk k b n) = b_index b \<and>
     b_hash_prev (mined D E clk k b n) = b_hash_prev b)"
proof -
  have "mine D E clk need k b = Some (mined D E clk k b (LEAST n. hits D E clk need k b n))"
    if "hits D E clk need k b n" for n
    using LeastI [of "hits D E clk need k b", OF that] not_less_Least by (intro mine_Some) blast+
  moreover have "mine D E clk need k b = None" if "\<nexists>n. hits D E clk need k b n"
    using that mine_SomeD by (cases "mine D E clk need k b") blast+
  ultimately have "mine D E clk need k b = (if \<exists>n. hits D E clk need k b n
      then Some (mined D E clk k b (LEAST n. hits D E clk need k b n)) else None)"
    by auto
  then show ?thesis by (auto simp: hits_mined)
qed

text \<open>
  A block read back from its JSON form is the block that was written, for text data
  completely and for transaction lists up to the linked unspent outputs; its hash check gives the
  same answer because that part does not enter the hash.
\<close>

theorem block_json_roundtrip:
  assumes "json_library J"
  shows "block_from_json text_ops J (block_to_json text_ops J b) = Ok b \<and>
    block_from_json transaction_list_ops J (block_to_json transaction_list_ops J c) =
      Ok (strip_block (map (update_unspent_outputs [])) c) \<and>
    block_hash_input transaction_list_ops J (strip_block (map (update_unspent_outputs [])) c) =
      block_hash_input transaction_list_ops J c"
  using json_library.text_block_roundtrip [OF assms, of b]
    json_library.transactions_block_roundtrip [OF assms, of c]
    json_library.transactions_block_hash [OF assms, of c]
  by blast

definition example_block :: "text_data block" where
  "example_block = block_first text_ops (example_env False) 1000 ''hello''"

definition example_transactions_block :: "transaction_list block" where
  "example_transactions_block = block_first transaction_list_ops (example_env False) 1000
     [reward (example_env False) ''alice'' 0]"

theorem block_json_roundtrip_witness:
  "block_from_json text_ops jval_api (block_to_json text_ops jval_api example_block) =
     Ok example_block \<and>
   block_from_json transaction_list_ops jval_api
     (block_to_json transaction_list_ops jval_api example_transactions_block) =
     Ok (strip_block (map (update_unspent_outputs [])) example_transactions_block)"
  using block_json_roundtrip [OF jval.json_library_axioms, of example_block
      example_transactions_block] by blast

text \<open>
  The text a block hash is computed from does not determine the block: timestamp, nonce and
  index are written as decimal numbers without separators, so shifting digits between them gives
  a different block with the same hash for every hash function and every data.
\<close>

theorem block_hash_ambiguous:
  "block_determine_hash D E \<lparr>b_data = x, b_timestamp = 1000, b_nonce = 1, b_index = 11,
      b_hash_prev = p, b_hash = h\<rparr> =
   block_determine_hash D E \<lparr>b_data = x, b_timestamp = 1000, b_nonce = 11, b_index = 1,
      b_hash_prev = p, b_hash = h\<rparr>"
proof -
  have "dec 11 = ''11''" "dec (Suc 0) = ''1''" by code_simp+
  then show ?thesis by (simp add: block_determine_hash_def block_hash_input_def)
qed

end
