(* ===== verification/Blockchain.thy ===== *)
theory Blockchain
  imports Block
begin

text \<open>
  The class template \<open>Blockchain\<close> of \<open>include/blockchain.h\<close>: the vector of blocks and, with proof
  of work, the difficulty adjuster; validation, mining of the next block, appending a received
  block, comparison of chains and serialisation. The mutex makes each operation one step.
\<close>

section \<open>Model\<close>

record 'd blockchain =
  m_blocks :: "'d block list"
  m_difficulty_adjuster :: difficulty_adjuster

definition blockchain_init :: "config \<Rightarrow> 'd blockchain" where
  "blockchain_init C = \<lparr>m_blocks = [], m_difficulty_adjuster = adjuster_init C\<rparr>"

text \<open>\<open>operator>\<close> from \<open>operator<=>\<close>; \<open>cumulative_difficulty()\<close> converts to \<open>std::size_t\<close>.\<close>

definition cumulative_difficulty :: "'d blockchain \<Rightarrow> u64 outcome" where
  "cumulative_difficulty c = double_to_size (m_cumulative_difficulty (m_difficulty_adjuster c))"

definition chain_greater :: "'j env \<Rightarrow> 'd blockchain \<Rightarrow> 'd blockchain \<Rightarrow> bool outcome" where
  "chain_greater E c other =
     (if proof_of_work E
      then bind_outcome (cumulative_difficulty c) (\<lambda>x.
           bind_outcome (cumulative_difficulty other) (\<lambda>y. Ok (y < x)))
      else Ok (length (m_blocks other) < length (m_blocks c)))"

fun blocks_valid_from ::
    "('d, 'j) data_ops \<Rightarrow> 'j env \<Rightarrow> (nat \<Rightarrow> time_point) \<Rightarrow> nat \<Rightarrow> 'd block list \<Rightarrow>
     (bool \<times> string) outcome" where
  "blocks_valid_from D E clk i [] = Ok (True, [])"
| "blocks_valid_from D E clk i (b # bs) =
     bind_outcome (block_valid D E (clk i) b) (\<lambda>(valid, err).
       if valid then blocks_valid_from D E clk (Suc i) bs
       else Ok (False, ''block '' @ dec i @ '': '' @ err))"

fun successors_from ::
    "'j env \<Rightarrow> nat \<Rightarrow> 'd block \<Rightarrow> 'd block list \<Rightarrow> (bool \<times> string) outcome" where
  "successors_from E i prev [] = Ok (True, [])"
| "successors_from E i prev (b # bs) =
     bind_outcome (is_successor_of E b prev) (\<lambda>successor.
       if successor then successors_from E (Suc i) b bs
       else Ok (False, ''block '' @ dec i @ '': not a valid successor''))"

text \<open>\<open>clk i\<close> is the clock reading when block \<open>i\<close> is checked.\<close>

definition chain_valid ::
    "('d, 'j) data_ops \<Rightarrow> 'j env \<Rightarrow> (nat \<Rightarrow> time_point) \<Rightarrow> 'd blockchain \<Rightarrow>
     (bool \<times> string) outcome" where
  "chain_valid D E clk c =
     (case m_blocks c of
        [] \<Rightarrow> Ok (False, ''empty blockchain'')
      | b # bs \<Rightarrow>
          bind_outcome (blocks_valid_from D E clk 0 (b # bs)) (\<lambda>(valid, err).
            if \<not> valid then Ok (False, err)
            else if \<not> is_genesis b then Ok (False, ''invalid genesis block'')
            else successors_from E 1 b bs))"

text \<open>The assertion of \<open>latest_block\<close> fails on an empty chain, and \<open>back()\<close> is undefined there.\<close>

definition latest_block :: "'d blockchain \<Rightarrow> 'd block outcome" where
  "latest_block c = (if m_blocks c = [] then Undef else Ok (last (m_blocks c)))"

definition valid_genesis_block ::
    "('d, 'j) data_ops \<Rightarrow> 'j env \<Rightarrow> time_point \<Rightarrow> 'd block \<Rightarrow> (bool \<times> string) outcome" where
  "valid_genesis_block D E now b =
     (if b_index b \<noteq> 0 then Ok (False, ''invalid index'')
      else if b_hash_prev b \<noteq> None then Ok (False, ''last hash not empty'')
      else bind_outcome (block_valid D E now b) (\<lambda>(valid, err).
        if \<not> valid then Ok (False, err) else Ok (True, [])))"

definition valid_next_block ::
    "('d, 'j) data_ops \<Rightarrow> 'j env \<Rightarrow> time_point \<Rightarrow> 'd block \<Rightarrow> 'd block \<Rightarrow>
     (bool \<times> string) outcome" where
  "valid_next_block D E now b prev =
     (if b_index b \<noteq> b_index prev + 1 then Ok (False, ''invalid index'')
      else if b_hash_prev b \<noteq> Some (b_hash prev) then Ok (False, ''mismatched hashes'')
      else bind_outcome (block_valid D E now b) (\<lambda>(valid, err).
        if \<not> valid then Ok (False, err) else Ok (True, [])))"

text \<open>
  Mining. \<open>clk 0\<close> is read by the constructor of the block, \<open>clk 1\<close> by \<open>valid()\<close> and the rest by the
  proof-of-work loop; no result means that the loop never ends.
\<close>

definition construct_next_block ::
    "('d, 'j) data_ops \<Rightarrow> 'j env \<Rightarrow> (nat \<Rightarrow> time_point) \<Rightarrow> 'd \<Rightarrow> 'd blockchain \<Rightarrow>
     (unit, 'd blockchain) call option" where
  "construct_next_block D E clk data c =
     (let b = (if m_blocks c = [] then block_first D E (clk 0) data
               else block_after D E (clk 0) data (last (m_blocks c)))
      in case block_valid D E (clk 1) b of
           Throw e \<Rightarrow> Some (Throw e, c)
         | Undef \<Rightarrow> Some (Undef, c)
         | Ok (False, err) \<Rightarrow>
             Some (Throw (Exn Logic_error (''attempted appending invalid data: '' @ err)), c)
         | Ok (True, _) \<Rightarrow>
             if \<not> proof_of_work E then Some (Ok (), c\<lparr>m_blocks := m_blocks c @ [b]\<rparr>)
             else (case adjust (cfg E) (b_timestamp b) (m_difficulty_adjuster c) of
                     Throw e \<Rightarrow> Some (Throw e, c)
                   | Undef \<Rightarrow> Some (Undef, c)
                   | Ok a \<Rightarrow>
                       let c' = c\<lparr>m_difficulty_adjuster := a\<rparr>
                       in (case adjust_difficulty D E (\<lambda>k. clk (2 + k)) (m_difficulty a) b of
                             None \<Rightarrow> None
                           | Some (Throw e) \<Rightarrow> Some (Throw e, c')
                           | Some Undef \<Rightarrow> Some (Undef, c')
                           | Some (Ok b') \<Rightarrow> Some (Ok (), c'\<lparr>m_blocks := m_blocks c' @ [b']\<rparr>))))"

definition append_check ::
    "('d, 'j) data_ops \<Rightarrow> 'j env \<Rightarrow> time_point \<Rightarrow> 'd block \<Rightarrow> 'd blockchain \<Rightarrow> unit outcome" where
  "append_check D E now b c =
     (if m_blocks c = []
      then bind_outcome (valid_genesis_block D E now b) (\<lambda>(valid, err).
        if \<not> valid
        then Throw (Exn Logic_error (''attempted appending invalid genesis block: '' @ err))
        else Ok ())
      else bind_outcome (valid_next_block D E now b (last (m_blocks c))) (\<lambda>(valid, err).
        if \<not> valid
        then Throw (Exn Logic_error (''attempted appending invalid next block: '' @ err))
        else Ok ()))"

text \<open>The adjuster has been updated when a block fails the difficulty check.\<close>

definition append_next_block ::
    "('d, 'j) data_ops \<Rightarrow> 'j env \<Rightarrow> time_point \<Rightarrow> 'd block \<Rightarrow> 'd blockchain \<Rightarrow>
     (unit, 'd blockchain) call" where
  "append_next_block D E now b c =
     (case append_check D E now b c of
        Throw e \<Rightarrow> (Throw e, c)
      | Undef \<Rightarrow> (Undef, c)
      | Ok _ \<Rightarrow>
          if \<not> proof_of_work E then (Ok (), c\<lparr>m_blocks := m_blocks c @ [b]\<rparr>)
          else (case adjust (cfg E) (b_timestamp b) (m_difficulty_adjuster c) of
                  Throw e \<Rightarrow> (Throw e, c)
                | Undef \<Rightarrow> (Undef, c)
                | Ok a \<Rightarrow>
                    let c' = c\<lparr>m_difficulty_adjuster := a\<rparr>
                    in if d_less (max_difficulty b) (m_difficulty a)
                       then (Throw (Exn Logic_error
                               ''attempted appending a block with invalid difficulty''), c')
                       else (Ok (), c'\<lparr>m_blocks := m_blocks c' @ [b]\<rparr>)))"

definition chain_to_json :: "('d, 'j) data_ops \<Rightarrow> 'j json_api \<Rightarrow> 'd blockchain \<Rightarrow> 'j" where
  "chain_to_json D J c = json_array J (map (block_to_json D J) (m_blocks c))"

fun append_json_blocks ::
    "('d, 'j) data_ops \<Rightarrow> 'j env \<Rightarrow> (nat \<Rightarrow> time_point) \<Rightarrow> nat \<Rightarrow> 'j list \<Rightarrow> 'd blockchain \<Rightarrow>
     'd blockchain outcome" where
  "append_json_blocks D E clk i [] c = Ok c"
| "append_json_blocks D E clk i (j # js) c =
     bind_outcome (block_from_json D (api E) j) (\<lambda>b.
       case append_next_block D E (clk i) b c of
         (Ok _, c') \<Rightarrow> append_json_blocks D E clk (Suc i) js c'
       | (Throw e, _) \<Rightarrow> Throw e
       | (Undef, _) \<Rightarrow> Undef)"

definition chain_from_json ::
    "('d, 'j) data_ops \<Rightarrow> 'j env \<Rightarrow> (nat \<Rightarrow> time_point) \<Rightarrow> 'j \<Rightarrow> 'd blockchain outcome" where
  "chain_from_json D E clk j =
     append_json_blocks D E clk 0 (json_elems (api E) j) (blockchain_init (cfg E))"

section \<open>Well-formed chains\<close>

text \<open>What makes a list of blocks a chain, apart from time and difficulty.\<close>

definition linked :: "('d, 'j) data_ops \<Rightarrow> 'j env \<Rightarrow> 'd block option \<Rightarrow> 'd block \<Rightarrow> bool" where
  "linked D E prev b \<longleftrightarrow>
     b_index b = (case prev of None \<Rightarrow> 0 | Some p \<Rightarrow> b_index p + 1) \<and>
     b_hash_prev b = map_option b_hash prev \<and>
     b_hash b = block_determine_hash D E b \<and>
     fst (d_valid D E (b_data b) (b_index b))"

fun linked_from :: "('d, 'j) data_ops \<Rightarrow> 'j env \<Rightarrow> 'd block option \<Rightarrow> 'd block list \<Rightarrow> bool" where
  "linked_from D E prev [] \<longleftrightarrow> True"
| "linked_from D E prev (b # bs) \<longleftrightarrow> linked D E prev b \<and> linked_from D E (Some b) bs"

definition well_formed :: "('d, 'j) data_ops \<Rightarrow> 'j env \<Rightarrow> 'd blockchain \<Rightarrow> bool" where
  "well_formed D E c \<longleftrightarrow> linked_from D E None (m_blocks c)"

definition last_block :: "'d block list \<Rightarrow> 'd block option" where
  "last_block bs = (if bs = [] then None else Some (last bs))"

lemma linked_from_snoc:
  "linked_from D E p (bs @ [b]) \<longleftrightarrow> linked_from D E p bs \<and>
     linked D E (if bs = [] then p else Some (last bs)) b"
  by (induction bs arbitrary: p) auto

lemma linked_from_nth:
  "linked_from D E p bs \<longleftrightarrow>
     (\<forall>i < length bs. linked D E (if i = 0 then p else Some (bs ! (i - 1))) (bs ! i))"
proof (induction bs arbitrary: p)
  case (Cons b bs)
  show ?case
    by (auto simp: Cons.IH All_less_Suc2 nth_Cons' split: if_splits)
qed simp

lemma linked_from_data:
  "linked_from D E p bs \<Longrightarrow> b \<in> set bs \<Longrightarrow> fst (d_valid D E (b_data b) (b_index b))"
  by (induction bs arbitrary: p) (auto simp: linked_def)

lemma linked_from_index:
  assumes "linked_from D E None bs" "i < length bs"
  shows "b_index (bs ! i) = word_of_nat i"
  using assms(2)
proof (induction i)
  case 0
  with assms(1) show ?case by (auto simp: linked_from_nth linked_def)
next
  case (Suc i)
  with assms(1) have "b_index (bs ! Suc i) = b_index (bs ! i) + 1"
    by (auto simp: linked_from_nth linked_def dest!: spec [of _ "Suc i"])
  with Suc show ?case by simp
qed

text \<open>A timestamp is not more than the admissible difference ahead of a reference.\<close>

definition not_ahead :: "'j env \<Rightarrow> time_point \<Rightarrow> time_point \<Rightarrow> bool" where
  "not_ahead E ts ref \<longleftrightarrow>
     (\<exists>earliest. time_sub ts (blockgen_time_max_delta (cfg E)) = Ok earliest \<and>
        time_less earliest ref)"

lemma not_ahead_iff:
  "not_ahead E ts ref \<longleftrightarrow>
     in_i64 (sint ts - sint (blockgen_time_max_delta (cfg E))) \<and>
     sint ts - sint (blockgen_time_max_delta (cfg E)) < sint ref"
proof (cases "time_sub ts (blockgen_time_max_delta (cfg E))")
  case (Ok e)
  then have "in_i64 (sint ts - sint (blockgen_time_max_delta (cfg E)))"
    by (simp add: time_sub_def split: if_splits)
  with Ok sint_time_sub [OF Ok] show ?thesis by (simp add: not_ahead_def time_less_def)
qed (simp_all add: not_ahead_def time_sub_def split: if_splits)

lemma not_ahead_mono: "not_ahead E ts ref \<Longrightarrow> sint ref \<le> sint ref' \<Longrightarrow> not_ahead E ts ref'"
  by (auto simp: not_ahead_iff)

lemma block_valid_iff:
  "block_valid D E now b = Ok (True, err) \<longleftrightarrow>
     fst (d_valid D E (b_data b) (b_index b)) \<and> not_ahead E (b_timestamp b) now \<and>
     b_hash b = block_determine_hash D E b \<and> err = []"
  by (auto simp: block_valid_def not_ahead_def outcome_simps split: prod.split bool.split)

lemma append_check_iff:
  "append_check D E now b c = Ok u \<longleftrightarrow>
     linked D E (last_block (m_blocks c)) b \<and> not_ahead E (b_timestamp b) now"
  by (auto simp: append_check_def valid_genesis_block_def valid_next_block_def last_block_def
      linked_def outcome_simps block_valid_iff)

lemma append_next_block_blocks:
  "append_next_block D E now b c = (r, c') \<Longrightarrow>
     m_blocks c' = (if r = Ok () then m_blocks c @ [b] else m_blocks c)"
  by (auto simp: append_next_block_def Let_def split: outcome.splits if_splits)

lemma append_next_block_linked:
  "append_next_block D E now b c = (Ok u, c') \<Longrightarrow>
     linked D E (last_block (m_blocks c)) b \<and> not_ahead E (b_timestamp b) now"
  by (auto simp: append_next_block_def append_check_iff split: outcome.splits)

lemma well_formed_append:
  assumes "well_formed D E c" "append_next_block D E now b c = (r, c')"
  shows "well_formed D E c'"
proof (cases "r = Ok ()")
  case True
  with assms append_next_block_linked [of D E now b c "()" c'] append_next_block_blocks [OF assms(2)]
  show ?thesis by (simp add: well_formed_def linked_from_snoc last_block_def)
next
  case False
  with assms(1) append_next_block_blocks [OF assms(2)] show ?thesis
    by (simp add: well_formed_def)
qed

text \<open>Mining: the new block is linked to the chain whatever the clock shows.\<close>

definition next_block ::
    "('d, 'j) data_ops \<Rightarrow> 'j env \<Rightarrow> time_point \<Rightarrow> 'd \<Rightarrow> 'd blockchain \<Rightarrow> 'd block" where
  "next_block D E now data c =
     (if m_blocks c = [] then block_first D E now data
      else block_after D E now data (last (m_blocks c)))"

lemma next_block_fields [simp]:
  "b_data (next_block D E now data c) = data"
  "b_timestamp (next_block D E now data c) = now"
  "b_nonce (next_block D E now data c) = 0"
  "b_index (next_block D E now data c) =
     (case last_block (m_blocks c) of None \<Rightarrow> 0 | Some p \<Rightarrow> b_index p + 1)"
  "b_hash_prev (next_block D E now data c) = map_option b_hash (last_block (m_blocks c))"
  by (simp_all add: next_block_def block_first_def block_after_def last_block_def Let_def)

lemma next_block_hash [simp]:
  "block_determine_hash D E (next_block D E now data c) = b_hash (next_block D E now data c)"
  by (simp add: next_block_def block_first_def block_after_def Let_def block_determine_hash_def
      block_hash_input_def)

text \<open>What a call of \<open>construct_next_block\<close> that returns normally has done.\<close>

lemma construct_next_block_Ok:
  assumes "construct_next_block D E clk data c = Some (Ok u, c')"
  obtains b where "m_blocks c' = m_blocks c @ [b]" "linked D E (last_block (m_blocks c)) b"
    "b_data b = data" "\<not> proof_of_work E \<longrightarrow> b = next_block D E (clk 0) data c \<and>
       m_difficulty_adjuster c' = m_difficulty_adjuster c"
    "proof_of_work E \<longrightarrow>
       adjust (cfg E) (clk 0) (m_difficulty_adjuster c) = Ok (m_difficulty_adjuster c') \<and>
       (\<exists>w n. double_to_size (c_log2 E (m_difficulty (m_difficulty_adjuster c'))) = Ok w \<and>
          mine D E (\<lambda>k. clk (2 + k)) (unat w) 0 (next_block D E (clk 0) data c) = Some b \<and>
          b = mined D E (\<lambda>k. clk (2 + k)) 0 (next_block D E (clk 0) data c) n)"
proof -
  let ?b = "next_block D E (clk 0) data c"
  note d = construct_next_block_def [of D E clk data c, folded next_block_def, unfolded Let_def]
  obtain err where valid: "block_valid D E (clk 1) ?b = Ok (True, err)"
    using assms by (auto simp: d split: outcome.splits bool.splits prod.splits)
  then have ok: "fst (d_valid D E data (b_index ?b))" by (simp add: block_valid_iff)
  show thesis
  proof (cases "proof_of_work E")
    case False
    with assms valid have "c' = c\<lparr>m_blocks := m_blocks c @ [?b]\<rparr>" by (simp add: d)
    with False ok show thesis by (intro that [of ?b]) (simp_all add: linked_def)
  next
    case True
    with assms valid obtain a b where a: "adjust (cfg E) (clk 0) (m_difficulty_adjuster c) = Ok a"
      and b: "adjust_difficulty D E (\<lambda>k. clk (2 + k)) (m_difficulty a) ?b = Some (Ok b)"
      and c': "c' = c\<lparr>m_difficulty_adjuster := a, m_blocks := m_blocks c @ [b]\<rparr>"
      by (auto simp: d split: outcome.splits option.splits)
    from b obtain w where w: "double_to_size (c_log2 E (m_difficulty a)) = Ok w"
      and m: "mine D E (\<lambda>k. clk (2 + k)) (unat w) 0 ?b = Some b"
      by (auto simp: adjust_difficulty_def split: outcome.splits)
    from mine_SomeD [OF m] obtain n where n: "b = mined D E (\<lambda>k. clk (2 + k)) 0 ?b n" by blast
    with ok have "linked D E (last_block (m_blocks c)) b" by (simp add: linked_def)
    with True a w m n c' show thesis by (intro that [of b]) auto
  qed
qed

lemma construct_next_block_other:
  "construct_next_block D E clk data c = Some (r, c') \<Longrightarrow> r \<noteq> Ok () \<Longrightarrow> m_blocks c' = m_blocks c"
  by (auto simp: construct_next_block_def Let_def
      split: outcome.splits option.splits bool.splits prod.splits if_splits)

lemma well_formed_construct:
  assumes "well_formed D E c" "construct_next_block D E clk data c = Some (r, c')"
  shows "well_formed D E c'"
proof (cases "r = Ok ()")
  case True
  with assms(2) obtain b where "m_blocks c' = m_blocks c @ [b]" "linked D E (last_block (m_blocks c)) b"
    by (auto elim: construct_next_block_Ok)
  with assms(1) show ?thesis by (simp add: well_formed_def linked_from_snoc last_block_def)
next
  case False
  with construct_next_block_other [OF assms(2)] assms(1) show ?thesis by (simp add: well_formed_def)
qed

text \<open>Every chain the operations of the class can produce, exceptions included.\<close>

inductive chain_reachable :: "('d, 'j) data_ops \<Rightarrow> 'j env \<Rightarrow> 'd blockchain \<Rightarrow> bool" for D E where
  start: "chain_reachable D E (blockchain_init (cfg E))"
| mined_block: "chain_reachable D E c \<Longrightarrow> construct_next_block D E clk data c = Some (r, c') \<Longrightarrow>
    r \<noteq> Undef \<Longrightarrow> chain_reachable D E c'"
| received_block: "chain_reachable D E c \<Longrightarrow> append_next_block D E now b c = (r, c') \<Longrightarrow>
    r \<noteq> Undef \<Longrightarrow> chain_reachable D E c'"

lemma chain_reachable_well_formed: "chain_reachable D E c \<Longrightarrow> well_formed D E c"
proof (induction rule: chain_reachable.induct)
  case start
  show ?case by (simp add: well_formed_def blockchain_init_def)
qed (blast intro: well_formed_construct well_formed_append)+

section \<open>Validation\<close>

lemma blocks_valid_from_iff:
  "blocks_valid_from D E clk n bs = Ok (True, err) \<longleftrightarrow> err = [] \<and>
     (\<forall>i < length bs. block_valid D E (clk (n + i)) (bs ! i) = Ok (True, []))"
proof (induction bs arbitrary: n)
  case (Cons b bs)
  show ?case
    by (auto simp: Cons.IH All_less_Suc2 outcome_simps block_valid_iff)
qed auto

lemma is_successor_of_iff:
  "is_successor_of E b prev = Ok True \<longleftrightarrow>
     not_ahead E (b_timestamp prev) (b_timestamp b) \<and> b_index b = b_index prev + 1 \<and>
     b_hash_prev b = Some (b_hash prev)"
  by (auto simp: is_successor_of_def not_ahead_def outcome_simps)

lemma successors_from_iff:
  "successors_from E n p bs = Ok (True, err) \<longleftrightarrow> err = [] \<and>
     (\<forall>i < length bs. is_successor_of E (bs ! i) ((p # bs) ! i) = Ok True)"
proof (induction bs arbitrary: n p)
  case (Cons b bs)
  show ?case by (auto simp: Cons.IH All_less_Suc2 outcome_simps)
qed auto

lemma chain_valid_parts:
  "chain_valid D E clk c = Ok (True, err) \<longleftrightarrow> err = [] \<and> m_blocks c \<noteq> [] \<and> is_genesis (hd (m_blocks c)) \<and>
     (\<forall>i < length (m_blocks c). block_valid D E (clk i) (m_blocks c ! i) = Ok (True, [])) \<and>
     (\<forall>i. Suc i < length (m_blocks c) \<longrightarrow>
        is_successor_of E (m_blocks c ! Suc i) (m_blocks c ! i) = Ok True)"
proof (cases "m_blocks c")
  case (Cons b bs)
  then have "chain_valid D E clk c = Ok (True, err) \<longleftrightarrow> is_genesis b \<and>
      (\<exists>e. blocks_valid_from D E clk 0 (b # bs) = Ok (True, e)) \<and>
      successors_from E 1 b bs = Ok (True, err)"
    by (auto simp: chain_valid_def outcome_simps simp del: blocks_valid_from.simps)
  with Cons show ?thesis
    by (simp add: blocks_valid_from_iff successors_from_iff del: blocks_valid_from.simps) blast
qed (simp add: chain_valid_def)

lemma linked_from_split:
  "bs \<noteq> [] \<Longrightarrow> linked_from D E None bs \<longleftrightarrow> is_genesis (hd bs) \<and>
     (\<forall>i < length bs. fst (d_valid D E (b_data (bs ! i)) (b_index (bs ! i))) \<and>
        b_hash (bs ! i) = block_determine_hash D E (bs ! i)) \<and>
     (\<forall>i. Suc i < length bs \<longrightarrow> b_index (bs ! Suc i) = b_index (bs ! i) + 1 \<and>
        b_hash_prev (bs ! Suc i) = Some (b_hash (bs ! i)))"
proof (cases bs)
  case (Cons b bs')
  define V where "V b \<longleftrightarrow> fst (d_valid D E (b_data b) (b_index b)) \<and>
    b_hash b = block_determine_hash D E b" for b
  define S where "S p b \<longleftrightarrow> b_index b = b_index p + 1 \<and> b_hash_prev b = Some (b_hash p)"
    for p b :: "'a block"
  have "linked D E None b \<longleftrightarrow> is_genesis b \<and> V b" for b
    by (auto simp: linked_def V_def is_genesis_def)
  moreover have "linked D E (Some p) b \<longleftrightarrow> S p b \<and> V b" for p b
    by (auto simp: linked_def V_def S_def)
  ultimately have "linked_from D E None (b # bs') \<longleftrightarrow> is_genesis b \<and>
      (\<forall>i < length (b # bs'). V ((b # bs') ! i)) \<and>
      (\<forall>i. Suc i < length (b # bs') \<longrightarrow> S ((b # bs') ! i) ((b # bs') ! Suc i))"
    by (simp add: linked_from_nth All_less_Suc2) blast
  with Cons show ?thesis by (simp add: V_def S_def)
qed simp

lemma chain_valid_well_formed:
  "chain_valid D E clk c = Ok (True, err) \<longleftrightarrow> err = [] \<and> m_blocks c \<noteq> [] \<and> well_formed D E c \<and>
     (\<forall>i < length (m_blocks c). not_ahead E (b_timestamp (m_blocks c ! i)) (clk i)) \<and>
     (\<forall>i. Suc i < length (m_blocks c) \<longrightarrow>
        not_ahead E (b_timestamp (m_blocks c ! i)) (b_timestamp (m_blocks c ! Suc i)))"
proof (cases "m_blocks c = []")
  case False
  then show ?thesis
    unfolding chain_valid_parts well_formed_def linked_from_split [OF False] block_valid_iff
      is_successor_of_iff by blast
qed (simp add: chain_valid_parts)

section \<open>Loading chains\<close>

text \<open>The loop of \<open>from_json\<close> after parsing.\<close>

fun append_blocks ::
    "('d, 'j) data_ops \<Rightarrow> 'j env \<Rightarrow> (nat \<Rightarrow> time_point) \<Rightarrow> nat \<Rightarrow> 'd block list \<Rightarrow> 'd blockchain \<Rightarrow>
     'd blockchain outcome" where
  "append_blocks D E clk i [] c = Ok c"
| "append_blocks D E clk i (b # bs) c =
     (case append_next_block D E (clk i) b c of
        (Ok _, c') \<Rightarrow> append_blocks D E clk (Suc i) bs c'
      | (Throw e, _) \<Rightarrow> Throw e
      | (Undef, _) \<Rightarrow> Undef)"

lemma case_call_Ok_iff:
  "(case r of (Ok u, c) \<Rightarrow> f c | (Throw e, _) \<Rightarrow> Throw e | (Undef, _) \<Rightarrow> Undef) = Ok y \<longleftrightarrow>
     (\<exists>c. r = (Ok (), c) \<and> f c = Ok y)"
  by (cases r; cases "fst r") auto

lemma append_blocks_Cons_iff:
  "append_blocks D E clk i (b # bs) c = Ok c' \<longleftrightarrow>
     (\<exists>c1. append_next_block D E (clk i) b c = (Ok (), c1) \<and>
        append_blocks D E clk (Suc i) bs c1 = Ok c')"
  by (simp add: case_call_Ok_iff)

lemma append_json_blocks_iff:
  "append_json_blocks D E clk i js c = Ok c' \<longleftrightarrow>
     (\<exists>bs. list_all2 (\<lambda>j b. block_from_json D (api E) j = Ok b) js bs \<and>
        append_blocks D E clk i bs c = Ok c')"
proof (induction js arbitrary: i c)
  case (Cons j js)
  have "append_json_blocks D E clk i (j # js) c = Ok c' \<longleftrightarrow>
      (\<exists>b c1. block_from_json D (api E) j = Ok b \<and> append_next_block D E (clk i) b c = (Ok (), c1) \<and>
         append_json_blocks D E clk (Suc i) js c1 = Ok c')"
    by (auto simp: outcome_simps case_call_Ok_iff)
  moreover have "(\<exists>bs. list_all2 P (j # js) bs \<and> Q bs) \<longleftrightarrow> (\<exists>b zs. P j b \<and> list_all2 P js zs \<and> Q (b # zs))"
    for P and Q :: "'a block list \<Rightarrow> bool"
    by (simp only: list_all2_Cons1) blast
  ultimately show ?case by (simp only: Cons.IH append_blocks_Cons_iff) blast
qed auto

lemma append_blocks_result:
  "append_blocks D E clk i bs c = Ok c' \<Longrightarrow> m_blocks c' = m_blocks c @ bs"
proof (induction bs arbitrary: i c)
  case (Cons b bs)
  then obtain c1 where a: "append_next_block D E (clk i) b c = (Ok (), c1)"
    and "append_blocks D E clk (Suc i) bs c1 = Ok c'"
    by (auto simp: append_blocks_Cons_iff simp del: append_blocks.simps)
  with Cons.IH append_next_block_blocks [OF a] show ?case by simp
qed simp

lemma chain_from_json_blocks:
  assumes "chain_from_json D E clk j = Ok c"
  shows "append_blocks D E clk 0 (m_blocks c) (blockchain_init (cfg E)) = Ok c"
    and "list_all2 (\<lambda>j b. block_from_json D (api E) j = Ok b) (json_elems (api E) j) (m_blocks c)"
proof -
  from assms obtain bs where "list_all2 (\<lambda>j b. block_from_json D (api E) j = Ok b) (json_elems (api E) j) bs"
    and a: "append_blocks D E clk 0 bs (blockchain_init (cfg E)) = Ok c"
    by (auto simp: chain_from_json_def append_json_blocks_iff)
  moreover from append_blocks_result [OF a] have "m_blocks c = bs"
    by (simp add: blockchain_init_def)
  ultimately show "append_blocks D E clk 0 (m_blocks c) (blockchain_init (cfg E)) = Ok c"
    "list_all2 (\<lambda>j b. block_from_json D (api E) j = Ok b) (json_elems (api E) j) (m_blocks c)" by simp_all
qed

lemma append_blocks_reachable:
  "chain_reachable D E c \<Longrightarrow> append_blocks D E clk i bs c = Ok c' \<Longrightarrow> chain_reachable D E c'"
proof (induction bs arbitrary: i c)
  case (Cons b bs)
  then show ?case
    by (auto simp: append_blocks_Cons_iff simp del: append_blocks.simps
        intro: chain_reachable.received_block)
qed simp

lemma chain_from_json_reachable: "chain_from_json D E clk j = Ok c \<Longrightarrow> chain_reachable D E c"
  by (blast dest: chain_from_json_blocks(1) intro: append_blocks_reachable chain_reachable.start)

definition strip_chain :: "('d \<Rightarrow> 'd) \<Rightarrow> 'd blockchain \<Rightarrow> 'd blockchain" where
  "strip_chain strip c = c\<lparr>m_blocks := map (strip_block strip) (m_blocks c)\<rparr>"

lemma strip_block_fields [simp]:
  "b_data (strip_block strip b) = strip (b_data b)"
  "b_timestamp (strip_block strip b) = b_timestamp b" "b_nonce (strip_block strip b) = b_nonce b"
  "b_index (strip_block strip b) = b_index b" "b_hash_prev (strip_block strip b) = b_hash_prev b"
  "b_hash (strip_block strip b) = b_hash b"
  by (simp_all add: strip_block_def)

lemma last_block_strip [simp]:
  "last_block (map (strip_block strip) bs) = map_option (strip_block strip) (last_block bs)"
  by (simp add: last_block_def last_map)

lemma strip_chain_fields [simp]:
  "m_blocks (strip_chain strip c) = map (strip_block strip) (m_blocks c)"
  "m_difficulty_adjuster (strip_chain strip c) = m_difficulty_adjuster c"
  "strip_chain strip (blockchain_init C) = blockchain_init C" "m_blocks (blockchain_init C) = []"
  by (simp_all add: strip_chain_def blockchain_init_def)

lemma append_next_block_Ok_iff:
  "append_next_block D E now b c = (Ok (), c') \<longleftrightarrow>
     linked D E (last_block (m_blocks c)) b \<and> not_ahead E (b_timestamp b) now \<and>
     (if proof_of_work E
      then \<exists>a. adjust (cfg E) (b_timestamp b) (m_difficulty_adjuster c) = Ok a \<and>
         \<not> d_less (max_difficulty b) (m_difficulty a) \<and>
         c' = \<lparr>m_blocks = m_blocks c @ [b], m_difficulty_adjuster = a\<rparr>
      else c' = c\<lparr>m_blocks := m_blocks c @ [b]\<rparr>)"
proof (cases "append_check D E now b c")
  case (Ok u)
  then have "linked D E (last_block (m_blocks c)) b" "not_ahead E (b_timestamp b) now"
    by (simp_all add: append_check_iff)
  with Ok show ?thesis
    by (cases c) (auto simp: append_next_block_def Let_def split: outcome.split if_splits)
next
  case (Throw e)
  with append_check_iff [of D E now b c] show ?thesis by (auto simp: append_next_block_def)
next
  case Undef
  with append_check_iff [of D E now b c] show ?thesis by (auto simp: append_next_block_def)
qed

lemma append_blocks_iff:
  assumes "\<not> proof_of_work E"
  shows "append_blocks D E clk i bs c = Ok c' \<longleftrightarrow> c' = c\<lparr>m_blocks := m_blocks c @ bs\<rparr> \<and>
    linked_from D E (last_block (m_blocks c)) bs \<and>
    (\<forall>k < length bs. not_ahead E (b_timestamp (bs ! k)) (clk (i + k)))"
proof (induction bs arbitrary: i c)
  case (Cons b bs)
  let ?c = "c\<lparr>m_blocks := m_blocks c @ [b]\<rparr>"
  have "append_blocks D E clk i (b # bs) c = Ok c' \<longleftrightarrow> linked D E (last_block (m_blocks c)) b \<and>
      not_ahead E (b_timestamp b) (clk i) \<and> append_blocks D E clk (Suc i) bs ?c = Ok c'"
    using assms by (auto simp: append_blocks_Cons_iff append_next_block_Ok_iff simp del: append_blocks.simps)
  moreover have "last_block (m_blocks ?c) = Some b" by (simp add: last_block_def)
  ultimately show ?case by (auto simp: Cons.IH All_less_Suc2)
qed auto

context block_data
begin

text \<open>Loading a written chain appends its blocks without the part that is not transmitted.\<close>

lemma load_chain:
  assumes "api E = J"
  shows "chain_from_json D E clk (chain_to_json D J c) = Ok c' \<longleftrightarrow>
    append_blocks D E clk 0 (map (strip_block strip) (m_blocks c)) (blockchain_init (cfg E)) = Ok c'"
proof -
  have "list_all2 (\<lambda>j b. block_from_json D J j = Ok b) (map (block_to_json D J) bs) bs' \<longleftrightarrow>
      bs' = map (strip_block strip) bs" for bs bs'
    by (induction bs arbitrary: bs') (auto simp: list_all2_Cons1 block_roundtrip)
  with assms show ?thesis
    by (simp add: chain_from_json_def chain_to_json_def elems_array append_json_blocks_iff)
qed

lemma determine_hash_strip:
  "api E = J \<Longrightarrow> block_determine_hash D E (strip_block strip b) = block_determine_hash D E b"
  by (simp add: block_determine_hash_def strip_block_hash)

lemma linked_strip:
  assumes "api E = J" and "linked D E p b"
  shows "linked D E (map_option (strip_block strip) p) (strip_block strip b) \<longleftrightarrow>
    fst (d_valid D E (strip (b_data b)) (b_index b))"
  using assms determine_hash_strip [OF assms(1)]
  by (cases p) (auto simp: linked_def)

lemma append_strip:
  assumes "api E = J" and "append_next_block D E now b c = (Ok (), c')" and "sint now \<le> sint now'"
  shows "append_next_block D E now' (strip_block strip b) (strip_chain strip c) = (Ok (), c1) \<longleftrightarrow>
    fst (d_valid D E (strip (b_data b)) (b_index b)) \<and> c1 = strip_chain strip c'"
proof -
  from assms(2) have "linked D E (last_block (m_blocks c)) b" "not_ahead E (b_timestamp b) now"
    by (simp_all add: append_next_block_Ok_iff)
  with assms show ?thesis
    by (auto simp: append_next_block_Ok_iff linked_strip max_difficulty_def strip_chain_def
        intro: not_ahead_mono split: if_splits)
qed

lemma append_blocks_strip:
  assumes "api E = J" and "append_blocks D E clk i bs c = Ok c'"
    and "\<And>k. sint (clk k) \<le> sint (clk' k)"
  shows "append_blocks D E clk' i (map (strip_block strip) bs) (strip_chain strip c) = Ok c1 \<longleftrightarrow>
    (\<forall>b \<in> set bs. fst (d_valid D E (strip (b_data b)) (b_index b))) \<and> c1 = strip_chain strip c'"
  using assms(2)
proof (induction bs arbitrary: i c)
  case (Cons b bs)
  then obtain c2 where c2: "append_next_block D E (clk i) b c = (Ok (), c2)"
      "append_blocks D E clk (Suc i) bs c2 = Ok c'"
    by (auto simp: append_blocks_Cons_iff simp del: append_blocks.simps)
  from append_strip [OF assms(1) c2(1) assms(3)] Cons.IH [OF c2(2)] show ?case
    by (auto simp: append_blocks_Cons_iff simp del: append_blocks.simps)
qed auto

text \<open>A received chain, written and loaded again no earlier, on the same build.\<close>

lemma reload_chain:
  assumes "api E = J" and "append_blocks D E clk 0 bs (blockchain_init (cfg E)) = Ok c"
    and "\<And>k. sint (clk k) \<le> sint (clk' k)"
  shows "chain_from_json D E clk' (chain_to_json D J c) = Ok c1 \<longleftrightarrow>
    (\<forall>b \<in> set bs. fst (d_valid D E (strip (b_data b)) (b_index b))) \<and> c1 = strip_chain strip c"
  using append_blocks_strip [OF assms] append_blocks_result [OF assms(2)]
  by (simp add: load_chain [OF assms(1)])

end

context json_library
begin

lemmas reload_text_chain = text_block.reload_chain
  and reload_transaction_chain = transactions_block.reload_chain
  and load_transaction_chain = transactions_block.load_chain
  and linked_transmitted = transactions_block.linked_strip

end

lemma strip_block_id [simp]: "strip_block (\<lambda>x. x) = (\<lambda>b. b)"
  by (rule ext) (simp add: strip_block_def)

lemma strip_chain_id [simp]: "strip_chain (\<lambda>x. x) c = c"
  by (simp add: strip_chain_def)

text \<open>Without linked unspent outputs only transactions without inputs are valid.\<close>

lemma transaction_valid_unlinked:
  "fst (transaction_valid E (update_unspent_outputs [] t)) \<longleftrightarrow>
     fst (transaction_valid E t) \<and> t_inputs t = []"
proof -
  have h: "transaction_determine_hash E (update_unspent_outputs us t) = transaction_determine_hash E t" for us
    by (simp add: transaction_determine_hash_def transaction_hash_input_def update_unspent_outputs_def)
  show ?thesis
  proof (cases "t_inputs t = []")
    case True
    with h [of "[]"] show ?thesis
      by (simp add: transaction_valid_def valid_standard_def valid_reward_def update_unspent_outputs_def
          split: transaction_type.split)
  next
    case False
    with h [of "[]"] show ?thesis
      by (simp add: transaction_valid_def valid_standard_def valid_reward_def update_unspent_outputs_def
          check_inputs_no_unspent split: transaction_type.split)
  qed
qed

lemma transactions_valid_True:
  "fst (transactions_valid_from E index i ts) \<longleftrightarrow> transactions_valid_from E index i ts = (True, [])"
  by (induction ts arbitrary: i) (auto split: prod.split bool.split)

lemma transaction_list_valid_iff:
  "fst (transaction_list_valid E ts index) \<longleftrightarrow>
     length ts \<le> unat (transaction_num_per_block (cfg E) + 1) \<and>
     (\<forall>k < length ts. t_type (ts ! k) = (if k = 0 then REWARD else STANDARD) \<and>
        t_index (ts ! k) = index \<and> fst (transaction_valid E (ts ! k)))"
  by (auto simp: transaction_list_valid_def transactions_valid_True transactions_valid_from_iff)

lemma transaction_list_valid_unlinked:
  "fst (transaction_list_valid E (map (update_unspent_outputs []) ts) index) \<longleftrightarrow>
     fst (transaction_list_valid E ts index) \<and> (\<forall>t \<in> set ts. t_inputs t = [])"
proof -
  have [simp]: "t_type (update_unspent_outputs [] t) = t_type t"
    "t_index (update_unspent_outputs [] t) = t_index t" for t
    by (simp_all add: update_unspent_outputs_def)
  have "(\<forall>t \<in> set ts. t_inputs t = []) \<longleftrightarrow> (\<forall>k < length ts. t_inputs (ts ! k) = [])"
    by (simp add: all_set_conv_all_nth)
  then show ?thesis
    by (auto simp: transaction_list_valid_iff transaction_valid_unlinked)
qed

section \<open>Difficulty\<close>

lemma append_blocks_adjuster:
  assumes "proof_of_work E"
  shows "append_blocks D E clk i bs c = Ok c' \<Longrightarrow>
    fold_outcome (\<lambda>a ts. adjust (cfg E) ts a) (m_difficulty_adjuster c) (map b_timestamp bs) =
      Ok (m_difficulty_adjuster c')"
proof (induction bs arbitrary: i c)
  case (Cons b bs)
  then obtain c1 where "append_next_block D E (clk i) b c = (Ok (), c1)"
      "append_blocks D E clk (Suc i) bs c1 = Ok c'"
    by (auto simp: append_blocks_Cons_iff simp del: append_blocks.simps)
  with assms Cons.IH show ?case by (fastforce simp: append_next_block_Ok_iff)
qed simp

lemma short_chain_cumulative:
  assumes "proof_of_work E" and "chain_from_json D E clk j = Ok c"
    and "length (m_blocks c) \<le> unat (blockgen_difficulty_adjust_after (cfg E))"
  shows "m_cumulative_difficulty (m_difficulty_adjuster c) = Fin 0"
proof -
  have "fold_outcome (\<lambda>a ts. adjust (cfg E) ts a) (adjuster_init (cfg E)) (map b_timestamp (m_blocks c)) =
      Ok (m_difficulty_adjuster c)"
    using append_blocks_adjuster [OF assms(1) chain_from_json_blocks(1) [OF assms(2)]]
    by (simp add: blockchain_init_def)
  with adjust_run_quiet [of "adjuster_init (cfg E)" "map b_timestamp (m_blocks c)" "cfg E"] assms(3)
  show ?thesis by (auto simp: adjuster_init_def)
qed

lemma round_rat_power2: "round_rat (2 ^ n) = 2 ^ n"
  using round_rat_dyadic [of 1 "int n"] by simp

lemma round_double_power2: "n < 1024 \<Longrightarrow> round_double (2 ^ n) = Fin (2 ^ n)"
proof -
  assume "n < 1024"
  then have "(2 :: rat) ^ n < 2 ^ 1024" by (simp only: power_strict_increasing)
  moreover have "- (2 ^ 1024) < (2 :: rat) ^ n" by (rule less_le_trans [of _ 0]) simp_all
  ultimately show ?thesis by (simp add: round_double_def round_rat_power2 Let_def)
qed


section \<open>Example chains\<close>

definition example_chain_adjuster :: difficulty_adjuster where
  "example_chain_adjuster = \<lparr>m_difficulty = Fin 2, m_cumulative_difficulty = Fin 0, m_counter = 1,
     m_timestamp = 1000\<rparr>"

definition example_text_block :: "text_data block" where
  "example_text_block = block_first text_ops (example_env True) 1000 ''hello''"

definition example_text_chain :: "text_data blockchain" where
  "example_text_chain = \<lparr>m_blocks = [example_text_block], m_difficulty_adjuster = example_chain_adjuster\<rparr>"

lemma example_block_hash:
  "zero_prefix_length (b_hash example_text_block) = 2"
  "block_determine_hash text_ops (example_env True) example_text_block = b_hash example_text_block"
proof -
  have "b_hash example_text_block = map (\<lambda>c. word_of_nat (of_char c)) ([CHR 0x22] @ ''hello'' @ [CHR 0x22] @
      dec 1000 @ dec 0 @ dec 0)"
    by (simp add: example_text_block_def block_first_def block_determine_hash_def block_hash_input_def
        text_ops_def text_to_json_def jval_api_def quote_def Let_def to_time_since_epoch_def)
  then show "zero_prefix_length (b_hash example_text_block) = 2" 
    by (simp add: dec.simps digit_char_def) code_simp
  show "block_determine_hash text_ops (example_env True) example_text_block = b_hash example_text_block"
    by (simp add: example_text_block_def block_first_def block_determine_hash_def block_hash_input_def Let_def)
qed

lemma data_valid_simps [simp]:
  "d_valid text_ops E x i = (True, [])"
  "d_valid transaction_list_ops E ts i = transaction_list_valid E ts i"
  by (simp_all add: text_ops_def text_valid_def transaction_list_ops_def)

lemma example_not_ahead: "not_ahead (example_env pow) 1000 1000"
  by (simp add: not_ahead_iff in_i64_def)

lemma example_append:
  "append_next_block text_ops (example_env True) 1000 example_text_block
     (blockchain_init from_defaults) = (Ok (), example_text_chain)"
proof -
  have "max_difficulty example_text_block = Fin 4"
    using round_double_power2 [of 2] by (simp add: max_difficulty_def example_block_hash)
  moreover have "b_timestamp example_text_block = 1000" "b_index example_text_block = 0"
    "b_hash_prev example_text_block = None"
    by (simp_all add: example_text_block_def block_first_def Let_def)
  ultimately show ?thesis
    using example_not_ahead [of True]
    by (simp add: append_next_block_Ok_iff linked_def example_block_hash last_block_def
        adjust_def blockchain_init_def adjuster_init_def
        example_text_chain_def example_chain_adjuster_def)
qed

lemma example_construct:
  "construct_next_block text_ops (example_env True) (\<lambda>_. 1000) ''hello'' (blockchain_init from_defaults) =
     Some (Ok (), example_text_chain)"
proof -
  let ?b = example_text_block
  have f: "b_timestamp ?b = 1000" "b_nonce ?b = 0" "?b\<lparr>b_timestamp := 1000\<rparr> = ?b"
    "?b\<lparr>b_hash := b_hash ?b\<rparr> = ?b"
    by (simp_all add: example_text_block_def block_first_def Let_def)
  have "mine text_ops (example_env True) (\<lambda>_. 1000) 1 0 ?b = Some ?b"
    by (subst mine.simps) (simp add: f example_block_hash Let_def)
  moreover have "example_log2 (Fin 2) = Fin 1" by code_simp
  ultimately have "adjust_difficulty text_ops (example_env True) (\<lambda>_. 1000) (Fin 2) ?b = Some (Ok ?b)"
    by (simp add: adjust_difficulty_def)
  moreover have "block_valid text_ops (example_env True) 1000 ?b = Ok (True, [])"
    using f example_not_ahead [of True] by (simp add: block_valid_iff example_block_hash)
  ultimately show ?thesis
    using f by (simp add: construct_next_block_def Let_def adjust_def blockchain_init_def
        adjuster_init_def example_text_chain_def example_chain_adjuster_def
        flip: example_text_block_def)
qed

text \<open>A chain of two blocks whose second block spends an output.\<close>

definition example_genesis :: "transaction_list block" where
  "example_genesis = block_first transaction_list_ops (example_env False) 1000
     [reward (example_env False) ''alice'' 0]"

definition example_spending_block :: "transaction_list block" where
  "example_spending_block = block_after transaction_list_ops (example_env False) 1000
     [reward (example_env False) ''alice'' 1, example_spend] example_genesis"

definition example_spending_chain :: "transaction_list blockchain" where
  "example_spending_chain = (blockchain_init from_defaults)
     \<lparr>m_blocks := [example_genesis, example_spending_block]\<rparr>"

lemma example_spend_valid: "transaction_valid (example_env pow) example_spend = (True, [])"
  by (simp add: transaction_valid_def valid_standard_def example_spend_def spend_def
      transaction_determine_hash_def transaction_hash_input_def utxo_eq_txi_def txo_sum_def
      example_input_def example_utxo_def example_output_def Let_def)

lemma example_genesis_linked:
  "linked transaction_list_ops (example_env False) None example_genesis"
  "b_timestamp example_genesis = 1000"
proof -
  let ?c = "blockchain_init from_defaults :: transaction_list blockchain"
  have eq: "example_genesis = next_block transaction_list_ops (example_env False) 1000
      [reward (example_env False) ''alice'' 0] ?c"
    by (simp add: example_genesis_def next_block_def)
  have "fst (transaction_list_valid (example_env False) [reward (example_env False) ''alice'' 0] 0)"
    by (simp add: transaction_list_valid_iff reward_valid) (simp add: reward_def Let_def)
  then show "linked transaction_list_ops (example_env False) None example_genesis"
    "b_timestamp example_genesis = 1000"
    unfolding eq by (simp_all add: linked_def last_block_def)
qed

lemma example_spending_linked:
  "linked transaction_list_ops (example_env False) (Some example_genesis) example_spending_block"
  "b_timestamp example_spending_block = 1000"
proof -
  let ?c = "(blockchain_init from_defaults)\<lparr>m_blocks := [example_genesis]\<rparr>"
  have eq: "example_spending_block = next_block transaction_list_ops (example_env False) 1000
      [reward (example_env False) ''alice'' 1, example_spend] ?c"
    by (simp add: example_spending_block_def next_block_def)
  have "b_index example_genesis = 0"
    using example_genesis_linked(1) by (simp add: linked_def)
  moreover have "fst (transaction_list_valid (example_env False)
      [reward (example_env False) ''alice'' 1, example_spend] 1)"
    by (simp add: transaction_list_valid_iff reward_valid example_spend_valid All_less_Suc2)
      (simp add: reward_def Let_def example_spend_def spend_def)
  ultimately show "linked transaction_list_ops (example_env False) (Some example_genesis) example_spending_block"
    "b_timestamp example_spending_block = 1000"
    unfolding eq by (simp_all add: linked_def last_block_def)
qed

lemma example_spending_append:
  "append_blocks transaction_list_ops (example_env False) (\<lambda>_. 1000) 0
     [example_genesis, example_spending_block] (blockchain_init from_defaults) =
     Ok example_spending_chain"
proof -
  let ?c0 = "blockchain_init from_defaults :: transaction_list blockchain"
  have "append_next_block transaction_list_ops (example_env False) 1000 example_genesis ?c0 =
      (Ok (), ?c0\<lparr>m_blocks := [example_genesis]\<rparr>)"
    using example_not_ahead example_genesis_linked
    by (simp add: append_next_block_Ok_iff last_block_def)
  moreover have "append_next_block transaction_list_ops (example_env False) 1000 example_spending_block
      (?c0\<lparr>m_blocks := [example_genesis]\<rparr>) = (Ok (), example_spending_chain)"
    using example_not_ahead example_spending_linked
    by (simp add: append_next_block_Ok_iff last_block_def example_spending_chain_def)
  ultimately show ?thesis by simp
qed

section \<open>Properties\<close>

text \<open>
  C1. In every chain that mining and receiving blocks can produce, whatever exceptions occurred
  on the way, block \<open>i\<close> has index \<open>i\<close>, carries the hash of its contents and the hash of its
  predecessor, and its data passed the data check.
\<close>

theorem chain_always_linked:
  assumes "chain_reachable D E c" and "i < length (m_blocks c)"
  shows "b_index (m_blocks c ! i) = word_of_nat i \<and>
    b_hash (m_blocks c ! i) = block_determine_hash D E (m_blocks c ! i) \<and>
    b_hash_prev (m_blocks c ! i) = (if i = 0 then None else Some (b_hash (m_blocks c ! (i - 1)))) \<and>
    fst (d_valid D E (b_data (m_blocks c ! i)) (b_index (m_blocks c ! i)))"
proof -
  have wf: "linked_from D E None (m_blocks c)"
    using chain_reachable_well_formed [OF assms(1)] by (simp add: well_formed_def)
  with assms(2) have "linked D E (if i = 0 then None else Some (m_blocks c ! (i - 1))) (m_blocks c ! i)"
    by (simp add: linked_from_nth)
  with linked_from_index [OF wf assms(2)] show ?thesis by (auto simp: linked_def split: if_splits)
qed

theorem chain_always_linked_witness:
  "b_index (m_blocks example_text_chain ! 0) = 0 \<and> b_hash_prev (m_blocks example_text_chain ! 0) = None"
proof -
  have "chain_reachable text_ops (example_env True) example_text_chain"
    using chain_reachable.received_block [OF chain_reachable.start [of text_ops "example_env True"], of _ _ "Ok ()"]
      example_append by simp
  from chain_always_linked [OF this, of 0] show ?thesis by (simp add: example_text_chain_def)
qed

text \<open>
  C24. \<open>Blockchain::valid\<close> accepts exactly the non-empty chains that are linked, whose data is
  valid, and in which no block is more than the admissible difference ahead of the clock or of
  its successor.
\<close>

theorem chain_valid_spec:
  "chain_valid D E clk c = Ok (True, []) \<longleftrightarrow>
     m_blocks c \<noteq> [] \<and> linked_from D E None (m_blocks c) \<and>
     list_all (\<lambda>(i, b). not_ahead E (b_timestamp b) (clk i)) (enumerate 0 (m_blocks c)) \<and>
     list_all (\<lambda>(b, b'). not_ahead E (b_timestamp b) (b_timestamp b'))
       (zip (m_blocks c) (tl (m_blocks c)))"
  unfolding chain_valid_well_formed well_formed_def
  by (auto simp: list_all_length nth_enumerate_eq nth_tl less_diff_conv)

text \<open>
  C23. \<open>append_next_block\<close> accepts a block exactly when it is linked to the last block, is not
  ahead of the clock, has valid data and hash, and, with proof of work, its leading zero bits
  reach the adjusted difficulty. The block is then the new last block; otherwise the blocks are
  unchanged.
\<close>

theorem append_next_block_spec:
  "(fst (append_next_block D E now b c) = Ok () \<longleftrightarrow>
      linked D E (last_block (m_blocks c)) b \<and> not_ahead E (b_timestamp b) now \<and>
      (if proof_of_work E
       then \<exists>a. adjust (cfg E) (b_timestamp b) (m_difficulty_adjuster c) = Ok a \<and>
          \<not> d_less (max_difficulty b) (m_difficulty a)
       else True)) \<and>
   m_blocks (snd (append_next_block D E now b c)) =
     (if fst (append_next_block D E now b c) = Ok () then m_blocks c @ [b] else m_blocks c)"
proof -
  have "fst (append_next_block D E now b c) = Ok () \<longleftrightarrow>
      (\<exists>c'. append_next_block D E now b c = (Ok (), c'))"
    by (cases "append_next_block D E now b c") auto
  then have "fst (append_next_block D E now b c) = Ok () \<longleftrightarrow>
      linked D E (last_block (m_blocks c)) b \<and> not_ahead E (b_timestamp b) now \<and>
      (if proof_of_work E
       then \<exists>a. adjust (cfg E) (b_timestamp b) (m_difficulty_adjuster c) = Ok a \<and>
          \<not> d_less (max_difficulty b) (m_difficulty a)
       else True)"
    by (cases "proof_of_work E") (auto simp: append_next_block_Ok_iff)
  moreover have "m_blocks (snd (append_next_block D E now b c)) =
      (if fst (append_next_block D E now b c) = Ok () then m_blocks c @ [b] else m_blocks c)"
    by (rule append_next_block_blocks [of D E now b c]) simp
  ultimately show ?thesis by blast
qed

text \<open>
  A chain of text blocks built from received blocks, written to JSON and loaded again on a
  clock that is not behind, is the same chain, difficulty adjuster included.
\<close>

theorem text_chain_reload:
  assumes "json_library (api E)"
    and "append_blocks text_ops E clk 0 bs (blockchain_init (cfg E)) = Ok c"
    and "\<And>k. sint (clk k) \<le> sint (clk' k)"
  shows "chain_from_json text_ops E clk' (chain_to_json text_ops (api E) c) = Ok c"
  using json_library.reload_text_chain [OF assms(1) refl assms(2,3)] by simp

theorem text_chain_reload_witness:
  "chain_from_json text_ops (example_env True) (\<lambda>_. 2000)
     (chain_to_json text_ops jval_api example_text_chain) = Ok example_text_chain"
  using text_chain_reload [of "example_env True" "\<lambda>_. 1000" "[example_text_block]" _ "\<lambda>_. 2000"]
    jval.json_library_axioms example_append by simp

text \<open>
  C28. A chain of transaction blocks that was built by appending received blocks can be handed to another
  node of the same configuration, or persisted and loaded again with clocks that are not behind, exactly
  when no transaction in it has an input: loading validates the transactions before they are linked to any
  unspent output.
\<close>

theorem transaction_chain_reload_iff:
  assumes "json_library (api E)"
    and "append_blocks transaction_list_ops E clk 0 bs (blockchain_init (cfg E)) = Ok c"
    and "\<And>k. sint (clk k) \<le> sint (clk' k)"
  shows "is_Ok (chain_from_json transaction_list_ops E clk' (chain_to_json transaction_list_ops (api E) c)) \<longleftrightarrow>
    (\<forall>b \<in> set (m_blocks c). \<forall>t \<in> set (b_data b). t_inputs t = [])"
proof -
  have bs: "m_blocks c = bs" using append_blocks_result [OF assms(2)] by simp
  have "linked_from transaction_list_ops E None bs"
    using chain_reachable_well_formed [OF append_blocks_reachable [OF chain_reachable.start assms(2)]] bs
    by (simp add: well_formed_def)
  then have "fst (transaction_list_valid E (b_data b) (b_index b))" if "b \<in> set bs" for b
    using linked_from_data [of transaction_list_ops E None bs b] that by simp
  with json_library.reload_transaction_chain [OF assms(1) refl assms(2,3)] bs show ?thesis
    by (simp add: is_Ok_iff transaction_list_valid_unlinked)
qed

theorem transaction_chain_reload_iff_witness:
  "\<not> is_Ok (chain_from_json transaction_list_ops (example_env False) (\<lambda>_. 1000)
     (chain_to_json transaction_list_ops jval_api example_spending_chain))"
proof -
  have "\<not> (\<forall>b \<in> set (m_blocks example_spending_chain). \<forall>t \<in> set (b_data b). t_inputs t = [])"
    by (simp add: example_spending_chain_def example_spending_block_def block_after_def Let_def
        example_spend_def spend_def)
  with transaction_chain_reload_iff [of "example_env False" "\<lambda>_. 1000"
      "[example_genesis, example_spending_block]" example_spending_chain "\<lambda>_. 1000"]
    example_spending_append jval.json_library_axioms show ?thesis by simp
qed

text \<open>
  C31. With proof of work, a received chain that is not longer than the adjustment period never
  compares greater than any chain, so such a chain never replaces the one a node has, whatever
  their lengths.
\<close>

theorem short_chain_never_greater:
  assumes "proof_of_work E" and "chain_from_json D E clk j = Ok c"
    and "length (m_blocks c) \<le> unat (blockgen_difficulty_adjust_after (cfg E))"
    and "cumulative_difficulty other = Ok y"
  shows "chain_greater E c other = Ok False"
  using assms(1,4) short_chain_cumulative [OF assms(1-3)]
  by (simp add: chain_greater_def cumulative_difficulty_def)

theorem short_chain_never_greater_witness:
  "chain_greater (example_env True) example_text_chain (blockchain_init from_defaults) = Ok False"
proof (rule short_chain_never_greater)
  show "chain_from_json text_ops (example_env True) (\<lambda>_. 1000)
      (chain_to_json text_ops jval_api example_text_chain) = Ok example_text_chain"
    using jval.reload_text_chain [of "example_env True" "\<lambda>_. 1000" "[example_text_block]"
        example_text_chain "\<lambda>_. 1000"] example_append by simp
  show "cumulative_difficulty (blockchain_init from_defaults) = Ok 0"
    by (simp add: cumulative_difficulty_def blockchain_init_def adjuster_init_def)
qed (simp_all add: example_text_chain_def)





text \<open>
  The miner adjusts its difficulty with the time its block was constructed, every other
  node with the timestamp in the block, which is the later time at which mining succeeded: after
  a first block the adjusters of miner and receiver start their period at different times.
\<close>

theorem miner_and_receiver_adjust_differently:
  assumes "proof_of_work E"
    and "construct_next_block D E clk data (blockchain_init (cfg E)) = Some (Ok (), c)"
    and "append_next_block D E now (last (m_blocks c)) (blockchain_init (cfg E)) = (Ok (), c')"
  shows "m_blocks c' = m_blocks c \<and> m_timestamp (m_difficulty_adjuster c) = clk 0 \<and>
    (\<exists>n. m_timestamp (m_difficulty_adjuster c') = clk (2 + n))"
proof -
  have first: "m_timestamp a = ts" if "adjust (cfg E) ts (adjuster_init (cfg E)) = Ok a" for ts a
    using that by (auto simp: adjust_def adjuster_init_def)
  obtain b n where "m_blocks c = [b]"
    and "adjust (cfg E) (clk 0) (adjuster_init (cfg E)) = Ok (m_difficulty_adjuster c)"
    and "b = mined D E (\<lambda>k. clk (2 + k)) 0
      (next_block D E (clk 0) data (blockchain_init (cfg E))) n"
    by (rule construct_next_block_Ok [OF assms(2)])
      (use assms(1) that in \<open>auto simp: blockchain_init_def\<close>)
  moreover from this have "b_timestamp b = clk (2 + n)" by (simp add: mined_def attempt_def)
  ultimately show ?thesis
    using assms(1,3) first by (fastforce simp: append_next_block_Ok_iff blockchain_init_def)
qed

theorem miner_and_receiver_adjust_differently_witness:
  "m_timestamp (m_difficulty_adjuster example_text_chain) = 1000"
  using miner_and_receiver_adjust_differently [of "example_env True" text_ops "\<lambda>_. 1000" "''hello''"
      example_text_chain 1000 example_text_chain] example_construct example_append
  by (simp add: example_text_chain_def)

text \<open>
  A block that is rejected because of its difficulty leaves the blocks unchanged but still
  advances the block counter of the difficulty adjuster.
\<close>

theorem rejected_block_is_counted:
  assumes "append_next_block D E now b c =
    (Throw (Exn Logic_error ''attempted appending a block with invalid difficulty''), c')"
  shows "m_blocks c' = m_blocks c \<and>
    m_counter (m_difficulty_adjuster c') = m_counter (m_difficulty_adjuster c) + 1"
proof -
  have "block_valid D E now b \<noteq> Throw e" for e
    by (auto simp: block_valid_def time_sub_def split: prod.splits bool.splits)
  then have "append_check D E now b c \<noteq>
      Throw (Exn Logic_error ''attempted appending a block with invalid difficulty'')"
    by (cases "block_valid D E now b")
      (simp_all add: append_check_def valid_genesis_block_def valid_next_block_def split: prod.split)
  moreover have "adjust C ts a \<noteq> Throw e" for C ts a e
    by (auto simp: adjust_def time_sub_def Let_def)
  ultimately show ?thesis
    using assms by (auto simp: append_next_block_def Let_def dest: adjust_counter
        split: outcome.splits if_splits)
qed

theorem rejected_block_is_counted_witness:
  "m_counter (m_difficulty_adjuster (snd (append_next_block text_ops (example_env True) 1000
     example_text_block (blockchain_init (from_defaults\<lparr>blockgen_difficulty_init := Fin 8\<rparr>))))) = 1"
proof -
  let ?c = "blockchain_init (from_defaults\<lparr>blockgen_difficulty_init := Fin 8\<rparr>) :: text_data blockchain"
  let ?a = "adjuster_init (from_defaults\<lparr>blockgen_difficulty_init := Fin 8\<rparr>)\<lparr>m_counter := 1, m_timestamp := 1000\<rparr>"
  have "append_check text_ops (example_env True) 1000 example_text_block ?c = Ok ()"
    using example_not_ahead [of True]
    by (simp add: append_check_iff linked_def last_block_def example_block_hash)
      (simp add: example_text_block_def block_first_def Let_def)
  moreover have "d_less (max_difficulty example_text_block) (Fin 8)"
    using round_double_power2 [of 2] by (simp add: max_difficulty_def example_block_hash)
  ultimately have "append_next_block text_ops (example_env True) 1000 example_text_block ?c =
      (Throw (Exn Logic_error ''attempted appending a block with invalid difficulty''),
       ?c\<lparr>m_difficulty_adjuster := ?a\<rparr>)"
    by (simp add: append_next_block_def adjust_def blockchain_init_def adjuster_init_def)
      (simp add: example_text_block_def block_first_def Let_def)
  from rejected_block_is_counted [OF this] this show ?thesis
    by (simp add: blockchain_init_def adjuster_init_def)
qed

end
