(* ===== verification/Ledger.thy ===== *)
theory Ledger
  imports Transaction
begin

text \<open>
  The classes \<open>TransactionUnspentOutputs\<close> and \<open>TransactionUnconfirmedPool\<close> of
  \<open>include/transaction.h\<close> and \<open>src/transaction.cc\<close>: the list of unspent outputs of the chain and
  the pool of transactions waiting for a block.
\<close>

section \<open>Model: unspent outputs\<close>

definition new_unspent :: "transaction \<Rightarrow> utxo list" where
  "new_unspent t = map (\<lambda>(i, out). \<lparr>utxo_output_hash = t_hash t,
     utxo_output_index = word_of_nat i, utxo_output = out\<rparr>) (enumerate 0 (t_outputs t))"

fun erase_spent :: "txi list \<Rightarrow> utxo list \<Rightarrow> utxo list outcome" where
  "erase_spent [] us = Ok us"
| "erase_spent (i # is) us =
     bind_outcome (erase_loop (\<lambda>u. utxo_eq_txi u i) us) (erase_spent is)"

definition unspent_update :: "utxo list \<Rightarrow> transaction \<Rightarrow> utxo list outcome" where
  "unspent_update us t = erase_spent (t_inputs t) (us @ new_unspent t)"

definition unspent_clear :: "utxo list \<Rightarrow> utxo list" where
  "unspent_clear us = []"

definition unspent_to_json :: "'j json_api \<Rightarrow> utxo list \<Rightarrow> 'j" where
  "unspent_to_json J us = json_array J (map (utxo_to_json J) us)"

text \<open>The loops of the node that feed every transaction of a list to \<open>update\<close>.\<close>

definition unspent_update_all :: "utxo list \<Rightarrow> transaction list \<Rightarrow> utxo list outcome" where
  "unspent_update_all us ts = fold_outcome unspent_update us ts"

section \<open>Model: unconfirmed pool\<close>

text \<open>\<open>front()\<close> of an empty list is undefined.\<close>

fun pool_next :: "transaction list \<Rightarrow> (transaction \<times> transaction list) outcome" where
  "pool_next [] = Undef"
| "pool_next (t # ts) = Ok (t, ts)"

definition pool_add :: "'j env \<Rightarrow> transaction list \<Rightarrow> transaction \<Rightarrow> transaction list outcome" where
  "pool_add E pool t =
     (if length pool = unat (transaction_num_per_block (cfg E))
      then Throw (Exn Runtime_error ''transaction pool is already full'')
      else (case transaction_valid E t of
              (False, err) \<Rightarrow> Throw (Exn Runtime_error
                (''attempted to add invalid transaction to pool: '' @ err))
            | (True, _) \<Rightarrow>
                if list_ex (\<lambda>t'. list_ex (\<lambda>i. list_ex (\<lambda>i'. txi_eq i i') (t_inputs t'))
                     (t_inputs t)) pool
                then Throw (Exn Runtime_error
                  ''Attempted to add invalid transaction to pool: duplicate inputs'')
                else Ok (pool @ [t])))"

definition pool_remove :: "transaction list \<Rightarrow> transaction \<Rightarrow> transaction list outcome" where
  "pool_remove pool t = erase_loop (\<lambda>t'. t_hash t' = t_hash t) pool"

text \<open>
  Erasing the transaction destroys the vector of inputs that the enclosing range-for loop is
  still iterating over; advancing its invalidated iterator is undefined.
\<close>

fun prune_inputs :: "utxo list \<Rightarrow> txi list \<Rightarrow> unit outcome" where
  "prune_inputs us [] = Ok ()"
| "prune_inputs us (i # is) =
     (if list_ex (\<lambda>u. utxo_eq_txi u i) us then prune_inputs us is else Undef)"

fun pool_prune :: "utxo list \<Rightarrow> transaction list \<Rightarrow> transaction list outcome" where
  "pool_prune us [] = Ok []"
| "pool_prune us (t # ts) =
     bind_outcome (prune_inputs us (t_inputs t)) (\<lambda>_. map_outcome_val ((#) t) (pool_prune us ts))"

definition pool_clear :: "transaction list \<Rightarrow> transaction list" where
  "pool_clear pool = []"

definition pool_to_json :: "'j json_api \<Rightarrow> transaction list \<Rightarrow> 'j" where
  "pool_to_json J pool = json_array J (map (transaction_to_json J) pool)"

section \<open>Unspent outputs: lemmas\<close>

text \<open>The value held by a list of unspent outputs, without wrap-around.\<close>

definition total_value :: "utxo list \<Rightarrow> nat" where
  "total_value us = sum_list (map (\<lambda>u. unat (txo_amount (utxo_output u))) us)"

definition total_out :: "txo list \<Rightarrow> nat" where
  "total_out outs = sum_list (map (\<lambda>out. unat (txo_amount out)) outs)"

definition spent_keys :: "transaction \<Rightarrow> (digest \<times> u64) set" where
  "spent_keys t = txi_key ` set (t_inputs t)"

lemma total_append [simp]: "total_value (us @ vs) = total_value us + total_value vs"
  by (simp add: total_value_def)

lemma total_simps [simp]:
  "total_value [] = 0" "total_value (u # us) = unat (txo_amount (utxo_output u)) + total_value us"
  by (simp_all add: total_value_def)

lemma total_filter_split: "total_value us = total_value (filter P us) + total_value (filter (\<lambda>u. \<not> P u) us)"
  by (induction us) auto

lemma erase_spent_filter:
  assumes "distinct (map utxo_key us)" and "us \<noteq> []" and "utxo_key (last us) \<notin> txi_key ` set is"
  shows "erase_spent is us = Ok (filter (\<lambda>u. utxo_key u \<notin> txi_key ` set is) us)"
  using assms
proof (induction "is" arbitrary: us)
  case (Cons i "is")
  let ?us = "filter (\<lambda>u. utxo_key u \<noteq> txi_key i) us"
  from Cons.prems have "erase_loop (\<lambda>u. utxo_eq_txi u i) us = Ok ?us"
    using erase_loop_unique [of utxo_key us "\<lambda>u. utxo_eq_txi u i" "txi_key i"]
    by (simp add: utxo_eq_txi_key)
  moreover have "last ?us = last us" "?us \<noteq> []"
    using Cons.prems(2,3) by (induction us) (auto split: if_splits)
  then have "erase_spent is ?us = Ok (filter (\<lambda>u. utxo_key u \<notin> txi_key ` set is) ?us)"
    using Cons.prems by (intro Cons.IH) (auto simp: distinct_map_filter)
  ultimately show ?case by (simp add: conj_commute)
qed simp

lemma length_new_unspent [simp]: "length (new_unspent t) = length (t_outputs t)"
  by (simp add: new_unspent_def)

lemma new_unspent_hash: "u \<in> set (new_unspent t) \<Longrightarrow> utxo_output_hash u = t_hash t"
  by (auto simp: new_unspent_def)

lemma total_new_unspent: "total_value (new_unspent t) = total_out (t_outputs t)"
proof -
  have "map (\<lambda>u. unat (txo_amount (utxo_output u))) (new_unspent t) =
      map (\<lambda>out. unat (txo_amount out)) (t_outputs t)"
    by (rule nth_equalityI) (simp_all add: new_unspent_def nth_enumerate_eq)
  then show ?thesis by (simp only: total_value_def total_out_def)
qed

lemma distinct_new_unspent:
  assumes "length (t_outputs t) \<le> 2 ^ 64"
  shows "distinct (map utxo_key (new_unspent t))"
proof -
  have "map utxo_output_index (new_unspent t) = map word_of_nat [0..<length (t_outputs t)]"
    by (rule nth_equalityI) (simp_all add: new_unspent_def nth_enumerate_eq)
  moreover have "inj_on (word_of_nat :: nat \<Rightarrow> u64) {0..<length (t_outputs t)}"
  proof (rule inj_onI)
    fix x y
    assume "x \<in> {0..<length (t_outputs t)}" "y \<in> {0..<length (t_outputs t)}"
      and eq: "word_of_nat x = (word_of_nat y :: u64)"
    with assms have "x < 2 ^ 64" "y < 2 ^ 64" by auto
    with arg_cong [OF eq, of unat] show "x = y" by (simp add: unat_of_nat)
  qed
  ultimately have "distinct (map utxo_output_index (new_unspent t))"
    by (simp add: distinct_map)
  then show ?thesis
    by (auto simp: distinct_map inj_on_def utxo_key_def)
qed


text \<open>
  What makes an update regular: the transaction has an output, its hash is new among the unspent
  outputs, and it does not spend itself.
\<close>

definition admissible :: "utxo list \<Rightarrow> transaction \<Rightarrow> bool" where
  "admissible us t \<longleftrightarrow> t_outputs t \<noteq> [] \<and> length (t_outputs t) \<le> 2 ^ 64 \<and>
     t_hash t \<notin> utxo_output_hash ` set us \<and> t_hash t \<notin> txi_output_hash ` set (t_inputs t)"

lemma distinct_unspent_append:
  assumes "distinct (map utxo_key us)" and "admissible us t"
  shows "distinct (map utxo_key (us @ new_unspent t))"
proof -
  have "utxo_key ` set us \<inter> utxo_key ` set (new_unspent t) = {}"
    using assms(2) new_unspent_hash by (fastforce simp: admissible_def utxo_key_def)
  with assms distinct_new_unspent show ?thesis by (simp add: admissible_def)
qed

text \<open>Under these conditions the erase loops amount to one filter.\<close>

lemma unspent_update_filter:
  assumes "distinct (map utxo_key us)" and "admissible us t"
  shows "unspent_update us t =
    Ok (filter (\<lambda>u. utxo_key u \<notin> spent_keys t) us @ new_unspent t)"
proof -
  have fresh: "utxo_key u \<notin> spent_keys t" if "u \<in> set (new_unspent t)" for u
    using assms(2) new_unspent_hash [OF that]
    by (auto simp: admissible_def spent_keys_def utxo_key_def txi_key_def)
  have ne: "new_unspent t \<noteq> []"
    using assms(2) by (metis admissible_def length_0_conv length_new_unspent)
  then have "utxo_key (last (us @ new_unspent t)) \<notin> spent_keys t"
    using fresh [OF last_in_set [OF ne]] by simp
  then have "unspent_update us t =
      Ok (filter (\<lambda>u. utxo_key u \<notin> spent_keys t) (us @ new_unspent t))"
    unfolding unspent_update_def spent_keys_def
    using ne by (intro erase_spent_filter distinct_unspent_append assms) auto
  moreover have "filter (\<lambda>u. utxo_key u \<notin> spent_keys t) (new_unspent t) = new_unspent t"
    using fresh by (simp add: filter_id_conv)
  ultimately show ?thesis by simp
qed

lemma distinct_unspent_update:
  assumes "distinct (map utxo_key us)" and "admissible us t"
  shows "distinct (map utxo_key (filter (\<lambda>u. utxo_key u \<notin> spent_keys t) us @ new_unspent t))"
  using distinct_unspent_append [OF assms] by (auto simp: distinct_map_filter)

lemma total_filter_key:
  assumes "distinct (map utxo_key us)"
  shows "total_value (filter (\<lambda>u. utxo_key u = txi_key i) us) = unat (input_amount us i)"
  using assms
proof (induction us)
  case (Cons u us)
  show ?case
  proof (cases "utxo_key u = txi_key i")
    case True
    with Cons.prems have "filter (\<lambda>v. utxo_key v = txi_key i) us = []"
      by (force simp: filter_empty_conv)
    with True show ?thesis by (simp add: input_amount_def find_unspent_def utxo_eq_txi_key)
  next
    case False
    with Cons show ?thesis by (simp add: input_amount_def find_unspent_def utxo_eq_txi_key)
  qed
qed (simp add: input_amount_def find_unspent_def)

text \<open>Inputs with distinct references are worth exactly the outputs they remove.\<close>

lemma total_spent:
  assumes "distinct (map utxo_key us)" and "distinct (map txi_key is)"
  shows "total_value (filter (\<lambda>u. utxo_key u \<in> txi_key ` set is) us) =
    sum_list (map (\<lambda>i. unat (input_amount us i)) is)"
  using assms(2)
proof (induction "is")
  case (Cons i "is")
  let ?in = "\<lambda>u. utxo_key u \<in> txi_key ` set (i # is)"
  have "filter (\<lambda>u. utxo_key u = txi_key i) (filter ?in us) =
      filter (\<lambda>u. utxo_key u = txi_key i) us"
    and "filter (\<lambda>u. utxo_key u \<noteq> txi_key i) (filter ?in us) =
      filter (\<lambda>u. utxo_key u \<in> txi_key ` set is) us"
    using Cons.prems by (auto intro!: filter_cong)
  with total_filter_split [of "filter ?in us" "\<lambda>u. utxo_key u = txi_key i"] Cons
    total_filter_key [OF assms(1)] show ?case by simp
qed simp


text \<open>The value balance of any admissible transaction with distinct inputs.\<close>

lemma unspent_update_total:
  assumes "distinct (map utxo_key us)" and "admissible us t" and "distinct (map txi_key (t_inputs t))"
    and "unspent_update us t = Ok us'"
  shows "total_value us' + sum_list (map (\<lambda>i. unat (input_amount us i)) (t_inputs t)) =
    total_value us + total_out (t_outputs t)"
proof -
  have "us' = filter (\<lambda>u. utxo_key u \<notin> spent_keys t) us @ new_unspent t"
    using unspent_update_filter [OF assms(1,2)] assms(4) by simp
  moreover have "total_value us = total_value (filter (\<lambda>u. utxo_key u \<in> spent_keys t) us) +
      total_value (filter (\<lambda>u. utxo_key u \<notin> spent_keys t) us)"
    by (rule total_filter_split)
  ultimately show ?thesis
    using total_spent [OF assms(1,3)] by (simp add: spent_keys_def total_new_unspent)
qed

lemma total_filter_le: "total_value (filter P us) \<le> total_value us"
  using total_filter_split [of us P] by simp

lemma input_sum_le_total:
  assumes "distinct (map utxo_key us)" and "distinct (map txi_key is)"
  shows "sum_list (map (\<lambda>i. unat (input_amount us i)) is) \<le> total_value us"
  using total_spent [OF assms] total_filter_le by metis

lemma valid_standard_sums:
  assumes "distinct (map utxo_key us)" and "distinct (map txi_key (t_inputs t))"
    and "t_unspent_outputs t = us" and "valid_standard E t = (True, [])"
    and "total_value us < 2 ^ 64" and "total_out (t_outputs t) < 2 ^ 64"
  shows "sum_list (map (\<lambda>i. unat (input_amount us i)) (t_inputs t)) = total_out (t_outputs t)"
proof -
  have "sum_list (map (\<lambda>i. unat (input_amount us i)) (t_inputs t)) < 2 ^ 64"
    using input_sum_le_total [OF assms(1,2)] assms(5) by linarith
  then have "unat (sum_list (map (input_amount us) (t_inputs t))) =
      sum_list (map (\<lambda>i. unat (input_amount us i)) (t_inputs t))"
    using unat_sum_list [of "map (input_amount us) (t_inputs t)"] by (simp add: comp_def)
  moreover have "unat (sum_list (map txo_amount (t_outputs t))) = total_out (t_outputs t)"
    using unat_sum_list [of "map txo_amount (t_outputs t)"] assms(6)
    by (simp add: total_out_def comp_def)
  ultimately show ?thesis
    using valid_standard_unique [of t E] assms(1,3,4) by simp
qed

section \<open>The contract of the unspent outputs\<close>

text \<open>
  Abstractly the unspent outputs are a finite map from output references to outputs. Applying a
  transaction adds its outputs and then removes what it spends.
\<close>

definition new_outputs_map :: "transaction \<Rightarrow> (digest \<times> u64) \<rightharpoonup> txo" where
  "new_outputs_map t = map_of (map (\<lambda>u. (utxo_key u, utxo_output u)) (new_unspent t))"

definition apply_transaction ::
    "((digest \<times> u64) \<rightharpoonup> txo) \<Rightarrow> transaction \<Rightarrow> ((digest \<times> u64) \<rightharpoonup> txo)" where
  "apply_transaction m t = (m ++ new_outputs_map t) |` (- spent_keys t)"

definition unspent_map :: "utxo list \<Rightarrow> ((digest \<times> u64) \<rightharpoonup> txo)" where
  "unspent_map us = map_of (map (\<lambda>u. (utxo_key u, utxo_output u)) us)"

definition regular :: "((digest \<times> u64) \<rightharpoonup> txo) \<Rightarrow> transaction \<Rightarrow> bool" where
  "regular m t \<longleftrightarrow> t_outputs t \<noteq> [] \<and> length (t_outputs t) \<le> 2 ^ 64 \<and>
     t_hash t \<notin> fst ` dom m \<and> t_hash t \<notin> fst ` spent_keys t"

text \<open>A sequence of transactions each regular where it is applied.\<close>

fun regular_run :: "((digest \<times> u64) \<rightharpoonup> txo) \<Rightarrow> transaction list \<Rightarrow> bool" where
  "regular_run m [] \<longleftrightarrow> True"
| "regular_run m (t # ts) \<longleftrightarrow> regular m t \<and> regular_run (apply_transaction m t) ts"

locale utxo_store =
  fixes update :: "'s \<Rightarrow> transaction \<Rightarrow> 's outcome"
    and lookup :: "'s \<Rightarrow> ((digest \<times> u64) \<rightharpoonup> txo)"
    and invar :: "'s \<Rightarrow> bool"
  assumes update_refines:
    "invar s \<Longrightarrow> regular (lookup s) t \<Longrightarrow>
       \<exists>s'. update s t = Ok s' \<and> invar s' \<and> lookup s' = apply_transaction (lookup s) t"
begin

lemma run_refines:
  "invar s \<Longrightarrow> regular_run (lookup s) ts \<Longrightarrow>
     \<exists>s'. fold_outcome update s ts = Ok s' \<and> invar s' \<and> lookup s' = foldl apply_transaction (lookup s) ts"
proof (induction ts arbitrary: s)
  case (Cons t ts)
  then obtain s1 where s1: "update s t = Ok s1" "invar s1"
      "lookup s1 = apply_transaction (lookup s) t"
    using update_refines by force
  with Cons.prems have "regular_run (lookup s1) ts" by simp
  with Cons.IH s1 show ?case by fastforce
qed simp

text \<open>What a transaction spends is gone afterwards, and stays gone unless created again.\<close>

lemma spent_gone:
  assumes "invar s" "regular (lookup s) t" "update s t = Ok s'" "k \<in> spent_keys t"
  shows "lookup s' k = None"
  using update_refines [OF assms(1,2)] assms(3,4) by (auto simp: apply_transaction_def)

end

lemma unspent_map_Some_iff:
  "distinct (map utxo_key us) \<Longrightarrow>
     unspent_map us k = Some out \<longleftrightarrow> (\<exists>u \<in> set us. utxo_key u = k \<and> utxo_output u = out)"
  by (auto simp: unspent_map_def map_of_eq_Some_iff comp_def)

lemma dom_unspent_map: "dom (unspent_map us) = utxo_key ` set us"
  by (simp add: unspent_map_def dom_map_of_conv_image_fst image_image)

lemma regular_admissible: "regular (unspent_map us) t \<longleftrightarrow> admissible us t"
  by (simp add: regular_def admissible_def dom_unspent_map spent_keys_def image_image
      utxo_key_def txi_key_def)

lemma unspent_map_update:
  assumes "distinct (map utxo_key us)" and "admissible us t"
  shows "unspent_map (filter (\<lambda>u. utxo_key u \<notin> spent_keys t) us @ new_unspent t) =
    apply_transaction (unspent_map us) t"
proof (rule ext)
  fix k
  have fresh: "utxo_key u \<notin> spent_keys t" if "u \<in> set (new_unspent t)" for u
    using assms(2) new_unspent_hash [OF that]
    by (auto simp: admissible_def spent_keys_def utxo_key_def txi_key_def)
  have filt: "map_of (map (\<lambda>u. (utxo_key u, utxo_output u)) (filter (\<lambda>u. utxo_key u \<notin> S) us)) k =
      (if k \<in> S then None else unspent_map us k)" for S
    by (induction us) (auto simp: unspent_map_def)
  have "k \<in> spent_keys t \<Longrightarrow> new_outputs_map t k = None"
    using fresh by (force simp: new_outputs_map_def map_of_eq_None_iff)
  moreover have "dom (unspent_map us) \<inter> dom (new_outputs_map t) = {}"
    using distinct_unspent_append [OF assms]
    by (auto simp: dom_unspent_map new_outputs_map_def dom_map_of_conv_image_fst image_image)
  then have "unspent_map us ++ new_outputs_map t = new_outputs_map t ++ unspent_map us"
    by (rule map_add_comm)
  ultimately show "unspent_map (filter (\<lambda>u. utxo_key u \<notin> spent_keys t) us @ new_unspent t) k =
      apply_transaction (unspent_map us) t k"
    by (simp add: apply_transaction_def restrict_map_def unspent_map_def map_add_def filt
        new_outputs_map_def split: option.split)
qed

interpretation utxo_list: utxo_store unspent_update unspent_map "\<lambda>us. distinct (map utxo_key us)"
proof unfold_locales
  fix us t
  assume d: "distinct (map utxo_key us)" and "regular (unspent_map us) t"
  then have a: "admissible us t" by (simp add: regular_admissible)
  show "\<exists>us'. unspent_update us t = Ok us' \<and> distinct (map utxo_key us') \<and>
      unspent_map us' = apply_transaction (unspent_map us) t"
    using unspent_update_filter [OF d a] distinct_unspent_update [OF d a] unspent_map_update [OF d a]
    by blast
qed

section \<open>Unconfirmed pool: lemmas\<close>

text \<open>The operations as one step function.\<close>

datatype pool_op = PoolAdd transaction | PoolNext | PoolRemove transaction
  | PoolPrune "utxo list" | PoolClear

fun pool_step :: "'j env \<Rightarrow> pool_op \<Rightarrow> transaction list \<Rightarrow> transaction list outcome" where
  "pool_step E (PoolAdd t) pool = pool_add E pool t"
| "pool_step E PoolNext pool = map_outcome_val snd (pool_next pool)"
| "pool_step E (PoolRemove t) pool = pool_remove pool t"
| "pool_step E (PoolPrune us) pool = pool_prune us pool"
| "pool_step E PoolClear pool = Ok (pool_clear pool)"

definition pool_inv :: "'j env \<Rightarrow> transaction list \<Rightarrow> bool" where
  "pool_inv E pool \<longleftrightarrow>
     length pool \<le> unat (transaction_num_per_block (cfg E)) \<and>
     list_all (\<lambda>t. fst (transaction_valid E t)) pool \<and>
     sorted_wrt (\<lambda>t t'. spent_keys t \<inter> spent_keys t' = {}) pool"

lemma pool_inv_subseq: "pool_inv E pool \<Longrightarrow> subseq pool' pool \<Longrightarrow> pool_inv E pool'"
  by (auto simp: pool_inv_def list_all_iff intro: sorted_wrt_subseq dest: list_emb_length list_emb_set)

lemma pool_add_Ok_iff:
  "pool_add E pool t = Ok pool' \<longleftrightarrow>
     length pool \<noteq> unat (transaction_num_per_block (cfg E)) \<and> fst (transaction_valid E t) \<and>
     (\<forall>t' \<in> set pool. spent_keys t' \<inter> spent_keys t = {}) \<and> pool' = pool @ [t]"
proof -
  have "list_ex (\<lambda>t'. list_ex (\<lambda>i. list_ex (\<lambda>i'. txi_eq i i') (t_inputs t')) (t_inputs t)) pool \<longleftrightarrow>
      \<not> (\<forall>t' \<in> set pool. spent_keys t' \<inter> spent_keys t = {})"
    by (fastforce simp: list_ex_iff txi_eq_key spent_keys_def)
  then show ?thesis
    by (auto simp: pool_add_def split: prod.split bool.split)
qed

lemma list_ex_unspent: "list_ex (\<lambda>u. utxo_eq_txi u i) us \<longleftrightarrow> txi_key i \<in> utxo_key ` set us"
  by (force simp: list_ex_iff utxo_eq_txi_key)

lemma prune_inputs_iff:
  "prune_inputs us is =
     (if list_all (\<lambda>i. txi_key i \<in> utxo_key ` set us) is then Ok () else Undef)"
  by (induction "is") (simp_all add: list_ex_unspent)

lemma pool_prune_iff:
  "pool_prune us pool =
     (if list_all (\<lambda>t. spent_keys t \<subseteq> utxo_key ` set us) pool then Ok pool else Undef)"
  by (induction pool) (auto simp: prune_inputs_iff list_all_iff spent_keys_def)

lemma pool_step_inv: "pool_inv E pool \<Longrightarrow> pool_step E op pool = Ok pool' \<Longrightarrow> pool_inv E pool'"
proof (cases op)
  case (PoolAdd t)
  assume "pool_inv E pool" "pool_step E op pool = Ok pool'"
  with PoolAdd show ?thesis
    by (auto simp: pool_inv_def pool_add_Ok_iff sorted_wrt_append)
next
  case PoolNext
  assume "pool_inv E pool" "pool_step E op pool = Ok pool'"
  with PoolNext show ?thesis by (cases pool) (auto simp: pool_inv_def)
next
  case (PoolRemove t)
  assume "pool_inv E pool" "pool_step E op pool = Ok pool'"
  with PoolRemove show ?thesis
    by (auto simp: pool_remove_def intro: pool_inv_subseq erase_loop_subseq)
qed (auto simp: pool_prune_iff pool_clear_def pool_inv_def split: if_splits)

interpretation pool: invariant_machine "pool_inv E" "pool_step E" for E :: "'j env"
  by unfold_locales (rule pool_step_inv)


section \<open>Properties\<close>

text \<open>
  C20. Replaying transactions through \<open>TransactionUnspentOutputs::update\<close> implements the abstract
  ledger: from a list with distinct references, a sequence of transactions in which each has an
  output, brings a new hash and does not spend itself runs without undefined behaviour, keeps
  the references distinct, and yields exactly the map obtained by adding each transaction's
  outputs and removing what it spends.
\<close>

theorem unspent_replay_refines:
  assumes "distinct (map utxo_key us)" and "regular_run (unspent_map us) ts"
  shows "\<exists>us'. unspent_update_all us ts = Ok us' \<and> distinct (map utxo_key us') \<and>
    unspent_map us' = foldl apply_transaction (unspent_map us) ts"
  using utxo_list.run_refines [OF assms] by (simp add: unspent_update_all_def)

theorem unspent_replay_refines_witness:
  "\<exists>us'. unspent_update_all [example_utxo] [example_spend] = Ok us' \<and>
     distinct (map utxo_key us') \<and>
     unspent_map us' = foldl apply_transaction (unspent_map [example_utxo]) [example_spend]"
proof (rule unspent_replay_refines)
  show "regular_run (unspent_map [example_utxo]) [example_spend]"
    by (simp add: regular_admissible admissible_def example_spend_def spend_def Let_def
        example_input_def example_utxo_def transaction_determine_hash_def transaction_hash_input_def)
      (simp add: dec.simps)
qed simp

text \<open>
  C21. A standard transaction conserves value: if it passes the check against the current unspent
  outputs, names no input twice, has an output and a new hash, and no sum exceeds 64 bits, then
  applying it succeeds and leaves the total value of the unspent outputs unchanged.
\<close>

theorem standard_transaction_conserves_value:
  assumes "distinct (map utxo_key us)" and "admissible us t" and "distinct (map txi_key (t_inputs t))"
    and "t_unspent_outputs t = us" and "valid_standard E t = (True, [])"
    and "total_value us < 2 ^ 64" and "total_out (t_outputs t) < 2 ^ 64"
  shows "\<exists>us'. unspent_update us t = Ok us' \<and> total_value us' = total_value us"
proof -
  obtain us' where us': "unspent_update us t = Ok us'"
    using unspent_update_filter [OF assms(1,2)] by blast
  moreover have "total_value us' = total_value us"
    using unspent_update_total [OF assms(1-3) us'] valid_standard_sums [OF assms(1,3-7)] by simp
  ultimately show ?thesis by blast
qed

lemma example_admissible: "admissible [example_utxo] example_spend"
  by (simp add: admissible_def example_spend_def spend_def Let_def
      example_input_def example_utxo_def transaction_determine_hash_def transaction_hash_input_def)
    (simp add: dec.simps)

lemma example_valid: "valid_standard (example_env True) example_spend = (True, [])"
  by (simp add: valid_standard_def example_spend_def spend_def transaction_determine_hash_def
      transaction_hash_input_def utxo_eq_txi_def txo_sum_def
      example_input_def example_utxo_def example_output_def Let_def)

theorem standard_transaction_conserves_value_witness:
  "\<exists>us'. unspent_update [example_utxo] example_spend = Ok us' \<and> total_value us' = total_value [example_utxo]"
proof (rule standard_transaction_conserves_value [OF _ example_admissible _ _ example_valid])
qed (simp_all add: example_spend_def spend_def Let_def example_utxo_def example_output_def
    total_out_def)

text \<open>
  Nothing in the check stops a transaction from naming the same unspent output twice: such a
  transaction may pay out twice the amount, is accepted, and applying it increases the total
  value by the amount of the output.
\<close>

theorem duplicate_input_inflates:
  assumes "distinct (map utxo_key us)" and "admissible us t"
    and "t_unspent_outputs t = us" and "t_hash t = transaction_determine_hash E t"
    and "t_inputs t = [i, i]" and "find_unspent us i = Some u" and "authorised E t i"
    and "t_outputs t = [out]" and "txo_amount out = 2 * txo_amount (utxo_output u)"
    and "2 * unat (txo_amount (utxo_output u)) < 2 ^ 64"
  shows "valid_standard E t = (True, []) \<and>
    (\<exists>us'. unspent_update us t = Ok us' \<and>
       total_value us' = total_value us + unat (txo_amount (utxo_output u)))"
proof -
  let ?a = "txo_amount (utxo_output u)"
  have a: "input_amount us i = ?a" using assms(6) by (simp add: input_amount_def)
  have "valid_standard E t = (True, [])"
    using assms a by (simp add: valid_standard_unique)
  moreover obtain us' where us': "unspent_update us t = Ok us'"
    and eq: "us' = filter (\<lambda>u. utxo_key u \<noteq> txi_key i) us @ new_unspent t"
    using unspent_update_filter [OF assms(1,2)] assms(5) by (auto simp: spent_keys_def)
  have "total_value us = unat ?a + total_value (filter (\<lambda>u. utxo_key u \<noteq> txi_key i) us)"
    using total_filter_split [of us "\<lambda>u. utxo_key u = txi_key i"] total_filter_key [OF assms(1)] a
    by simp
  moreover have "total_value (new_unspent t) = 2 * unat ?a"
    using assms(8-10) by (simp add: total_new_unspent total_out_def unat_word_ariths)
  ultimately show ?thesis using us' eq by simp
qed

definition example_double_spend :: transaction where
  "example_double_spend = spend [example_input, example_input]
     [\<lparr>txo_amount = 100, txo_address = ''alice''\<rparr>] [example_utxo]"

theorem duplicate_input_inflates_witness:
  "valid_standard (example_env True) example_double_spend = (True, []) \<and>
   (\<exists>us'. unspent_update [example_utxo] example_double_spend = Ok us' \<and>
      total_value us' = total_value [example_utxo] + 50)"
proof -
  define t where "t = example_double_spend"
  define i where "i = example_input\<lparr>txi_signature := t_hash t\<rparr>"
  have adm: "admissible [example_utxo] t"
    by (simp add: t_def admissible_def example_double_spend_def spend_def Let_def
      example_input_def example_utxo_def transaction_determine_hash_def transaction_hash_input_def)
  have "valid_standard (example_env True) t = (True, []) \<and>
    (\<exists>us'. unspent_update [example_utxo] t = Ok us' \<and>
       total_value us' = total_value [example_utxo] + unat (txo_amount (utxo_output example_utxo)))"
    by (rule duplicate_input_inflates [OF _ adm, where i = i and out = "t_outputs t ! 0"])
      (simp_all add: t_def i_def example_double_spend_def spend_def Let_def example_input_def
        example_utxo_def example_output_def transaction_determine_hash_def authorised_def
        transaction_hash_input_def find_unspent_def utxo_eq_txi_def)
  then show ?thesis by (simp add: t_def example_utxo_def example_output_def)
qed

definition example_overflow :: transaction where
  "example_overflow = spend [example_input]
     [\<lparr>txo_amount = 0x8000000000000000, txo_address = ''alice''\<rparr>,
      \<lparr>txo_amount = 0x8000000000000000, txo_address = ''alice''\<rparr>, example_output] [example_utxo]"

text \<open>
  The sums of the check wrap around at 64 bits: there is an accepted transaction that spends
  one output worth 50 and creates outputs worth more than \<open>2 ^ 64\<close>.
\<close>

theorem output_sum_overflow_accepted:
  "valid_standard (example_env True) example_overflow = (True, []) \<and>
   total_value (t_unspent_outputs example_overflow) = 50 \<and>
   total_out (t_outputs example_overflow) = 2 ^ 64 + 50"
  by (simp add: valid_standard_def example_overflow_def spend_def transaction_determine_hash_def
      transaction_hash_input_def utxo_eq_txi_def txo_sum_def total_out_def
      example_input_def example_utxo_def example_output_def Let_def)

text \<open>
  C25. The unconfirmed pool keeps its invariant under every operation, in any sequence that
  returns: it never holds more than \<open>transaction_num_per_block\<close> transactions, each of them passed
  its check when it was added, and no two of them spend the same output.
\<close>

theorem pool_invariant:
  assumes "pool_inv E pool" and "fold_outcome (\<lambda>pool op. pool_step E op pool) pool ops = Ok pool'"
  shows "pool_inv E pool'"
  using assms by (rule pool.run_inv)

theorem pool_invariant_witness:
  "pool_inv (example_env True) [example_spend]"
proof (rule pool_invariant)
  show "pool_inv (example_env True) []" by (simp add: pool_inv_def)
  show "fold_outcome (\<lambda>pool op. pool_step (example_env True) op pool) [] [PoolAdd example_spend] =
      Ok [example_spend]"
    using example_valid by (simp add: pool_add_Ok_iff from_defaults_def transaction_valid_def)
      (simp add: example_spend_def spend_def Let_def)
qed

text \<open>
  \<open>TransactionUnconfirmedPool::prune\<close> never completes a removal: it returns the pool unchanged
  when every input of every transaction is unspent, and runs into undefined behaviour (use of the
  inputs of an erased transaction) whenever there is a transaction to remove.
\<close>

theorem pool_prune_never_removes:
  "pool_prune us pool =
     (if list_all (\<lambda>t. spent_keys t \<subseteq> utxo_key ` set us) pool then Ok pool else Undef)"
  by (rule pool_prune_iff)

text \<open>
  \<open>TransactionUnconfirmedPool::remove\<close> on a pool with distinct hashes removes exactly the
  transaction with the given hash, unless that transaction is the last of the pool, where the
  loop increments the end iterator.
\<close>

theorem pool_remove_spec:
  assumes "distinct (map t_hash pool)"
  shows "pool_remove pool t =
    (if pool \<noteq> [] \<and> t_hash (last pool) = t_hash t then Undef
     else Ok (filter (\<lambda>t'. t_hash t' \<noteq> t_hash t) pool))"
  unfolding pool_remove_def
  using erase_loop_unique [OF assms, of "\<lambda>t'. t_hash t' = t_hash t" "t_hash t"] by simp

theorem pool_remove_spec_witness:
  "pool_remove [example_spend, example_double_spend] example_spend = Ok [example_double_spend]"
proof -
  have "t_hash example_spend \<noteq> t_hash example_double_spend"
    by (simp add: example_spend_def example_double_spend_def spend_def Let_def
        transaction_determine_hash_def transaction_hash_input_def example_output_def dec.simps)
  with pool_remove_spec [of "[example_spend, example_double_spend]" example_spend]
  show ?thesis by simp
qed

end
