(* ===== verification/Node.thy ===== *)
theory Node
  imports Blockchain Ledger
begin

text \<open>
  The class \<open>Node\<close> of \<open>src/node.cc\<close> in its build with transactions, and the peer list of
  \<open>include/web/websocket_peer.h\<close>: the state a node keeps, its HTTP and WebSocket handlers with every
  exception they catch and rethrow, the messages they send and the threads they detach. Each
  handler runs to completion before the next; log output is left out.
\<close>

section \<open>Model: state\<close>

text \<open>
  The outside of a node: the libraries and configuration (\<open>w_env\<close>), connecting to a peer, opening
  and writing a file, parsing JSON text, and growing a vector. \<open>w_write\<close> is \<open>None\<close> when everything reaches
  the file and otherwise the number of characters before the failure; \<open>w_in_place k m\<close>: a vector of the
  blocks grows from \<open>k\<close> to \<open>m\<close> elements without moving them.
\<close>

record 'j world =
  w_env :: "'j env"
  w_connect :: "string \<Rightarrow> u16 \<Rightarrow> unit outcome"
  w_open :: "string \<Rightarrow> bool"
  w_write :: "string \<Rightarrow> nat option"
  w_parse :: "string \<Rightarrow> 'j outcome"
  w_in_place :: "nat \<Rightarrow> nat \<Rightarrow> bool"

abbreviation w_api :: "'j world \<Rightarrow> 'j json_api" where
  "w_api W \<equiv> api (w_env W)"

text \<open>A call of \<open>detach\<close>: a member function that will run on its own thread.\<close>

datatype thread = Broadcast_latest_block | Request_latest_block nat | Request_all_blocks nat

text \<open>
  Besides the members of the class, \<open>n_threads\<close> lists the threads detached so far, \<open>n_sent\<close> the
  messages handed to peers (by peer id) and \<open>n_files\<close> the files written.
\<close>

record 'j node =
  n_blockchain :: "transaction_list blockchain"
  n_unspent_outputs :: "utxo list"
  n_unconfirmed_pool :: "transaction list"
  n_peers :: "(string \<times> u16) list"
  n_host :: string
  n_port :: u16
  n_threads :: "thread list"
  n_sent :: "(nat \<times> 'j) list"
  n_files :: "string \<rightharpoonup> string"

section \<open>Model: peers\<close>

text \<open>Adding a peer constructs its client, which resolves, connects and shakes hands.\<close>

definition peers_add ::
    "'j world \<Rightarrow> string \<Rightarrow> u16 \<Rightarrow> (string \<times> u16) list \<Rightarrow> (nat, (string \<times> u16) list) call" where
  "peers_add W host port ps =
     (case w_connect W host port of
        Ok _ \<Rightarrow> (Ok (length (ps @ [(host, port)])), ps @ [(host, port)])
      | Throw e \<Rightarrow> (Throw e, ps)
      | Undef \<Rightarrow> (Undef, ps))"

fun peers_find_from :: "nat \<Rightarrow> string \<Rightarrow> u16 \<Rightarrow> (string \<times> u16) list \<Rightarrow> nat" where
  "peers_find_from peer_id host port [] = 0"
| "peers_find_from peer_id host port (p # ps) =
     (if fst p = host \<and> snd p = port then peer_id
      else peers_find_from (Suc peer_id) host port ps)"

definition peers_find :: "string \<Rightarrow> u16 \<Rightarrow> (string \<times> u16) list \<Rightarrow> nat" where
  "peers_find host port ps = peers_find_from 1 host port ps"

text \<open>\<open>push_back\<close> turns the initial null value into an array; without peers it stays null.\<close>

definition peers_to_json :: "'j json_api \<Rightarrow> (string \<times> u16) list \<Rightarrow> 'j" where
  "peers_to_json J ps =
     (if ps = [] then json_null J
      else json_array J (map (\<lambda>(host, port). json_of_string J (host @ '':'' @ dec_word port)) ps))"

section \<open>Model: helpers\<close>

definition detach :: "thread \<Rightarrow> 'j node \<Rightarrow> 'j node" where
  "detach t n = n\<lparr>n_threads := n_threads n @ [t]\<rparr>"

definition apos :: "string \<Rightarrow> string" where
  "apos s = [CHR 0x27] @ s @ [CHR 0x27]"

definition malformed :: "string \<Rightarrow> 'j world \<Rightarrow> 'j \<Rightarrow> exn \<Rightarrow> string" where
  "malformed name W data e =
     ''Malformed '' @ apos name @ '' request: '' @ apos (json_dump (w_api W) data) @ '': '' @ what e"

text \<open>The \<open>catch (std::exception const &e)\<close> clauses: rethrow with the request in the text.\<close>

fun rethrow :: "exn_kind \<Rightarrow> (exn \<Rightarrow> string) \<Rightarrow> ('a, 's) call \<Rightarrow> ('a, 's) call" where
  "rethrow k msg (Ok x, s) = (Ok x, s)"
| "rethrow k msg (Throw e, s) = (Throw (Exn k (msg e)), s)"
| "rethrow k msg (Undef, s) = (Undef, s)"

definition send_to_peers :: "'j \<Rightarrow> 'j node \<Rightarrow> 'j node" where
  "send_to_peers request n =
     n\<lparr>n_sent := n_sent n @ map (\<lambda>peer_id. (peer_id, request)) [1..<Suc (length (n_peers n))]\<rparr>"

definition origin_json :: "'j json_api \<Rightarrow> 'j node \<Rightarrow> 'j" where
  "origin_json J n = json_object J
     [(''host'', json_of_string J (n_host n)), (''port'', json_of_u64 J (ucast (n_port n)))]"

definition update_unspent :: "transaction list \<Rightarrow> 'j node \<Rightarrow> (unit, 'j node) call" where
  "update_unspent ts n =
     (case unspent_update_all (n_unspent_outputs n) ts of
        Ok us \<Rightarrow> (Ok (), n\<lparr>n_unspent_outputs := us\<rparr>)
      | Throw e \<Rightarrow> (Throw e, n)
      | Undef \<Rightarrow> (Undef, n))"

definition update_pool ::
    "(transaction list \<Rightarrow> transaction list outcome) \<Rightarrow> 'j node \<Rightarrow> (unit, 'j node) call" where
  "update_pool f n =
     (case f (n_unconfirmed_pool n) of
        Ok pool \<Rightarrow> (Ok (), n\<lparr>n_unconfirmed_pool := pool\<rparr>)
      | Throw e \<Rightarrow> (Throw e, n)
      | Undef \<Rightarrow> (Undef, n))"

definition prune_pool :: "'j node \<Rightarrow> (unit, 'j node) call" where
  "prune_pool n = update_pool (pool_prune (n_unspent_outputs n)) n"

fun remove_from_pool :: "transaction list \<Rightarrow> 'j node \<Rightarrow> (unit, 'j node) call" where
  "remove_from_pool [] n = (Ok (), n)"
| "remove_from_pool (t # ts) n =
     then_call (update_pool (\<lambda>pool. pool_remove pool t) n) (\<lambda>_ n. remove_from_pool ts n)"

definition blockchain_setup :: "'j node \<Rightarrow> (unit, 'j node) call" where
  "blockchain_setup n =
     then_call (update_unspent (concat (map b_data (m_blocks (n_blockchain n))))
       (n\<lparr>n_unspent_outputs := unspent_clear (n_unspent_outputs n)\<rparr>)) (\<lambda>_ n.
     (Ok (), n\<lparr>n_unconfirmed_pool := pool_clear (n_unconfirmed_pool n)\<rparr>))"

section \<open>Model: HTTP handlers\<close>

type_synonym 'j reply = "http_status \<times> 'j"

definition handle_blocks_get :: "'j world \<Rightarrow> 'j node \<Rightarrow> ('j reply, 'j node) call" where
  "handle_blocks_get W n =
     (Ok (status_ok, chain_to_json transaction_list_ops (w_api W) (n_blockchain n)), n)"

definition handle_blocks_latest_get :: "'j world \<Rightarrow> 'j node \<Rightarrow> ('j reply, 'j node) call" where
  "handle_blocks_latest_get W n =
     (if m_blocks (n_blockchain n) = [] then (Ok (status_ok, json_null (w_api W)), n)
      else (Ok (status_ok, block_to_json transaction_list_ops (w_api W)
              (last (m_blocks (n_blockchain n)))), n))"

text \<open>The loop of \<open>POST /blocks\<close> that moves transactions out of the pool.\<close>

fun drain_pool :: "nat \<Rightarrow> transaction list \<Rightarrow> transaction list \<times> transaction list" where
  "drain_pool 0 pool = ([], pool)"
| "drain_pool (Suc k) pool =
     (if pool = [] then ([], pool)
      else (case pool_next pool of
              Ok (t, pool') \<Rightarrow> (case drain_pool k pool' of (ts, rest) \<Rightarrow> (t # ts, rest))
            | _ \<Rightarrow> ([], pool)))"

definition chain_length :: "'d blockchain \<Rightarrow> u64" where
  "chain_length c = word_of_nat (length (m_blocks c))"

text \<open>Mining on behalf of a node: no result means that the proof-of-work loop never ends.\<close>

definition construct_on_node ::
    "'j world \<Rightarrow> (nat \<Rightarrow> time_point) \<Rightarrow> transaction list \<Rightarrow> 'j node \<Rightarrow> (unit, 'j node) call option" where
  "construct_on_node W clk ts n =
     map_option (\<lambda>(r, c). (r, n\<lparr>n_blockchain := c\<rparr>))
       (construct_next_block transaction_list_ops (w_env W) clk ts (n_blockchain n))"

definition mine_on_node ::
    "'j world \<Rightarrow> (nat \<Rightarrow> time_point) \<Rightarrow> string \<Rightarrow> 'j node \<Rightarrow> (unit, 'j node) call option" where
  "mine_on_node W clk reward_address n =
     (case drain_pool (unat (transaction_num_per_block (cfg (w_env W)))) (n_unconfirmed_pool n) of
        (popped, pool) \<Rightarrow>
          let ts = reward (w_env W) reward_address (chain_length (n_blockchain n)) # popped
          in map_option (\<lambda>r. then_call r (\<lambda>_ n.
                 then_call (update_unspent ts n) (\<lambda>_ n. prune_pool n)))
               (construct_on_node W clk ts (n\<lparr>n_unconfirmed_pool := pool\<rparr>)))"

definition handle_blocks_post ::
    "'j world \<Rightarrow> (nat \<Rightarrow> time_point) \<Rightarrow> 'j \<Rightarrow> 'j node \<Rightarrow> ('j reply, 'j node) call option" where
  "handle_blocks_post W clk data n =
     map_option (\<lambda>r. then_call
         (rethrow (HTTPError status_bad_request) (malformed ''POST /blocks'' W data) r)
         (\<lambda>_ n. (Ok (status_ok, json_null (w_api W)), detach Broadcast_latest_block n)))
       (case bind_outcome (json_at (w_api W) data ''address'') (json_get_string (w_api W)) of
          Throw e \<Rightarrow> Some (Throw e, n)
        | Undef \<Rightarrow> Some (Undef, n)
        | Ok reward_address \<Rightarrow> mine_on_node W clk reward_address n)"

text \<open>Opening the file truncates it, so a write that fails leaves a beginning of the text.\<close>

definition handle_blocks_persist_post ::
    "'j world \<Rightarrow> 'j \<Rightarrow> 'j node \<Rightarrow> ('j reply, 'j node) call" where
  "handle_blocks_persist_post W data n =
     then_call (rethrow (HTTPError status_bad_request) (malformed ''POST /blocks/persist'' W data)
       (then_call (bind_outcome (json_at (w_api W) data ''file'') (json_get_string (w_api W)), n) (\<lambda>file n.
          if \<not> w_open W file then (Throw (Exn Runtime_error ''failed to open file''), n)
          else let dump = json_dump (w_api W) (chain_to_json transaction_list_ops (w_api W) (n_blockchain n))
                 @ [CHR 0x0A]
            in case w_write W file of
                 None \<Rightarrow> (Ok (), n\<lparr>n_files := (n_files n)(file \<mapsto> dump)\<rparr>)
               | Some k \<Rightarrow> (Throw (Exn Runtime_error ''failed to write to file''),
                   n\<lparr>n_files := (n_files n)(file \<mapsto> take k dump)\<rparr>))))
       (\<lambda>_ n. (Ok (status_ok, json_null (w_api W)), n))"

definition handle_peers_get :: "'j world \<Rightarrow> 'j node \<Rightarrow> ('j reply, 'j node) call" where
  "handle_peers_get W n = (Ok (status_ok, peers_to_json (w_api W) (n_peers n)), n)"

definition peer_address :: "'j json_api \<Rightarrow> 'j \<Rightarrow> (string \<times> u16) outcome" where
  "peer_address J j =
     bind_outcome (bind_outcome (json_at J j ''host'') (json_get_string J)) (\<lambda>host.
     bind_outcome (bind_outcome (json_at J j ''port'') (json_get_u16 J)) (\<lambda>port.
       Ok (host, port)))"

definition add_peer :: "'j world \<Rightarrow> string \<Rightarrow> u16 \<Rightarrow> 'j node \<Rightarrow> (nat, 'j node) call" where
  "add_peer W host port n =
     (case peers_add W host port (n_peers n) of (r, ps) \<Rightarrow> (r, n\<lparr>n_peers := ps\<rparr>))"

text \<open>Connecting to the peer happens after the \<open>try\<close> block.\<close>

definition handle_peers_post :: "'j world \<Rightarrow> 'j \<Rightarrow> 'j node \<Rightarrow> ('j reply, 'j node) call" where
  "handle_peers_post W data n =
     then_call (rethrow (HTTPError status_bad_request) (malformed ''POST /peers'' W data)
       (peer_address (w_api W) data, n)) (\<lambda>(host, port) n.
     then_call (add_peer W host port n) (\<lambda>peer_id n.
     (Ok (status_ok, json_null (w_api W)), detach (Request_latest_block peer_id) n)))"

definition handle_transactions_latest_get :: "'j world \<Rightarrow> 'j node \<Rightarrow> ('j reply, 'j node) call" where
  "handle_transactions_latest_get W n =
     (if m_blocks (n_blockchain n) = [] then (Ok (status_ok, json_null (w_api W)), n)
      else (Ok (status_ok, transaction_list_to_json (w_api W)
              (b_data (last (m_blocks (n_blockchain n))))), n))"

definition broadcast_transaction :: "'j world \<Rightarrow> transaction \<Rightarrow> 'j node \<Rightarrow> 'j node" where
  "broadcast_transaction W t n = send_to_peers (json_object (w_api W)
     [(''target'', json_of_string (w_api W) ''/receive-transaction''),
      (''data'', transaction_to_json (w_api W) t)]) n"

definition handle_transactions_post :: "'j world \<Rightarrow> 'j \<Rightarrow> 'j node \<Rightarrow> ('j reply, 'j node) call" where
  "handle_transactions_post W data n =
     then_call (rethrow (HTTPError status_bad_request)
         (malformed ''POST /transactions/unconfirmed'' W data)
       (then_call (transaction_from_json (w_api W) data, n) (\<lambda>t n.
          let t = update_unspent_outputs (n_unspent_outputs n) t
          in then_call (update_pool (\<lambda>pool. pool_add (w_env W) pool t) n) (\<lambda>_ n.
             (Ok (), broadcast_transaction W t n)))))
       (\<lambda>_ n. (Ok (status_ok, json_null (w_api W)), n))"

definition handle_transactions_unconfirmed_get :: "'j world \<Rightarrow> 'j node \<Rightarrow> ('j reply, 'j node) call" where
  "handle_transactions_unconfirmed_get W n =
     (Ok (status_ok, pool_to_json (w_api W) (n_unconfirmed_pool n)), n)"

definition handle_transactions_unspent_get :: "'j world \<Rightarrow> 'j node \<Rightarrow> ('j reply, 'j node) call" where
  "handle_transactions_unspent_get W n =
     (Ok (status_ok, unspent_to_json (w_api W) (n_unspent_outputs n)), n)"

section \<open>Model: WebSocket handlers\<close>

definition handle_request_latest_block :: "'j world \<Rightarrow> 'j node \<Rightarrow> ('j, 'j node) call" where
  "handle_request_latest_block W n =
     (if m_blocks (n_blockchain n) = [] then (Throw (Exn WebSocketError ''Blockchain is empty''), n)
      else (Ok (json_object (w_api W)
              [(''block'', block_to_json transaction_list_ops (w_api W) (last (m_blocks (n_blockchain n)))),
               (''origin'', origin_json (w_api W) n)]), n))"

definition handle_request_all_blocks :: "'j world \<Rightarrow> 'j node \<Rightarrow> ('j, 'j node) call" where
  "handle_request_all_blocks W n =
     (Ok (json_object (w_api W)
        [(''blockchain'', chain_to_json transaction_list_ops (w_api W) (n_blockchain n)),
         (''origin'', origin_json (w_api W) n)]), n)"

text \<open>The block after its transactions have been linked to the unspent outputs of the node.\<close>

definition link_block :: "utxo list \<Rightarrow> transaction_list block \<Rightarrow> transaction_list block" where
  "link_block us b = b\<lparr>b_data := map (update_unspent_outputs us) (b_data b)\<rparr>"

definition append_on_node ::
    "'j world \<Rightarrow> time_point \<Rightarrow> transaction_list block \<Rightarrow> 'j node \<Rightarrow> (unit, 'j node) call" where
  "append_on_node W now b n =
     (case append_next_block transaction_list_ops (w_env W) now b (n_blockchain n) of
        (r, c) \<Rightarrow> (r, n\<lparr>n_blockchain := c\<rparr>))"

text \<open>The branch for a block with an index beyond the end of the chain: ask its origin for more.\<close>

definition ask_origin :: "'j world \<Rightarrow> 'j \<Rightarrow> 'j node \<Rightarrow> (unit, 'j node) call" where
  "ask_origin W data n =
     then_call (rethrow WebSocketError (\<lambda>e. ''Malformed '' @ apos ''receive_latest_block'' @ '' request: '' @
           apos (json_dump (w_api W) data) @ what e)
         (bind_outcome (json_at (w_api W) data ''origin'') (peer_address (w_api W)), n)) (\<lambda>(host, port) n.
     then_call (if peers_find host port (n_peers n) = 0 then add_peer W host port n
                else (Ok (peers_find host port (n_peers n)), n)) (\<lambda>peer_id n.
     (Ok (), detach (Request_all_blocks peer_id) n)))"

text \<open>
  Where a valid block goes: \<open>Some b\<close> when control reaches the end of the \<open>try\<close> block of
  \<open>handle_receive_latest_block\<close>, \<open>None\<close> when the handler returns because the block is ignored.
\<close>

definition place_block ::
    "'j world \<Rightarrow> time_point \<Rightarrow> 'j \<Rightarrow> transaction_list block \<Rightarrow> 'j node \<Rightarrow>
     (transaction_list block option, 'j node) call" where
  "place_block W now data b n =
     (if chain_length (n_blockchain n) < b_index b
      then then_call (ask_origin W data n) (\<lambda>_ n. (Ok (Some b), n))
      else if b_index b = chain_length (n_blockchain n)
      then then_call
        (if m_blocks (n_blockchain n) = [] then Ok (is_genesis b)
         else is_successor_of (w_env W) b (last (m_blocks (n_blockchain n))), n) (\<lambda>next n.
           if next then then_call (append_on_node W now b n) (\<lambda>_ n. (Ok (Some b), n))
           else (Ok None, n))
      else (Ok None, n))"

text \<open>The \<open>try\<close> block; \<open>clk 0\<close> and \<open>clk 1\<close> are the clock readings of the two checks of the block.\<close>

definition receive_block ::
    "'j world \<Rightarrow> (nat \<Rightarrow> time_point) \<Rightarrow> 'j \<Rightarrow> 'j node \<Rightarrow>
     (transaction_list block option, 'j node) call" where
  "receive_block W clk data n =
     then_call (bind_outcome (json_at (w_api W) data ''block'')
         (block_from_json transaction_list_ops (w_api W)), n) (\<lambda>b n.
     let b = link_block (n_unspent_outputs n) b
     in then_call (block_valid transaction_list_ops (w_env W) (clk 0) b, n) (\<lambda>(b_valid, b_error) n.
        if \<not> b_valid
        then (Throw (Exn WebSocketError (''Invalid block: '' @
                apos (json_dump (w_api W) (block_to_json transaction_list_ops (w_api W) b)) @
                '': '' @ b_error)), n)
        else place_block W (clk 1) data b n))"

text \<open>After the \<open>try\<close> block the transactions of the block are applied, on every path that reaches it.\<close>

definition handle_receive_latest_block ::
    "'j world \<Rightarrow> (nat \<Rightarrow> time_point) \<Rightarrow> 'j \<Rightarrow> 'j node \<Rightarrow> ('j, 'j node) call" where
  "handle_receive_latest_block W clk data n =
     then_call (rethrow WebSocketError (malformed ''receive_latest_block'' W data)
       (receive_block W clk data n)) (\<lambda>received n.
     case received of
       None \<Rightarrow> (Ok (json_null (w_api W)), n)
     | Some b \<Rightarrow>
         then_call (update_unspent (b_data b) n) (\<lambda>_ n.
         then_call (remove_from_pool (b_data b) n) (\<lambda>_ n.
         then_call (prune_pool n) (\<lambda>_ n. (Ok (json_null (w_api W)), n)))))"

text \<open>\<open>clk\<close> is read while the chain is loaded, \<open>clk'\<close> while it is validated.\<close>

definition receive_chain ::
    "'j world \<Rightarrow> (nat \<Rightarrow> time_point) \<Rightarrow> (nat \<Rightarrow> time_point) \<Rightarrow> 'j \<Rightarrow>
     transaction_list blockchain outcome" where
  "receive_chain W clk clk' data =
     bind_outcome (bind_outcome (json_at (w_api W) data ''blockchain'')
         (chain_from_json transaction_list_ops (w_env W) clk)) (\<lambda>bc.
     bind_outcome (chain_valid transaction_list_ops (w_env W) clk' bc) (\<lambda>(bc_valid, bc_error).
       if \<not> bc_valid
       then Throw (Exn WebSocketError (''Invalid blockchain: '' @
              apos (json_dump (w_api W) (chain_to_json transaction_list_ops (w_api W) bc)) @
              '': '' @ bc_error))
       else Ok bc))"

definition handle_receive_all_blocks ::
    "'j world \<Rightarrow> (nat \<Rightarrow> time_point) \<Rightarrow> (nat \<Rightarrow> time_point) \<Rightarrow> 'j \<Rightarrow> 'j node \<Rightarrow> ('j, 'j node) call" where
  "handle_receive_all_blocks W clk clk' data n =
     then_call (rethrow WebSocketError (malformed ''receive_all_blocks'' W data)
       (receive_chain W clk clk' data, n)) (\<lambda>bc n.
     then_call (chain_greater (w_env W) bc (n_blockchain n), n) (\<lambda>greater n.
       if greater
       then then_call (blockchain_setup (n\<lparr>n_blockchain := bc\<rparr>)) (\<lambda>_ n.
              (Ok (json_null (w_api W)), n))
       else (Ok (json_null (w_api W)), n)))"

text \<open>An exception of \<open>add\<close> is logged only.\<close>

definition handle_receive_transaction :: "'j world \<Rightarrow> 'j \<Rightarrow> 'j node \<Rightarrow> ('j, 'j node) call" where
  "handle_receive_transaction W data n =
     then_call (rethrow WebSocketError (malformed ''receive_transaction'' W data)
       (transaction_from_json (w_api W) data, n)) (\<lambda>t n.
     case update_pool (\<lambda>pool. pool_add (w_env W) pool
            (update_unspent_outputs (n_unspent_outputs n) t)) n of
       (Undef, n) \<Rightarrow> (Undef, n)
     | (_, n) \<Rightarrow> (Ok (json_null (w_api W)), n))"

section \<open>Model: detached threads\<close>

definition broadcast_latest_block :: "'j world \<Rightarrow> 'j node \<Rightarrow> (unit, 'j node) call" where
  "broadcast_latest_block W n =
     then_call (latest_block (n_blockchain n), n) (\<lambda>b n.
       (Ok (), send_to_peers (json_object (w_api W)
          [(''target'', json_of_string (w_api W) ''/receive-latest-block''),
           (''data'', json_object (w_api W)
              [(''block'', block_to_json transaction_list_ops (w_api W) b),
               (''origin'', origin_json (w_api W) n)])]) n))"

definition request_latest_block :: "'j world \<Rightarrow> nat \<Rightarrow> 'j node \<Rightarrow> 'j node" where
  "request_latest_block W peer_id n = n\<lparr>n_sent := n_sent n @ [(peer_id, json_object (w_api W)
     [(''target'', json_of_string (w_api W) ''/request-latest-block'')])]\<rparr>"

definition request_all_blocks :: "'j world \<Rightarrow> nat \<Rightarrow> 'j node \<Rightarrow> 'j node" where
  "request_all_blocks W peer_id n = n\<lparr>n_sent := n_sent n @ [(peer_id, json_object (w_api W)
     [(''target'', json_of_string (w_api W) ''/request-all-blocks'')])]\<rparr>"

text \<open>The callbacks of the two requests; \<open>catch (...)\<close> drops every exception.\<close>

fun swallow :: "('a, 's) call \<Rightarrow> (unit, 's) call" where
  "swallow (Undef, s) = (Undef, s)"
| "swallow (_, s) = (Ok (), s)"

definition on_latest_block_answer ::
    "'j world \<Rightarrow> (nat \<Rightarrow> time_point) \<Rightarrow> bool \<Rightarrow> string \<Rightarrow> 'j node \<Rightarrow> (unit, 'j node) call" where
  "on_latest_block_answer W clk success answer n =
     (if success
      then swallow (then_call (w_parse W answer, n) (handle_receive_latest_block W clk))
      else (Ok (), n))"

definition on_all_blocks_answer ::
    "'j world \<Rightarrow> (nat \<Rightarrow> time_point) \<Rightarrow> (nat \<Rightarrow> time_point) \<Rightarrow> bool \<Rightarrow> string \<Rightarrow> 'j node \<Rightarrow>
     (unit, 'j node) call" where
  "on_all_blocks_answer W clk clk' success answer n =
     (if success
      then swallow (then_call (w_parse W answer, n) (handle_receive_all_blocks W clk clk'))
      else (Ok (), n))"

section \<open>Events\<close>

text \<open>Everything that can change a node, with the clock readings it uses.\<close>

datatype 'j event =
    Blocks_post "nat \<Rightarrow> time_point" 'j
  | Blocks_persist_post 'j
  | Peers_post 'j
  | Transactions_post 'j
  | Receive_latest_block "nat \<Rightarrow> time_point" 'j
  | Receive_all_blocks "nat \<Rightarrow> time_point" "nat \<Rightarrow> time_point" 'j
  | Receive_transaction 'j
  | Run_thread thread
  | Latest_block_answer "nat \<Rightarrow> time_point" bool string
  | All_blocks_answer "nat \<Rightarrow> time_point" "nat \<Rightarrow> time_point" bool string

fun run_thread :: "'j world \<Rightarrow> thread \<Rightarrow> 'j node \<Rightarrow> (unit, 'j node) call" where
  "run_thread W Broadcast_latest_block n = broadcast_latest_block W n"
| "run_thread W (Request_latest_block peer_id) n = (Ok (), request_latest_block W peer_id n)"
| "run_thread W (Request_all_blocks peer_id) n = (Ok (), request_all_blocks W peer_id n)"

text \<open>
  The state after an event is the state at the end of the handler, whether it returned or threw;
  there is none when the behaviour is undefined or mining never ends.
\<close>

fun settle :: "('a, 's) call \<Rightarrow> 's outcome" where
  "settle (Undef, s) = Undef"
| "settle (_, s) = Ok s"

fun node_step :: "'j world \<Rightarrow> 'j event \<Rightarrow> 'j node \<Rightarrow> 'j node outcome" where
  "node_step W (Blocks_post clk data) n =
     (case handle_blocks_post W clk data n of None \<Rightarrow> Undef | Some r \<Rightarrow> settle r)"
| "node_step W (Blocks_persist_post data) n = settle (handle_blocks_persist_post W data n)"
| "node_step W (Peers_post data) n = settle (handle_peers_post W data n)"
| "node_step W (Transactions_post data) n = settle (handle_transactions_post W data n)"
| "node_step W (Receive_latest_block clk data) n = settle (handle_receive_latest_block W clk data n)"
| "node_step W (Receive_all_blocks clk clk' data) n =
     settle (handle_receive_all_blocks W clk clk' data n)"
| "node_step W (Receive_transaction data) n = settle (handle_receive_transaction W data n)"
| "node_step W (Run_thread t) n = settle (run_thread W t n)"
| "node_step W (Latest_block_answer clk success answer) n =
     settle (on_latest_block_answer W clk success answer n)"
| "node_step W (All_blocks_answer clk clk' success answer) n =
     settle (on_all_blocks_answer W clk clk' success answer n)"

section \<open>Reasoning about handlers\<close>

text \<open>A property of the state holds after a call, normal or exceptional.\<close>

definition after :: "('s \<Rightarrow> bool) \<Rightarrow> ('a, 's) call \<Rightarrow> bool" where
  "after P m \<longleftrightarrow> fst m = Undef \<or> P (snd m)"

named_theorems after_intros \<open>rules that establish a property of the state after a call\<close>

lemma after_pair [simp]: "after P (r, n) \<longleftrightarrow> r = Undef \<or> P n"
  by (simp add: after_def)

lemma after_then [after_intros]:
  assumes "after P m" and "\<And>x n. P n \<Longrightarrow> after P (f x n)"
  shows "after P (then_call m f)"
  using assms by (induction m f rule: then_call.induct) auto

lemma after_rethrow [simp]: "after P (rethrow k msg m) \<longleftrightarrow> after P m"
  by (induction k msg m rule: rethrow.induct) auto

lemma after_swallow [simp]: "after P (swallow m) \<longleftrightarrow> after P m"
  by (induction m rule: swallow.induct) auto

lemma after_settle: "after P m \<Longrightarrow> settle m = Ok n \<Longrightarrow> P n"
  by (induction m rule: settle.induct) auto

lemma drain_pool_take_drop: "drain_pool k pool = (take k pool, drop k pool)"
proof (induction k arbitrary: pool)
  case (Suc k)
  then show ?case by (cases pool) simp_all
qed simp

text \<open>The invariant of a node: its chain can be produced by the chain operations, and the pool is
  bounded, valid and free of conflicts.\<close>

definition node_inv :: "'j world \<Rightarrow> 'j node \<Rightarrow> bool" where
  "node_inv W n \<longleftrightarrow>
     chain_reachable transaction_list_ops (w_env W) (n_blockchain n) \<and>
     pool_inv (w_env W) (n_unconfirmed_pool n)"

lemma node_inv_irrelevant [simp]:
  "node_inv W (n\<lparr>n_unspent_outputs := us\<rparr>) \<longleftrightarrow> node_inv W n"
  "node_inv W (n\<lparr>n_peers := ps\<rparr>) \<longleftrightarrow> node_inv W n"
  "node_inv W (n\<lparr>n_files := fs\<rparr>) \<longleftrightarrow> node_inv W n"
  "node_inv W (n\<lparr>n_sent := ms\<rparr>) \<longleftrightarrow> node_inv W n"
  "node_inv W (detach t n) \<longleftrightarrow> node_inv W n"
  "node_inv W (send_to_peers j n) \<longleftrightarrow> node_inv W n"
  "node_inv W (broadcast_transaction W' tx n) \<longleftrightarrow> node_inv W n"
  by (simp_all add: node_inv_def detach_def send_to_peers_def broadcast_transaction_def)

lemma update_unspent_inv [after_intros]: "node_inv W n \<Longrightarrow> after (node_inv W) (update_unspent ts n)"
  by (auto simp: update_unspent_def split: outcome.split)

lemma update_pool_inv:
  assumes "node_inv W n"
    and "\<And>pool'. f (n_unconfirmed_pool n) = Ok pool' \<Longrightarrow> pool_inv (w_env W) pool'"
  shows "after (node_inv W) (update_pool f n)"
  using assms by (auto simp: update_pool_def node_inv_def split: outcome.split)

lemma pool_ops_inv:
  assumes "pool_inv E pool"
  shows "pool_add E pool t = Ok pool' \<Longrightarrow> pool_inv E pool'"
    "pool_remove pool t = Ok pool' \<Longrightarrow> pool_inv E pool'"
    "pool_prune us pool = Ok pool' \<Longrightarrow> pool_inv E pool'"
  using pool_step_inv [OF assms, of "PoolAdd t" pool'] pool_step_inv [OF assms, of "PoolRemove t" pool']
    pool_step_inv [OF assms, of "PoolPrune us" pool'] by simp_all

lemma pool_calls_inv [after_intros]:
  assumes "node_inv W n"
  shows "after (node_inv W) (update_pool (\<lambda>pool. pool_add (w_env W) pool t) n)"
    and "after (node_inv W) (update_pool (\<lambda>pool. pool_remove pool t) n)"
    and "after (node_inv W) (prune_pool n)"
proof -
  have "pool_inv (w_env W) (n_unconfirmed_pool n)" using assms by (simp add: node_inv_def)
  note pool_ops_inv [OF this]
  then show "after (node_inv W) (update_pool (\<lambda>pool. pool_add (w_env W) pool t) n)"
    "after (node_inv W) (update_pool (\<lambda>pool. pool_remove pool t) n)"
    "after (node_inv W) (prune_pool n)"
    unfolding prune_pool_def by (blast intro: update_pool_inv [OF assms])+
qed

lemma remove_from_pool_inv [after_intros]:
  "node_inv W n \<Longrightarrow> after (node_inv W) (remove_from_pool ts n)"
proof (induction ts arbitrary: n)
  case (Cons t ts)
  show ?case
    unfolding remove_from_pool.simps by (rule after_then) (use Cons in \<open>auto intro: pool_calls_inv\<close>)
qed simp

lemma pool_inv_Nil [simp]: "pool_inv E []"
  by (simp add: pool_inv_def)

lemma blockchain_setup_inv:
  "node_inv W n \<Longrightarrow> after (node_inv W) (blockchain_setup n)"
  by (simp add: blockchain_setup_def update_unspent_def node_inv_def pool_clear_def split: outcome.split)

lemma add_peer_inv [after_intros]: "node_inv W n \<Longrightarrow> after (node_inv W) (add_peer W' host port n)"
  by (simp add: add_peer_def split: prod.split)

lemma ask_origin_inv [after_intros]: "node_inv W n \<Longrightarrow> after (node_inv W) (ask_origin W' data n)"
  by (auto simp: ask_origin_def intro!: after_intros)

lemma append_on_node_inv [after_intros]:
  "node_inv W n \<Longrightarrow> after (node_inv W) (append_on_node W now b n)"
  by (auto simp: append_on_node_def node_inv_def intro: chain_reachable.received_block split: prod.split)

lemma construct_on_node_inv:
  "node_inv W n \<Longrightarrow> construct_on_node W clk ts n = Some r \<Longrightarrow> after (node_inv W) r"
  by (auto simp: construct_on_node_def node_inv_def intro: chain_reachable.mined_block)

lemma mine_on_node_inv:
  assumes "node_inv W n" and "mine_on_node W clk address n = Some r"
  shows "after (node_inv W) r"
proof -
  let ?k = "unat (transaction_num_per_block (cfg (w_env W)))"
  let ?n = "n\<lparr>n_unconfirmed_pool := drop ?k (n_unconfirmed_pool n)\<rparr>"
  let ?ts = "reward (w_env W) address (chain_length (n_blockchain n)) # take ?k (n_unconfirmed_pool n)"
  have pool: "node_inv W ?n"
    using assms(1) pool_inv_subseq [OF _ suffix_imp_subseq [OF suffix_drop]]
    by (auto simp: node_inv_def)
  show ?thesis
  proof (cases "construct_on_node W clk ?ts ?n")
    case None
    with assms(2) show ?thesis by (simp add: mine_on_node_def drain_pool_take_drop Let_def)
  next
    case (Some r')
    with assms(2) have "r = then_call r' (\<lambda>_ n. then_call (update_unspent ?ts n) (\<lambda>_ n. prune_pool n))"
      by (simp add: mine_on_node_def drain_pool_take_drop Let_def)
    with construct_on_node_inv [OF pool Some] show ?thesis
      by (auto intro: after_then update_unspent_inv pool_calls_inv)
  qed
qed

lemma handle_blocks_post_inv:
  assumes "node_inv W n" and "handle_blocks_post W clk data n = Some r"
  shows "after (node_inv W) r"
proof (cases "bind_outcome (json_at (w_api W) data ''address'') (json_get_string (w_api W))")
  case (Ok address)
  show ?thesis
  proof (cases "mine_on_node W clk address n")
    case (Some r')
    then have "after (node_inv W) r'" by (rule mine_on_node_inv [OF assms(1)])
    with Ok Some assms(2) show ?thesis by (auto simp: handle_blocks_post_def intro!: after_then)
  qed (use assms(2) Ok in \<open>simp add: handle_blocks_post_def\<close>)
qed (use assms in \<open>auto simp: handle_blocks_post_def\<close>)

lemma receive_block_inv: "node_inv W n \<Longrightarrow> after (node_inv W) (receive_block W clk data n)"
  unfolding receive_block_def place_block_def Let_def by (auto intro!: after_intros)

lemma handle_receive_latest_block_inv:
  "node_inv W n \<Longrightarrow> after (node_inv W) (handle_receive_latest_block W clk data n)"
  unfolding handle_receive_latest_block_def
  by (auto intro!: after_intros receive_block_inv split: option.split)

lemma receive_chain_reachable:
  "receive_chain W clk clk' data = Ok bc \<Longrightarrow> chain_reachable transaction_list_ops (w_env W) bc"
  by (auto simp: receive_chain_def outcome_simps split: if_splits intro: chain_from_json_reachable)

lemma handle_receive_all_blocks_inv:
  assumes "node_inv W n"
  shows "after (node_inv W) (handle_receive_all_blocks W clk clk' data n)"
proof (cases "receive_chain W clk clk' data")
  case (Ok bc)
  then have "after (node_inv W) (blockchain_setup (n\<lparr>n_blockchain := bc\<rparr>))"
    using assms receive_chain_reachable by (intro blockchain_setup_inv) (auto simp: node_inv_def)
  with Ok assms show ?thesis
    by (cases "chain_greater (w_env W) bc (n_blockchain n)")
      (auto simp: handle_receive_all_blocks_def intro: after_intros)
qed (use assms in \<open>simp_all add: handle_receive_all_blocks_def\<close>)

lemma handle_transactions_post_inv:
  "node_inv W n \<Longrightarrow> after (node_inv W) (handle_transactions_post W data n)"
  unfolding handle_transactions_post_def Let_def by (auto intro!: after_intros)

lemma handle_receive_transaction_inv:
  assumes "node_inv W n"
  shows "after (node_inv W) (handle_receive_transaction W data n)"
proof -
  have "after (node_inv W) (case update_pool (\<lambda>pool. pool_add (w_env W) pool t) n of
      (Undef, n) \<Rightarrow> (Undef, n) | (_, n) \<Rightarrow> (Ok (json_null (w_api W)), n))"
    if "node_inv W n" for n :: "'a node" and t
    using pool_calls_inv(1) [OF that, of t] by (auto split: prod.split outcome.split)
  with assms show ?thesis
    unfolding handle_receive_transaction_def by (auto intro!: after_intros)
qed

lemma handle_peers_post_inv: "node_inv W n \<Longrightarrow> after (node_inv W) (handle_peers_post W' data n)"
  unfolding handle_peers_post_def by (auto intro!: after_intros)

lemma handle_blocks_persist_post_inv:
  "node_inv W n \<Longrightarrow> after (node_inv W) (handle_blocks_persist_post W' data n)"
  unfolding handle_blocks_persist_post_def Let_def by (auto intro!: after_intros split: option.split)

lemma run_thread_inv: "node_inv W n \<Longrightarrow> after (node_inv W) (run_thread W' t n)"
  by (cases t) (auto simp: broadcast_latest_block_def request_latest_block_def request_all_blocks_def
      intro!: after_intros)

lemma answers_inv:
  assumes "node_inv W n"
  shows "after (node_inv W) (on_latest_block_answer W clk success answer n)"
    and "after (node_inv W) (on_all_blocks_answer W clk clk' success answer n)"
  using assms handle_receive_latest_block_inv handle_receive_all_blocks_inv
  by (auto simp: on_latest_block_answer_def on_all_blocks_answer_def intro!: after_then)

lemma node_step_inv: "node_inv W n \<Longrightarrow> node_step W ev n = Ok n' \<Longrightarrow> node_inv W n'"
  by (cases ev) (auto split: option.splits intro: after_settle handle_blocks_post_inv
      handle_blocks_persist_post_inv handle_peers_post_inv handle_transactions_post_inv
      handle_receive_latest_block_inv handle_receive_all_blocks_inv handle_receive_transaction_inv
      run_thread_inv answers_inv)

interpretation node: invariant_machine "node_inv W" "node_step W" for W :: "'j world"
  by unfold_locales (rule node_step_inv)

section \<open>Unspent outputs and the chain\<close>

definition confirmed :: "'d list blockchain \<Rightarrow> 'd list" where
  "confirmed c = concat (map b_data (m_blocks c))"

text \<open>The unspent outputs of the node are those of the transactions in its chain.\<close>

definition synced :: "'j node \<Rightarrow> bool" where
  "synced n \<longleftrightarrow> unspent_update_all [] (confirmed (n_blockchain n)) = Ok (n_unspent_outputs n)"

text \<open>A received block with an index beyond the end of the chain.\<close>

definition ahead :: "'j world \<Rightarrow> 'j \<Rightarrow> 'j node \<Rightarrow> bool" where
  "ahead W data n \<longleftrightarrow>
     (case bind_outcome (json_at (w_api W) data ''block'')
             (block_from_json transaction_list_ops (w_api W)) of
        Ok b \<Rightarrow> chain_length (n_blockchain n) < b_index b
      | _ \<Rightarrow> False)"

fun runs_ahead :: "'j world \<Rightarrow> 'j event \<Rightarrow> 'j node \<Rightarrow> bool" where
  "runs_ahead W (Receive_latest_block clk data) n \<longleftrightarrow> ahead W data n"
| "runs_ahead W (Latest_block_answer clk success answer) n \<longleftrightarrow>
     success \<and> (case w_parse W answer of Ok data \<Rightarrow> ahead W data n | _ \<Rightarrow> False)"
| "runs_ahead W ev n \<longleftrightarrow> False"

lemma synced_irrelevant [simp]:
  "synced (n\<lparr>n_unconfirmed_pool := pool\<rparr>) \<longleftrightarrow> synced n"
  "synced (n\<lparr>n_peers := ps\<rparr>) \<longleftrightarrow> synced n"
  "synced (n\<lparr>n_files := fs\<rparr>) \<longleftrightarrow> synced n"
  "synced (n\<lparr>n_sent := ms\<rparr>) \<longleftrightarrow> synced n"
  "synced (detach th n) \<longleftrightarrow> synced n"
  "synced (send_to_peers j n) \<longleftrightarrow> synced n"
  "synced (broadcast_transaction W' tx n) \<longleftrightarrow> synced n"
  by (simp_all add: synced_def detach_def send_to_peers_def broadcast_transaction_def)

lemma bind_outcome_Throw_iff:
  "bind_outcome m f = Throw e \<longleftrightarrow> m = Throw e \<or> (\<exists>x. m = Ok x \<and> f x = Throw e)"
  by (cases m) auto

lemma unspent_update_all_no_throw: "unspent_update_all us ts \<noteq> Throw e"
proof -
  have "erase_spent is us \<noteq> Throw e" for "is" us
    by (induction "is" arbitrary: us) (auto simp: erase_loop_no_throw bind_outcome_Throw_iff)
  then have "unspent_update us t \<noteq> Throw e" for us t by (simp add: unspent_update_def)
  then have "fold_outcome unspent_update us ts \<noteq> Throw e"
    by (induction ts arbitrary: us) (auto simp: bind_outcome_Throw_iff)
  then show ?thesis by (simp add: unspent_update_all_def)
qed

lemma unspent_update_all_append:
  "unspent_update_all us ts = Ok us' \<Longrightarrow>
     unspent_update_all us (ts @ ts') = unspent_update_all us' ts'"
  by (simp add: unspent_update_all_def fold_outcome_append)

text \<open>The chain grew by one block; applying its transactions restores the correspondence.\<close>

lemma synced_update_unspent:
  assumes "synced n0" and "n_unspent_outputs n = n_unspent_outputs n0"
    and "m_blocks (n_blockchain n) = m_blocks (n_blockchain n0) @ [b]"
  shows "after synced (update_unspent (b_data b) n)"
  using assms unspent_update_all_append [of "[]" "confirmed (n_blockchain n0)" _ "b_data b"]
  by (auto simp: update_unspent_def synced_def confirmed_def unspent_update_all_no_throw
      split: outcome.split)

lemma synced_same:
  "synced n0 \<Longrightarrow> n_unspent_outputs n = n_unspent_outputs n0 \<Longrightarrow>
     m_blocks (n_blockchain n) = m_blocks (n_blockchain n0) \<Longrightarrow> synced n"
  by (simp add: synced_def confirmed_def)

lemma pool_calls_synced:
  assumes "synced n"
  shows "after synced (update_pool f n)" and "after synced (prune_pool n)"
  using assms by (auto simp: update_pool_def prune_pool_def split: outcome.split)

lemma remove_from_pool_synced: "synced n \<Longrightarrow> after synced (remove_from_pool ts n)"
proof (induction ts arbitrary: n)
  case (Cons t ts)
  show ?case
    unfolding remove_from_pool.simps by (rule after_then) (use Cons in \<open>auto intro: pool_calls_synced\<close>)
qed simp

lemma mine_on_node_synced:
  assumes "synced n" and "mine_on_node W clk address n = Some r"
  shows "after synced r"
proof -
  let ?k = "unat (transaction_num_per_block (cfg (w_env W)))"
  let ?n = "n\<lparr>n_unconfirmed_pool := drop ?k (n_unconfirmed_pool n)\<rparr>"
  let ?ts = "reward (w_env W) address (chain_length (n_blockchain n)) # take ?k (n_unconfirmed_pool n)"
  from assms(2) obtain q c where con: "construct_next_block transaction_list_ops (w_env W) clk ?ts
      (n_blockchain n) = Some (q, c)"
    by (auto simp: mine_on_node_def construct_on_node_def drain_pool_take_drop Let_def)
  with assms(2) have r: "r = then_call (q, ?n\<lparr>n_blockchain := c\<rparr>) (\<lambda>_ n.
      then_call (update_unspent ?ts n) (\<lambda>_ n. prune_pool n))"
    by (simp add: mine_on_node_def construct_on_node_def drain_pool_take_drop Let_def)
  show ?thesis
  proof (cases "q = Ok ()")
    case True
    with con obtain b where "m_blocks c = m_blocks (n_blockchain n) @ [b]" "b_data b = ?ts"
      by (auto elim: construct_next_block_Ok)
    with synced_update_unspent [OF assms(1), of "?n\<lparr>n_blockchain := c\<rparr>" b] True r show ?thesis
      by (auto intro: after_then pool_calls_synced)
  next
    case False
    with construct_next_block_other [OF con] assms(1) r show ?thesis
      by (cases q) (auto simp: synced_def confirmed_def)
  qed
qed

lemma handle_blocks_post_synced:
  assumes "synced n" and "handle_blocks_post W clk data n = Some r"
  shows "after synced r"
proof (cases "bind_outcome (json_at (w_api W) data ''address'') (json_get_string (w_api W))")
  case (Ok address)
  show ?thesis
  proof (cases "mine_on_node W clk address n")
    case (Some r')
    then have "after synced r'" by (rule mine_on_node_synced [OF assms(1)])
    with Ok Some assms(2) show ?thesis by (auto simp: handle_blocks_post_def intro!: after_then)
  qed (use assms(2) Ok in \<open>simp add: handle_blocks_post_def\<close>)
qed (use assms in \<open>auto simp: handle_blocks_post_def\<close>)

text \<open>What the \<open>try\<close> block of \<open>handle_receive_latest_block\<close> has done to the chain.\<close>

definition received :: "'j node \<Rightarrow> transaction_list block option outcome \<Rightarrow> 'j node \<Rightarrow> bool" where
  "received n r n' \<longleftrightarrow> n_unspent_outputs n' = n_unspent_outputs n \<and>
     m_blocks (n_blockchain n') = m_blocks (n_blockchain n) @
       (case r of Ok (Some b) \<Rightarrow> [b] | _ \<Rightarrow> [])"

lemma append_on_node_received:
  assumes "append_on_node W now b n = (r, n')"
  shows "received n (map_outcome_val (\<lambda>_. Some b) r) n'"
  using assms append_next_block_blocks
  by (cases r) (force simp: append_on_node_def received_def split: prod.splits)+

text \<open>A property of result and state after a call.\<close>

definition post :: "('a outcome \<Rightarrow> 's \<Rightarrow> bool) \<Rightarrow> ('a, 's) call \<Rightarrow> bool" where
  "post Q m \<longleftrightarrow> fst m = Undef \<or> Q (fst m) (snd m)"

lemma post_pair [simp]: "post Q (r, n) \<longleftrightarrow> r = Undef \<or> Q r n"
  by (simp add: post_def)

lemma post_then:
  assumes "\<And>x. m = Ok x \<Longrightarrow> post Q (f x s)" and "\<And>e. Q (Throw e) s"
  shows "post Q (then_call (m, s) f)"
  using assms by (cases m) simp_all

lemma place_block_received:
  assumes "\<not> chain_length (n_blockchain n) < b_index b"
  shows "post (received n) (place_block W now data b n)"
proof -
  have app: "post (received n) (then_call (append_on_node W now b n) (\<lambda>_ n. (Ok (Some b), n)))"
    using append_on_node_received [of W now b n]
    by (cases "append_on_node W now b n"; cases "fst (append_on_node W now b n)") auto
  have "post (received n) (then_call (q, n) (\<lambda>next n.
      if next then then_call (append_on_node W now b n) (\<lambda>_ n. (Ok (Some b), n)) else (Ok None, n)))" for q
    by (rule post_then) (use app in \<open>auto simp: received_def\<close>)
  with assms show ?thesis by (simp add: place_block_def received_def)
qed

lemma receive_block_received:
  assumes "\<not> ahead W data n"
  shows "post (received n) (receive_block W clk data n)"
  unfolding receive_block_def
proof (rule post_then, unfold Let_def, rule post_then)
  fix b0 v
  assume "bind_outcome (json_at (w_api W) data ''block'')
      (block_from_json transaction_list_ops (w_api W)) = Ok b0"
  with assms have "\<not> chain_length (n_blockchain n) < b_index (link_block (n_unspent_outputs n) b0)"
    by (simp add: ahead_def link_block_def)
  note place_block_received [OF this]
  then show "post (received n) ((\<lambda>(b_valid, b_error) n'. if \<not> b_valid
      then (Throw (Exn WebSocketError (''Invalid block: '' @ apos (json_dump (w_api W)
          (block_to_json transaction_list_ops (w_api W) (link_block (n_unspent_outputs n) b0))) @
        '': '' @ b_error)), n')
      else place_block W (clk 1) data (link_block (n_unspent_outputs n) b0) n') v n)"
    by (cases v) (simp add: received_def)
qed (simp_all add: received_def)

lemma handle_receive_latest_block_synced:
  assumes "synced n" and "\<not> ahead W data n"
  shows "after synced (handle_receive_latest_block W clk data n)"
proof -
  obtain r n1 where r: "receive_block W clk data n = (r, n1)" by fastforce
  with receive_block_received [OF assms(2), of clk] have rec: "r = Undef \<or> received n r n1" by simp
  show ?thesis
  proof (cases r)
    case (Ok ob)
    show ?thesis
    proof (cases ob)
      case None
      with Ok rec assms(1) r show ?thesis
        by (auto simp: handle_receive_latest_block_def received_def intro: synced_same)
    next
      case (Some b)
      with Ok rec have "after synced (update_unspent (b_data b) n1)"
        by (intro synced_update_unspent [OF assms(1)]) (simp_all add: received_def)
      with Ok Some r show ?thesis
        by (auto simp: handle_receive_latest_block_def
            intro!: after_then remove_from_pool_synced pool_calls_synced)
    qed
  qed (use rec r assms(1) in \<open>auto simp: handle_receive_latest_block_def received_def intro: synced_same\<close>)
qed

lemma blockchain_setup_synced: "after synced (blockchain_setup n)"
  by (auto simp: blockchain_setup_def update_unspent_def synced_def confirmed_def unspent_clear_def
      unspent_update_all_no_throw split: outcome.split)

lemma handle_receive_all_blocks_synced:
  assumes "synced n"
  shows "after synced (handle_receive_all_blocks W clk clk' data n)"
  using assms blockchain_setup_synced unfolding handle_receive_all_blocks_def
  by (auto intro!: after_then)

lemma other_handlers_synced:
  assumes "synced n"
  shows "after synced (handle_transactions_post W data n)"
    and "after synced (handle_receive_transaction W data n)"
    and "after synced (handle_peers_post W data n)"
    and "after synced (handle_blocks_persist_post W data n)"
    and "after synced (run_thread W t n)"
proof -
  show "after synced (handle_transactions_post W data n)"
    unfolding handle_transactions_post_def Let_def using assms
    by (auto intro!: after_then pool_calls_synced)
  have "after synced (case update_pool f n of (Undef, n) \<Rightarrow> (Undef, n) | (_, n) \<Rightarrow> (Ok (json_null (w_api W)), n))"
    if "synced n" for n :: "'a node" and f
    using pool_calls_synced(1) [OF that, of f] by (auto split: prod.split outcome.split)
  with assms show "after synced (handle_receive_transaction W data n)"
    unfolding handle_receive_transaction_def by (auto intro!: after_then)
  have "after synced (add_peer W host port n)" if "synced n" for host port and n :: "'a node"
    using that by (simp add: add_peer_def split: prod.split)
  with assms show "after synced (handle_peers_post W data n)"
    unfolding handle_peers_post_def by (auto intro!: after_then)
  show "after synced (handle_blocks_persist_post W data n)"
    unfolding handle_blocks_persist_post_def Let_def using assms by (auto intro!: after_then split: option.split)
  show "after synced (run_thread W t n)" using assms
    by (cases t) (auto simp: broadcast_latest_block_def request_latest_block_def request_all_blocks_def
        intro!: after_then)
qed

lemma node_step_synced:
  assumes "synced n" and "\<not> runs_ahead W ev n" and "node_step W ev n = Ok n'"
  shows "synced n'"
proof (cases ev)
  case (Latest_block_answer clk success answer)
  with assms(1,2) have "after synced (on_latest_block_answer W clk success answer n)"
    by (cases "w_parse W answer")
      (auto simp: on_latest_block_answer_def intro: handle_receive_latest_block_synced)
  with Latest_block_answer assms(3) show ?thesis by (auto intro: after_settle)
next
  case (All_blocks_answer clk clk' success answer)
  with assms(1) have "after synced (on_all_blocks_answer W clk clk' success answer n)"
    by (auto simp: on_all_blocks_answer_def intro!: after_then handle_receive_all_blocks_synced)
  with All_blocks_answer assms(3) show ?thesis by (auto intro: after_settle)
qed (use assms in \<open>auto split: option.splits intro: after_settle handle_blocks_post_synced
    other_handlers_synced handle_receive_latest_block_synced handle_receive_all_blocks_synced\<close>)

text \<open>Steps that do not receive a block ahead of the chain keep the correspondence.\<close>

definition guarded_step :: "'j world \<Rightarrow> 'j event \<Rightarrow> 'j node \<Rightarrow> 'j node outcome" where
  "guarded_step W ev n = (if runs_ahead W ev n then Undef else node_step W ev n)"

interpretation synced_node: invariant_machine synced "guarded_step W" for W :: "'j world"
  by unfold_locales (auto simp: guarded_step_def intro: node_step_synced split: if_splits)

section \<open>Exceptions\<close>

lemma then_call_Throw_iff:
  "then_call m f = (Throw e, n') \<longleftrightarrow>
     m = (Throw e, n') \<or> (\<exists>x n. m = (Ok x, n) \<and> f x n = (Throw e, n'))"
  by (induction m f rule: then_call.induct) auto

lemma rethrow_Throw: "rethrow k msg m = (Throw e, n') \<Longrightarrow> kind e = k"
  by (induction k msg m rule: rethrow.induct) auto

lemma update_no_throw:
  "update_unspent ts n \<noteq> (Throw e, n')" "prune_pool n \<noteq> (Throw e, n')"
  "update_pool (\<lambda>pool. pool_remove pool t) n \<noteq> (Throw e, n')"
  by (auto simp: update_unspent_def unspent_update_all_no_throw prune_pool_def update_pool_def
      pool_prune_iff pool_remove_def erase_loop_no_throw split: outcome.splits if_splits)

lemma remove_from_pool_no_throw: "remove_from_pool ts n \<noteq> (Throw e, n')"
  by (induction ts n rule: remove_from_pool.induct) (auto simp: then_call_Throw_iff update_no_throw)

lemma add_peer_Throw: "add_peer W host port n = (Throw e, n') \<Longrightarrow> w_connect W host port = Throw e"
  by (auto simp: add_peer_def peers_add_def split: outcome.splits prod.splits)

lemma pool_calls_keep:
  "update_pool f n = (r, n') \<Longrightarrow>
     n_blockchain n' = n_blockchain n \<and> n_unspent_outputs n' = n_unspent_outputs n"
  "prune_pool n = (r, n') \<Longrightarrow>
     n_blockchain n' = n_blockchain n \<and> n_unspent_outputs n' = n_unspent_outputs n"
  "remove_from_pool ts n = (r, n') \<Longrightarrow>
     n_blockchain n' = n_blockchain n \<and> n_unspent_outputs n' = n_unspent_outputs n"
proof -
  show pool: "n_blockchain n' = n_blockchain n \<and> n_unspent_outputs n' = n_unspent_outputs n"
    if "update_pool f n = (r, n')" for f r and n n' :: "'a node"
    using that by (auto simp: update_pool_def split: outcome.splits)
  show "prune_pool n = (r, n') \<Longrightarrow>
      n_blockchain n' = n_blockchain n \<and> n_unspent_outputs n' = n_unspent_outputs n"
    unfolding prune_pool_def by (rule pool)
  show "remove_from_pool ts n = (r, n') \<Longrightarrow>
      n_blockchain n' = n_blockchain n \<and> n_unspent_outputs n' = n_unspent_outputs n"
  proof (induction ts arbitrary: n)
    case (Cons t ts)
    obtain q n1 where q: "update_pool (\<lambda>pool. pool_remove pool t) n = (q, n1)" by fastforce
    with Cons pool [OF q] show ?case by (cases q) auto
  qed simp
qed

lemma update_unspent_linked:
  "unspent_update_all us (map (update_unspent_outputs us') ts) = unspent_update_all us ts"
proof -
  have "unspent_update us (update_unspent_outputs us' t) = unspent_update us t" for us t
    by (simp add: unspent_update_def new_unspent_def update_unspent_outputs_def)
  then have "fold_outcome unspent_update us (map (update_unspent_outputs us') ts) =
      fold_outcome unspent_update us ts" for us
    by (induction ts arbitrary: us) simp_all
  then show ?thesis by (simp add: unspent_update_all_def)
qed

section \<open>An example node\<close>

definition example_world :: "jval world" where
  "example_world = \<lparr>w_env = example_env False, w_connect = (\<lambda>_ _. Ok ()), w_open = (\<lambda>_. True),
     w_write = (\<lambda>_. None), w_parse = (\<lambda>_. json_syntax_error), w_in_place = (\<lambda>_ _. False)\<rparr>"

definition example_node :: "jval node" where
  "example_node = \<lparr>n_blockchain = blockchain_init from_defaults, n_unspent_outputs = [example_utxo],
     n_unconfirmed_pool = [], n_peers = [(''10.0.0.1'', 8333)], n_host = ''10.0.0.2'', n_port = 8333,
     n_threads = [], n_sent = [], n_files = Map.empty\<rparr>"

lemma example_world_simps [simp]: "w_env example_world = example_env False"
  by (simp add: example_world_def)

lemma example_node_inv: "node_inv example_world example_node"
proof -
  have "chain_reachable transaction_list_ops (example_env False) (blockchain_init from_defaults)"
    using chain_reachable.start [of transaction_list_ops "example_env False"] by simp
  then show ?thesis by (simp add: node_inv_def example_node_def)
qed

lemma example_link: "update_unspent_outputs [example_utxo] (update_unspent_outputs [] example_spend) = example_spend"
  by (simp add: update_unspent_outputs_def example_spend_def spend_def Let_def)

lemma example_receive_transaction:
  "handle_receive_transaction example_world (transaction_to_json jval_api example_spend) example_node =
     (Ok JNull, example_node\<lparr>n_unconfirmed_pool := [example_spend]\<rparr>)"
proof -
  have "pool_add (example_env False) [] example_spend = Ok [example_spend]"
    by (simp add: pool_add_Ok_iff example_spend_valid)
  then show ?thesis
    by (simp add: handle_receive_transaction_def jval.transaction_roundtrip update_pool_def example_link
        example_node_def) (simp add: jval_api_def)
qed

section \<open>Properties\<close>

text \<open>
  C2. Whatever requests, messages and answers a node processes, in any order and including those
  that fail, its chain remains one that the chain operations can produce (so it stays linked), and
  its pool stays within the block size, valid and free of transactions that spend the same
  output.
\<close>

theorem node_invariant:
  assumes "node_inv W n" and "fold_outcome (\<lambda>n ev. node_step W ev n) n evs = Ok n'"
  shows "node_inv W n'"
  using assms by (rule node.run_inv)

theorem node_invariant_witness:
  "node_inv example_world (example_node\<lparr>n_unconfirmed_pool := [example_spend]\<rparr>)"
  by (rule node_invariant [OF example_node_inv,
        of "[Receive_transaction (transaction_to_json jval_api example_spend)]"])
    (simp add: example_receive_transaction)

text \<open>
  C3. The unspent outputs of a node are the result of replaying the transactions of its chain.
  Every event keeps this, whether it succeeds or throws, except the arrival of a block whose
  index lies beyond the end of the chain.
\<close>

theorem unspent_outputs_follow_chain:
  assumes "synced n" and "fold_outcome (\<lambda>n ev. guarded_step W ev n) n evs = Ok n'"
  shows "unspent_update_all [] (confirmed (n_blockchain n')) = Ok (n_unspent_outputs n')"
  using synced_node.run_inv [OF assms] by (simp add: synced_def)

theorem unspent_outputs_follow_chain_witness:
  "unspent_update_all [] (confirmed (n_blockchain (example_node\<lparr>n_unspent_outputs := []\<rparr>))) =
     Ok (n_unspent_outputs (example_node\<lparr>n_unspent_outputs := []\<rparr>))"
proof (rule unspent_outputs_follow_chain)
  show "synced (example_node\<lparr>n_unspent_outputs := []\<rparr>)"
    by (simp add: synced_def confirmed_def example_node_def unspent_update_all_def)
  show "fold_outcome (\<lambda>n ev. guarded_step example_world ev n) (example_node\<lparr>n_unspent_outputs := []\<rparr>)
      [Transactions_post JNull] = Ok (example_node\<lparr>n_unspent_outputs := []\<rparr>)"
    by (simp add: guarded_step_def handle_transactions_post_def transaction_from_json_def
        transaction_type_from_json_def json_get_def jval_api_def)
qed

text \<open>
  C29. A block ahead of the chain is not appended, but its transactions are applied to the unspent
  outputs all the same: a peer that is already known can so create outputs that no block of
  the chain contains.
\<close>

theorem ahead_block_is_applied:
  assumes "bind_outcome (json_at (w_api W) data ''block'')
      (block_from_json transaction_list_ops (w_api W)) = Ok b"
    and "chain_length (n_blockchain n) < b_index b"
    and "block_valid transaction_list_ops (w_env W) (clk 0) (link_block (n_unspent_outputs n) b) = Ok (True, [])"
    and "bind_outcome (json_at (w_api W) data ''origin'') (peer_address (w_api W)) = Ok (host, port)"
    and "peers_find host port (n_peers n) \<noteq> 0"
    and "handle_receive_latest_block W clk data n = (Ok j, n')"
  shows "n_blockchain n' = n_blockchain n \<and>
    unspent_update_all (n_unspent_outputs n) (b_data b) = Ok (n_unspent_outputs n')"
proof -
  let ?b = "link_block (n_unspent_outputs n) b"
  have "ask_origin W data n = (Ok (), detach (Request_all_blocks (peers_find host port (n_peers n))) n)"
    using assms(4,5) by (simp add: ask_origin_def)
  with assms(1-3) have "receive_block W clk data n =
      (Ok (Some ?b), detach (Request_all_blocks (peers_find host port (n_peers n))) n)"
    by (simp add: receive_block_def place_block_def link_block_def)
  with assms(6) obtain n1 n2 where
    u: "update_unspent (b_data ?b) (detach (Request_all_blocks (peers_find host port (n_peers n))) n) = (Ok (), n1)"
    and r: "remove_from_pool (b_data ?b) n1 = (Ok (), n2)" and p: "prune_pool n2 = (Ok (), n')"
    by (auto simp: handle_receive_latest_block_def outcome_simps)
  from u pool_calls_keep(2) [OF p] pool_calls_keep(3) [OF r] show ?thesis
    by (auto simp: update_unspent_def detach_def link_block_def update_unspent_linked split: outcome.splits)
qed

text \<open>A block with index 5 and a reward for the attacker, sent to a node with an empty chain.\<close>

definition forged_block :: "transaction_list block" where
  "forged_block = (let b = \<lparr>b_data = [reward (example_env False) ''mallory'' 5], b_timestamp = 1000,
     b_nonce = 0, b_index = 5, b_hash_prev = None, b_hash = []\<rparr>
   in b\<lparr>b_hash := block_determine_hash transaction_list_ops (example_env False) b\<rparr>)"

definition forged_message :: jval where
  "forged_message = JObject [(''block'', block_to_json transaction_list_ops jval_api forged_block),
     (''origin'', JObject [(''host'', JString ''10.0.0.1''), (''port'', JUnsigned 8333)])]"

lemma forged_parsed:
  "bind_outcome (json_at jval_api forged_message ''block'')
     (block_from_json transaction_list_ops jval_api) = Ok forged_block"
proof -
  have "json_at jval_api forged_message ''block'' = Ok (block_to_json transaction_list_ops jval_api forged_block)"
    by (simp add: forged_message_def jval_api_def)
  moreover have "strip_block (map (update_unspent_outputs [])) forged_block = forged_block"
    by (simp add: strip_block_def forged_block_def Let_def update_unspent_outputs_def reward_def)
  ultimately show ?thesis by (simp add: jval.transactions_block_roundtrip)
qed

lemma link_block_simps [simp]:
  "b_data (link_block us b) = map (update_unspent_outputs us) (b_data b)"
  "b_timestamp (link_block us b) = b_timestamp b" "b_index (link_block us b) = b_index b"
  "b_hash_prev (link_block us b) = b_hash_prev b" "b_hash (link_block us b) = b_hash b"
  by (simp_all add: link_block_def)

lemma link_block_hash [simp]:
  "block_determine_hash transaction_list_ops E (link_block us b) =
     block_determine_hash transaction_list_ops E b"
  by (simp add: block_determine_hash_def block_hash_input_def link_block_def transaction_list_ops_def)

lemma link_reward: "fst (transaction_valid E (update_unspent_outputs us (reward E a i)))"
  by (simp add: transaction_valid_def valid_reward_def reward_def Let_def update_unspent_outputs_def
      transaction_determine_hash_def transaction_hash_input_def)

lemma reward_fields [simp]:
  "t_type (reward E a i) = REWARD" "t_index (reward E a i) = i" "t_inputs (reward E a i) = []"
  by (simp_all add: reward_def Let_def)

lemma link_fields [simp]:
  "t_type (update_unspent_outputs us t) = t_type t" "t_index (update_unspent_outputs us t) = t_index t"
  "t_inputs (update_unspent_outputs us t) = t_inputs t" "t_hash (update_unspent_outputs us t) = t_hash t"
  "t_outputs (update_unspent_outputs us t) = t_outputs t"
  by (simp_all add: update_unspent_outputs_def)

lemma forged_valid:
  "block_valid transaction_list_ops (example_env False) 1000 (link_block us forged_block) = Ok (True, [])"
proof -
  have "b_timestamp forged_block = 1000" "b_index forged_block = 5"
    "b_data forged_block = [reward (example_env False) ''mallory'' 5]"
    by (simp_all add: forged_block_def Let_def)
  moreover have "b_hash forged_block = block_determine_hash transaction_list_ops (example_env False) forged_block"
    by (simp add: forged_block_def Let_def block_determine_hash_def block_hash_input_def)
  ultimately show ?thesis
    using example_not_ahead [of False]
    by (simp add: block_valid_iff transaction_list_valid_iff link_reward)
qed

lemma forged_handled:
  "\<exists>n'. handle_receive_latest_block example_world (\<lambda>_. 1000) forged_message
     (example_node\<lparr>n_unspent_outputs := []\<rparr>) = (Ok JNull, n') \<and> length (n_unspent_outputs n') = 1"
proof -
  let ?n = "example_node\<lparr>n_unspent_outputs := []\<rparr>"
  have data: "b_data forged_block = [reward (example_env False) ''mallory'' 5]" "b_index forged_block = 5"
    by (simp_all add: forged_block_def Let_def)
  have "bind_outcome (json_at jval_api forged_message ''origin'') (peer_address jval_api) = Ok (''10.0.0.1'', 8333)"
    by (simp add: forged_message_def jval_api_def peer_address_def)
  then have "ask_origin example_world forged_message ?n = (Ok (), detach (Request_all_blocks 1) ?n)"
    by (simp add: ask_origin_def example_node_def peers_find_def)
  then have "receive_block example_world (\<lambda>_. 1000) forged_message ?n =
      (Ok (Some (link_block [] forged_block)), detach (Request_all_blocks 1) ?n)"
    using forged_parsed forged_valid [of "[]"] data
    by (simp add: receive_block_def place_block_def example_node_def chain_length_def)
  then show ?thesis
    using data
    by (simp add: handle_receive_latest_block_def update_unspent_def unspent_update_all_def
        unspent_update_def update_pool_def prune_pool_def detach_def example_node_def pool_remove_def)
      (simp add: new_unspent_def reward_def Let_def jval_api_def)
qed

theorem ahead_block_is_applied_witness:
  "\<exists>n' :: jval node. n_blockchain n' = blockchain_init from_defaults \<and>
     length (n_unspent_outputs n') = 1 \<and>
     unspent_update_all [] [reward (example_env False) ''mallory'' 5] = Ok (n_unspent_outputs n')"
proof -
  let ?n = "example_node\<lparr>n_unspent_outputs := []\<rparr>"
  obtain n' where h: "handle_receive_latest_block example_world (\<lambda>_. 1000) forged_message ?n = (Ok JNull, n')"
    and len: "length (n_unspent_outputs n') = 1"
    using forged_handled by blast
  have "n_blockchain n' = n_blockchain ?n \<and>
      unspent_update_all (n_unspent_outputs ?n) (b_data forged_block) = Ok (n_unspent_outputs n')"
  proof (rule ahead_block_is_applied [OF _ _ _ _ _ h])
    show "bind_outcome (json_at (w_api example_world) forged_message ''block'')
        (block_from_json transaction_list_ops (w_api example_world)) = Ok forged_block"
      using forged_parsed by simp
    show "chain_length (n_blockchain ?n) < b_index forged_block"
      by (simp add: chain_length_def example_node_def forged_block_def Let_def)
    show "block_valid transaction_list_ops (w_env example_world) ((\<lambda>_. 1000) 0)
        (link_block (n_unspent_outputs ?n) forged_block) = Ok (True, [])"
      using forged_valid by simp
    show "bind_outcome (json_at (w_api example_world) forged_message ''origin'')
        (peer_address (w_api example_world)) = Ok (''10.0.0.1'', 8333)"
      by (simp add: forged_message_def jval_api_def peer_address_def)
    show "peers_find ''10.0.0.1'' 8333 (n_peers ?n) \<noteq> 0"
      by (simp add: example_node_def peers_find_def)
  qed
  with len show ?thesis
    by (intro exI [of _ n']) (simp add: example_node_def forged_block_def Let_def)
qed

lemma next_block_index:
  assumes "chain_reachable D E c"
  shows "b_index (next_block D E now data c) = chain_length c"
proof (cases "m_blocks c = []")
  case False
  then have "last (m_blocks c) = m_blocks c ! (length (m_blocks c) - 1)" by (simp add: last_conv_nth)
  moreover have "linked_from D E None (m_blocks c)"
    using chain_reachable_well_formed [OF assms] by (simp add: well_formed_def)
  ultimately have "b_index (last (m_blocks c)) = word_of_nat (length (m_blocks c) - 1)"
    using False linked_from_index [of D E "m_blocks c" "length (m_blocks c) - 1"] by simp
  moreover have "(word_of_nat (length (m_blocks c)) :: u64) = word_of_nat (length (m_blocks c) - 1) + 1"
    using False by (cases "m_blocks c") simp_all
  ultimately show ?thesis using False by (simp add: last_block_def chain_length_def)
qed (simp add: last_block_def chain_length_def)

lemma construct_invalid_data:
  assumes "\<not> fst (d_valid D E data (b_index (next_block D E (clk 0) data c)))"
  shows "\<exists>msg. construct_next_block D E clk data c = Some (Throw (Exn Logic_error msg), c)"
proof -
  have "\<exists>err. block_valid D E (clk 1) (next_block D E (clk 0) data c) = Ok (False, err)"
    using assms by (auto simp: block_valid_def split: prod.split bool.split)
  then show ?thesis
    by (auto simp: construct_next_block_def [folded next_block_def] Let_def)
qed

text \<open>
  Mining takes transactions out of the pool before it validates the block. A pooled transaction
  with an index other than the next block's (any transaction left over from an earlier height)
  makes the request fail, and everything taken from the pool is lost while chain and unspent
  outputs stay as they were.
\<close>

theorem failed_mining_loses_transactions:
  assumes "node_inv W n"
    and "bind_outcome (json_at (w_api W) data ''address'') (json_get_string (w_api W)) = Ok address"
    and "t \<in> set (take (unat (transaction_num_per_block (cfg (w_env W)))) (n_unconfirmed_pool n))"
    and "t_index t \<noteq> chain_length (n_blockchain n)"
  shows "\<exists>err. handle_blocks_post W clk data n = Some (Throw (Exn (HTTPError status_bad_request) err),
    n\<lparr>n_unconfirmed_pool :=
        drop (unat (transaction_num_per_block (cfg (w_env W)))) (n_unconfirmed_pool n)\<rparr>)"
proof -
  let ?k = "unat (transaction_num_per_block (cfg (w_env W)))"
  let ?ts = "reward (w_env W) address (chain_length (n_blockchain n)) # take ?k (n_unconfirmed_pool n)"
  have "\<not> fst (transaction_list_valid (w_env W) ?ts (chain_length (n_blockchain n)))"
    using assms(3,4) by (auto simp: transaction_list_valid_iff in_set_conv_nth simp flip: nth_Cons_Suc)
  then obtain msg where "construct_next_block transaction_list_ops (w_env W) clk ?ts (n_blockchain n) =
      Some (Throw (Exn Logic_error msg), n_blockchain n)"
    using construct_invalid_data [of transaction_list_ops "w_env W" ?ts clk "n_blockchain n"]
      next_block_index [of transaction_list_ops "w_env W" "n_blockchain n"] assms(1)
    by (auto simp: node_inv_def)
  then show ?thesis
    using assms(2) by (simp add: handle_blocks_post_def mine_on_node_def construct_on_node_def
        drain_pool_take_drop Let_def)
qed

theorem failed_mining_loses_transactions_witness:
  "\<exists>err. handle_blocks_post example_world (\<lambda>_. 1000) (JObject [(''address'', JString ''bob'')])
     (example_node\<lparr>n_unconfirmed_pool := [example_spend]\<rparr>) =
     Some (Throw (Exn (HTTPError status_bad_request) err), example_node)"
proof -
  let ?n = "example_node\<lparr>n_unconfirmed_pool := [example_spend]\<rparr>"
  have "node_inv example_world ?n"
    using handle_receive_transaction_inv [OF example_node_inv] example_receive_transaction
    by (metis after_pair outcome.distinct(4))
  moreover have "t_index example_spend \<noteq> chain_length (n_blockchain ?n)"
    by (simp add: chain_length_def example_node_def example_spend_def spend_def Let_def)
  ultimately show ?thesis
    using failed_mining_loses_transactions [of example_world ?n "JObject [(''address'', JString ''bob'')]"
        "''bob''" example_spend "\<lambda>_. 1000"]
    by (simp add: jval_api_def example_node_def)
qed

text \<open>
  Every exception that leaves an HTTP handler is an \<open>HTTPError\<close> for a bad request, except that a
  failed connection to a new peer escapes from \<open>POST /peers\<close> as it is; every exception that leaves
  a WebSocket handler is a \<open>WebSocketError\<close>.
\<close>

lemma handler_exceptions:
  "(handle_blocks_post W clk data n = Some (Throw e, n') \<longrightarrow> kind e = HTTPError status_bad_request) \<and>
   (handle_blocks_persist_post W data n = (Throw e, n') \<longrightarrow> kind e = HTTPError status_bad_request) \<and>
   (handle_transactions_post W data n = (Throw e, n') \<longrightarrow> kind e = HTTPError status_bad_request) \<and>
   (handle_peers_post W data n = (Throw e, n') \<longrightarrow>
      kind e = HTTPError status_bad_request \<or> (\<exists>host port. w_connect W host port = Throw e)) \<and>
   (handle_request_latest_block W n = (Throw e, n') \<longrightarrow> kind e = WebSocketError) \<and>
   (handle_receive_latest_block W clk data n = (Throw e, n') \<longrightarrow> kind e = WebSocketError) \<and>
   (handle_receive_all_blocks W clk clk' data n = (Throw e, n') \<longrightarrow> kind e = WebSocketError) \<and>
   (handle_receive_transaction W data n = (Throw e, n') \<longrightarrow> kind e = WebSocketError)"
proof (intro conjI impI)
  show "kind e = HTTPError status_bad_request" if "handle_blocks_post W clk data n = Some (Throw e, n')"
    using that by (auto simp: handle_blocks_post_def then_call_Throw_iff dest: rethrow_Throw
        split: outcome.splits)
  show "kind e = HTTPError status_bad_request" if "handle_blocks_persist_post W data n = (Throw e, n')"
    using that by (auto simp: handle_blocks_persist_post_def then_call_Throw_iff dest: rethrow_Throw)
  show "kind e = HTTPError status_bad_request" if "handle_transactions_post W data n = (Throw e, n')"
    using that by (auto simp: handle_transactions_post_def then_call_Throw_iff dest: rethrow_Throw)
  show "kind e = HTTPError status_bad_request \<or> (\<exists>host port. w_connect W host port = Throw e)"
    if "handle_peers_post W data n = (Throw e, n')"
    using that by (auto simp: handle_peers_post_def then_call_Throw_iff dest: rethrow_Throw add_peer_Throw)
  show "kind e = WebSocketError" if "handle_request_latest_block W n = (Throw e, n')"
    using that by (auto simp: handle_request_latest_block_def split: if_splits)
  show "kind e = WebSocketError" if "handle_receive_latest_block W clk data n = (Throw e, n')"
    using that by (auto simp: handle_receive_latest_block_def then_call_Throw_iff update_no_throw
        remove_from_pool_no_throw dest: rethrow_Throw split: option.splits)
  have "chain_greater E a b \<noteq> Throw e" for E and a b :: "transaction_list blockchain"
    by (cases "m_cumulative_difficulty (m_difficulty_adjuster a)";
        cases "m_cumulative_difficulty (m_difficulty_adjuster b)")
      (simp_all add: chain_greater_def cumulative_difficulty_def Let_def)
  moreover have "blockchain_setup n \<noteq> (Throw e, n')" for n n' :: "'a node"
    by (auto simp: blockchain_setup_def then_call_Throw_iff update_no_throw)
  ultimately show "kind e = WebSocketError" if "handle_receive_all_blocks W clk clk' data n = (Throw e, n')"
    using that by (auto simp: handle_receive_all_blocks_def then_call_Throw_iff dest: rethrow_Throw
        split: if_splits)
  have "(case m of (Undef, n) \<Rightarrow> (Undef, n) | (_, n) \<Rightarrow> (Ok j, n)) \<noteq> (Throw e, n')"
    for m :: "(unit, 'a node) call" and j :: 'a
    by (cases m; cases "fst m") auto
  then show "kind e = WebSocketError" if "handle_receive_transaction W data n = (Throw e, n')"
    using that by (auto simp: handle_receive_transaction_def then_call_Throw_iff dest: rethrow_Throw)
qed

end
