(* ===== verification/Web.thy ===== *)
theory Web
  imports Node
begin

text \<open>
  The request handling of \<open>src/web/http_server.cc\<close> and \<open>src/web/websocket_server.cc\<close> between the
  socket and the handlers of \<open>Node\<close>: registration and lookup of handlers, parsing, status codes and
  error texts, the WebSocket protocol of requests and answers, and the synchronous HTTP client of
  \<open>src/web/http_client.cc\<close>. The connections around it are in \<open>Client\<close> and \<open>Servers\<close>.
\<close>

section \<open>Model: HTTP server\<close>

datatype http_method = Get | Post | Other string

definition method_string :: "http_method \<Rightarrow> string" where
  "method_string m = (case m of Get \<Rightarrow> ''GET'' | Post \<Rightarrow> ''POST'' | Other s \<Rightarrow> s)"

text \<open>A handler may run forever (mining), then it has no result.\<close>

type_synonym ('j, 'n) http_handler = "'j \<Rightarrow> 'n \<Rightarrow> ('j reply, 'n) call option"
type_synonym ('j, 'n) http_handlers = "string \<rightharpoonup> (http_method \<times> ('j, 'n) http_handler) list"

definition http_support ::
    "string \<Rightarrow> http_method \<Rightarrow> ('j, 'n) http_handler \<Rightarrow> ('j, 'n) http_handlers \<Rightarrow> ('j, 'n) http_handlers" where
  "http_support target method handler hs =
     hs(target \<mapsto> (case hs target of None \<Rightarrow> [] | Some l \<Rightarrow> l) @ [(method, handler)])"

definition http_handle ::
    "'j world \<Rightarrow> ('j, 'n) http_handlers \<Rightarrow> string \<Rightarrow> http_method \<Rightarrow> 'j \<Rightarrow> 'n \<Rightarrow>
     ('j reply, 'n) call option" where
  "http_handle W hs target method data n =
     (case hs target of
        None \<Rightarrow> Some (Ok (status_not_found, json_null (w_api W)), n)
      | Some l \<Rightarrow> (case find (\<lambda>(m, _). m = method) l of
          Some (_, handler) \<Rightarrow> handler data n
        | None \<Rightarrow> Some (Ok (status_bad_request, json_null (w_api W)), n)))"

record http_request =
  rq_target :: string
  rq_method :: http_method
  rq_content_type :: string
  rq_body :: string

record http_response =
  rs_status :: http_status
  rs_content_type :: string
  rs_body :: string

text \<open>
  Parsing the body: JSON data, or the status and text of the error response. Only \<open>json::parse_error\<close> is
  caught; a number out of range is \<open>json::out_of_range\<close> and leaves \<open>handle_request\<close>.
\<close>

definition parse_body :: "'j world \<Rightarrow> http_request \<Rightarrow> ((http_status \<times> string) + 'j) outcome" where
  "parse_body W rq =
     (if rq_body rq = [] then Ok (Inr (json_null (w_api W)))
      else if rq_content_type rq = ''application/json''
      then (case w_parse W (rq_body rq) of
              Ok data \<Rightarrow> Ok (Inr data)
            | Throw e \<Rightarrow>
                if kind e = Json_parse_error
                then Ok (Inl (status_bad_request, ''Failed to parse JSON: '' @ what e))
                else Throw e
            | Undef \<Rightarrow> Undef)
      else Ok (Inl (status_unsupported_media_type,
             ''Unsupported media type '' @ apos (rq_content_type rq))))"

definition render ::
    "'j world \<Rightarrow> http_request \<Rightarrow> http_status \<Rightarrow> string \<Rightarrow> 'j \<Rightarrow> http_response" where
  "render W rq status text answer =
     (case status of
        status_ok \<Rightarrow> \<lparr>rs_status = status, rs_content_type = ''application/json'',
            rs_body = text @ json_dump (w_api W) answer\<rparr>
      | status_not_found \<Rightarrow> \<lparr>rs_status = status, rs_content_type = ''text/plain'',
            rs_body = text @ ''File not found''\<rparr>
      | status_bad_request \<Rightarrow> \<lparr>rs_status = status, rs_content_type = ''text/plain'',
            rs_body = text @ ''Invalid request method '' @ apos (method_string (rq_method rq))\<rparr>
      | _ \<Rightarrow> \<lparr>rs_status = status, rs_content_type = ''text/plain'', rs_body = text\<rparr>)"

text \<open>Only \<open>HTTPError\<close> is caught; any other exception leaves \<open>handle_request\<close>.\<close>

fun http_catch ::
    "'j world \<Rightarrow> http_request \<Rightarrow> ('j reply, 'n) call \<Rightarrow> (http_response, 'n) call" where
  "http_catch W rq (Ok (status, answer), n) = (Ok (render W rq status [] answer), n)"
| "http_catch W rq (Throw e, n) =
     (case kind e of
        HTTPError status \<Rightarrow> (Ok (render W rq status (what e) (json_null (w_api W))), n)
      | _ \<Rightarrow> (Throw e, n))"
| "http_catch W rq (Undef, n) = (Undef, n)"

definition handle_request ::
    "'j world \<Rightarrow> ('j, 'n) http_handlers \<Rightarrow> http_request \<Rightarrow> 'n \<Rightarrow> (http_response, 'n) call option" where
  "handle_request W hs rq n =
     (case parse_body W rq of
        Undef \<Rightarrow> Some (Undef, n)
      | Throw e \<Rightarrow> Some (Throw e, n)
      | Ok (Inl (status, text)) \<Rightarrow>
          Some (Ok \<lparr>rs_status = status, rs_content_type = ''text/plain'', rs_body = text\<rparr>, n)
      | Ok (Inr data) \<Rightarrow>
          map_option (http_catch W rq) (http_handle W hs (rq_target rq) (rq_method rq) data n))"

text \<open>\<open>Node::http_setup\<close>.\<close>

definition http_setup :: "'j world \<Rightarrow> (nat \<Rightarrow> time_point) \<Rightarrow> ('j, 'j node) http_handlers" where
  "http_setup W clk =
     http_support ''/transactions/unspent'' Get (\<lambda>_ n. Some (handle_transactions_unspent_get W n))
     (http_support ''/transactions/unconfirmed'' Get (\<lambda>_ n. Some (handle_transactions_unconfirmed_get W n))
     (http_support ''/transactions'' Post (\<lambda>data n. Some (handle_transactions_post W data n))
     (http_support ''/transactions/latest'' Get (\<lambda>_ n. Some (handle_transactions_latest_get W n))
     (http_support ''/peers'' Post (\<lambda>data n. Some (handle_peers_post W data n))
     (http_support ''/peers'' Get (\<lambda>_ n. Some (handle_peers_get W n))
     (http_support ''/blocks/persist'' Post (\<lambda>data n. Some (handle_blocks_persist_post W data n))
     (http_support ''/blocks'' Post (\<lambda>data n. handle_blocks_post W clk data n)
     (http_support ''/blocks/latest'' Get (\<lambda>_ n. Some (handle_blocks_latest_get W n))
     (http_support ''/blocks'' Get (\<lambda>_ n. Some (handle_blocks_get W n)) Map.empty)))))))))"

section \<open>Model: WebSocket server\<close>

type_synonym ('j, 'n) ws_handler = "'j \<Rightarrow> 'n \<Rightarrow> ('j, 'n) call"

definition ws_support :: "string \<Rightarrow> ('j, 'n) ws_handler \<Rightarrow> (string \<rightharpoonup> ('j, 'n) ws_handler) \<Rightarrow> (string \<rightharpoonup> ('j, 'n) ws_handler)" where
  "ws_support target handler hs = hs(target \<mapsto> handler)"

definition ws_handle ::
    "'j world \<Rightarrow> (string \<rightharpoonup> ('j, 'n) ws_handler) \<Rightarrow> string \<Rightarrow> 'j \<Rightarrow> 'n \<Rightarrow> (bool \<times> 'j, 'n) call" where
  "ws_handle W hs target data n =
     (case hs target of
        None \<Rightarrow> (Ok (False, json_null (w_api W)), n)
      | Some handler \<Rightarrow> then_call (handler data n) (\<lambda>answer n. (Ok (True, answer), n)))"

definition ws_response :: "'j json_api \<Rightarrow> string \<Rightarrow> 'j \<Rightarrow> 'j" where
  "ws_response J status data = json_object J [(''status'', json_of_string J status), (''data'', data)]"

text \<open>
  \<open>index\<close> is \<open>operator[]\<close> of the JSON library on a value that is not constant: a missing key of an
  object gives null, a value that is neither object nor null throws.
\<close>

definition ws_request ::
    "'j world \<Rightarrow> ('j \<Rightarrow> string \<Rightarrow> 'j outcome) \<Rightarrow> string \<Rightarrow> (string \<times> 'j) outcome" where
  "ws_request W index buffer_data =
     bind_outcome (w_parse W buffer_data) (\<lambda>request.
     bind_outcome (bind_outcome (index request ''target'') (json_get_string (w_api W))) (\<lambda>target.
     bind_outcome (index request ''data'') (\<lambda>data. Ok (target, data))))"

definition ws_dispatch ::
    "'j world \<Rightarrow> ('j \<Rightarrow> string \<Rightarrow> 'j outcome) \<Rightarrow> (string \<rightharpoonup> ('j, 'n) ws_handler) \<Rightarrow> string \<Rightarrow> 'n \<Rightarrow>
     (bool \<times> 'j, 'n) call" where
  "ws_dispatch W index hs buffer_data n =
     then_call (ws_request W index buffer_data, n) (\<lambda>(target, data). ws_handle W hs target data)"

text \<open>\<open>json::exception\<close> is the base of \<open>json::parse_error\<close>.\<close>

definition is_json_exception :: "exn \<Rightarrow> bool" where
  "is_json_exception e \<longleftrightarrow> kind e = Json_exception \<or> kind e = Json_parse_error"

text \<open>The text sent back; exceptions other than the two that are caught leave \<open>on_read\<close>.\<close>

fun ws_catch :: "'j json_api \<Rightarrow> (bool \<times> 'j, 'n) call \<Rightarrow> (string, 'n) call" where
  "ws_catch J (Ok (found, answer), n) =
     (Ok (json_dump J (if found then ws_response J ''ok'' answer
        else ws_response J ''not ok'' (json_of_string J ''Not found''))), n)"
| "ws_catch J (Throw e, n) =
     (case kind e of
        Json_exception \<Rightarrow>
          (Ok (json_dump J (ws_response J ''not ok'' (json_of_string J ''Bad request''))), n)
      | Json_parse_error \<Rightarrow>
          (Ok (json_dump J (ws_response J ''not ok'' (json_of_string J ''Bad request''))), n)
      | WebSocketError \<Rightarrow>
          (Ok (json_dump J (ws_response J ''not ok'' (json_of_string J (what e)))), n)
      | _ \<Rightarrow> (Throw e, n))"
| "ws_catch J (Undef, n) = (Undef, n)"

definition ws_on_read ::
    "'j world \<Rightarrow> ('j \<Rightarrow> string \<Rightarrow> 'j outcome) \<Rightarrow> (string \<rightharpoonup> ('j, 'n) ws_handler) \<Rightarrow> string \<Rightarrow> 'n \<Rightarrow>
     (string, 'n) call" where
  "ws_on_read W index hs buffer_data n = ws_catch (w_api W) (ws_dispatch W index hs buffer_data n)"

text \<open>\<open>Node::websocket_setup\<close>.\<close>

definition websocket_setup ::
    "'j world \<Rightarrow> (nat \<Rightarrow> time_point) \<Rightarrow> (nat \<Rightarrow> time_point) \<Rightarrow> (string \<rightharpoonup> ('j, 'j node) ws_handler)" where
  "websocket_setup W clk clk' =
     ws_support ''/receive-transaction'' (handle_receive_transaction W)
     (ws_support ''/receive-all-blocks'' (handle_receive_all_blocks W clk clk')
     (ws_support ''/receive-latest-block'' (handle_receive_latest_block W clk)
     (ws_support ''/request-all-blocks'' (\<lambda>_. handle_request_all_blocks W)
     (ws_support ''/request-latest-block'' (\<lambda>_. handle_request_latest_block W) Map.empty))))"

section \<open>Model: WebSocket answers\<close>

text \<open>What the callback of a request receives.\<close>

definition client_on_read ::
    "'j world \<Rightarrow> ('j \<Rightarrow> string \<Rightarrow> 'j outcome) \<Rightarrow> string \<Rightarrow> bool \<times> string" where
  "client_on_read W index buffer_data =
     (case bind_outcome (w_parse W buffer_data) (\<lambda>response.
             bind_outcome (bind_outcome (index response ''status'') (json_get_string (w_api W))) (\<lambda>status.
             bind_outcome (index response ''data'') (\<lambda>data.
               if status = ''ok'' then Ok (True, json_dump (w_api W) data)
               else map_outcome_val (\<lambda>s. (False, s)) (json_get_string (w_api W) data)))) of
        Ok r \<Rightarrow> r
      | _ \<Rightarrow> (False, ''Malformed response + '' @ apos buffer_data))"

section \<open>Model: HTTP client\<close>

text \<open>
  \<open>HTTPClient::send_sync\<close>. \<open>is_empty\<close> is \<open>empty()\<close> of the JSON library; \<open>exchange\<close> writes the request and
  reads the response; the error of shutting down the socket matters unless there is none or the
  other side has already closed.
\<close>

definition http_client_request ::
    "'j world \<Rightarrow> ('j \<Rightarrow> bool) \<Rightarrow> string \<Rightarrow> http_method \<Rightarrow> 'j \<Rightarrow> http_request" where
  "http_client_request W is_empty target method data =
     (if is_empty data
      then \<lparr>rq_target = target, rq_method = method, rq_content_type = [], rq_body = []\<rparr>
      else \<lparr>rq_target = target, rq_method = method, rq_content_type = ''application/json'',
            rq_body = json_dump (w_api W) data\<rparr>)"

datatype shutdown_error = Not_connected | Other_error string

definition http_client_close :: "bool \<Rightarrow> shutdown_error option \<Rightarrow> unit outcome" where
  "http_client_close check ec =
     (case ec of
        Some (Other_error msg) \<Rightarrow> if check then Throw (Exn System_error msg) else Ok ()
      | _ \<Rightarrow> Ok ())"

definition http_client_send_sync ::
    "'j world \<Rightarrow> ('j \<Rightarrow> bool) \<Rightarrow> string \<Rightarrow> u16 \<Rightarrow> (http_request \<Rightarrow> http_response outcome) \<Rightarrow>
     shutdown_error option \<Rightarrow> string \<Rightarrow> http_method \<Rightarrow> 'j \<Rightarrow> (http_status \<times> string) outcome" where
  "http_client_send_sync W is_empty host port exchange ec target method data =
     bind_outcome (w_connect W host port) (\<lambda>_.
     bind_outcome (exchange (http_client_request W is_empty target method data)) (\<lambda>response.
     bind_outcome (http_client_close True ec) (\<lambda>_.
       Ok (rs_status response, rs_body response))))"

section \<open>Dispatch\<close>

text \<open>A handler that throws something else than an \<open>HTTPError\<close> is \<open>POST /peers\<close>.\<close>

lemma http_setup_escape:
  assumes "http_handle W (http_setup W clk) target method data n = Some (Throw e, n')"
    and "\<And>status. kind e \<noteq> HTTPError status"
  shows "target = ''/peers'' \<and> method = Post \<and> (\<exists>host port. w_connect W host port = Throw e)"
proof -
  have post: "handle_blocks_post W clk data n \<noteq> Some (Throw e, n')"
    "handle_blocks_persist_post W data n \<noteq> (Throw e, n')"
    "handle_transactions_post W data n \<noteq> (Throw e, n')"
    "handle_peers_post W data n = (Throw e, n') \<Longrightarrow> \<exists>host port. w_connect W host port = Throw e"
    using handler_exceptions [of W clk data n e n' undefined] assms(2) by blast+
  have get: "handle_blocks_get W n \<noteq> (Throw e, n')" "handle_blocks_latest_get W n \<noteq> (Throw e, n')"
    "handle_peers_get W n \<noteq> (Throw e, n')" "handle_transactions_latest_get W n \<noteq> (Throw e, n')"
    "handle_transactions_unconfirmed_get W n \<noteq> (Throw e, n')"
    "handle_transactions_unspent_get W n \<noteq> (Throw e, n')"
    by (simp_all add: handle_blocks_get_def handle_blocks_latest_get_def handle_peers_get_def
        handle_transactions_latest_get_def handle_transactions_unconfirmed_get_def
        handle_transactions_unspent_get_def)
  show ?thesis
    using assms(1) post get
    by (auto simp: http_handle_def http_setup_def http_support_def split: if_splits)
qed

lemma parse_body_Throw_iff:
  "parse_body W rq = Throw e \<longleftrightarrow> rq_content_type rq = ''application/json'' \<and> rq_body rq \<noteq> [] \<and>
     w_parse W (rq_body rq) = Throw e \<and> kind e \<noteq> Json_parse_error"
  by (auto simp: parse_body_def split: outcome.splits)

lemma handle_request_Throw:
  assumes "handle_request W hs rq n = Some (Throw e, n')"
  obtains "parse_body W rq = Throw e" "n' = n"
  | data r where "parse_body W rq = Ok (Inr data)" "http_handle W hs (rq_target rq) (rq_method rq) data n = Some r"
    "http_catch W rq r = (Throw e, n')"
proof (cases "parse_body W rq")
  case (Ok x)
  show thesis
  proof (cases x)
    case (Inl p)
    with Ok assms show thesis by (cases p) (simp add: handle_request_def)
  next
    case (Inr data)
    with Ok assms that(2) show thesis
      by (cases "http_handle W hs (rq_target rq) (rq_method rq) data n") (simp_all add: handle_request_def)
  qed
next
  case (Throw e')
  with assms that(1) show thesis by (simp add: handle_request_def)
next
  case Undef
  with assms show thesis by (simp add: handle_request_def)
qed

lemma http_catch_Throw:
  "http_catch W rq r = (Throw e, n') \<Longrightarrow> r = (Throw e, n') \<and> (\<forall>status. kind e \<noteq> HTTPError status)"
  by (induction W rq r rule: http_catch.induct) (auto split: exn_kind.splits)

lemma ws_catch_Throw:
  "ws_catch J r = (Throw e, n') \<Longrightarrow>
     r = (Throw e, n') \<and> \<not> is_json_exception e \<and> kind e \<noteq> WebSocketError"
  by (induction J r rule: ws_catch.induct) (auto simp: is_json_exception_def split: exn_kind.splits)

text \<open>
  The requests whose exception leaves \<open>handle_request\<close>: a body that is JSON text but holds a value that
  the library does not accept, and \<open>POST /peers\<close> with an address that cannot be reached.
\<close>

definition escapes :: "'j world \<Rightarrow> http_request \<Rightarrow> exn \<Rightarrow> bool" where
  "escapes W rq e \<longleftrightarrow>
     rq_content_type rq = ''application/json'' \<and> rq_body rq \<noteq> [] \<and> w_parse W (rq_body rq) = Throw e \<and>
       kind e \<noteq> Json_parse_error \<or>
     rq_target rq = ''/peers'' \<and> rq_method rq = Post \<and> (\<exists>host port. w_connect W host port = Throw e)"

lemma handle_request_escape:
  assumes "handle_request W (http_setup W clk) rq n = Some (Throw e, n')"
  shows "escapes W rq e"
  using assms
proof (cases rule: handle_request_Throw)
  case 1
  then show ?thesis by (simp add: parse_body_Throw_iff escapes_def)
next
  case (2 data r)
  from http_catch_Throw [OF 2(3)] 2(2) show ?thesis
    using http_setup_escape [of W clk "rq_target rq" "rq_method rq" data n e n'] by (simp add: escapes_def)
qed

text \<open>What the servers rely on: parsing and accessing JSON throw the library's own exceptions only.\<close>

locale json_errors =
  fixes W :: "'j world" and index :: "'j \<Rightarrow> string \<Rightarrow> 'j outcome"
  assumes parse_error: "w_parse W s = Throw e \<Longrightarrow> is_json_exception e"
    and index_error: "index j k = Throw e \<Longrightarrow> is_json_exception e"
    and string_error: "json_get_string (w_api W) j = Throw e \<Longrightarrow> is_json_exception e"
begin

lemma request_error: "ws_request W index msg = Throw e \<Longrightarrow> is_json_exception e"
  using parse_error index_error string_error by (auto simp: ws_request_def bind_outcome_Throw_iff)

lemma handler_error:
  "ws_handle W (websocket_setup W clk clk') target data m = (Throw e, n') \<Longrightarrow> kind e = WebSocketError"
  using handler_exceptions [of W clk data m e n' clk']
  by (auto simp: ws_handle_def websocket_setup_def ws_support_def then_call_Throw_iff
      handle_request_all_blocks_def split: if_splits)

lemma ws_on_read_no_throw:
  "ws_on_read W index (websocket_setup W clk clk') msg n \<noteq> (Throw e, n')"
proof
  assume "ws_on_read W index (websocket_setup W clk clk') msg n = (Throw e, n')"
  then have c: "ws_catch (w_api W) (ws_dispatch W index (websocket_setup W clk clk') msg n) = (Throw e, n')"
    by (simp add: ws_on_read_def)
  from ws_catch_Throw [OF c]
  have t: "ws_dispatch W index (websocket_setup W clk clk') msg n = (Throw e, n')"
    and k: "\<not> is_json_exception e" "kind e \<noteq> WebSocketError"
    by simp_all
  from t k show False
    using request_error handler_error
    by (cases "ws_request W index msg") (auto simp: ws_dispatch_def split: prod.splits)
qed

end

section \<open>Properties\<close>

text \<open>Non-constant \<open>operator[]\<close> on the JSON datatype, and a world in which no peer can be reached.\<close>

fun jval_index :: "jval \<Rightarrow> string \<Rightarrow> jval outcome" where
  "jval_index (JObject kvs) k = Ok (case map_of kvs k of None \<Rightarrow> JNull | Some v \<Rightarrow> v)"
| "jval_index JNull k = Ok JNull"
| "jval_index j k = json_type_error"

definition peer_json :: jval where
  "peer_json = JObject [(''host'', JString ''10.0.0.9''), (''port'', JUnsigned 8332)]"

definition isolated_world :: "jval world" where
  "isolated_world = example_world\<lparr>w_connect := \<lambda>_ _. Throw (Exn System_error ''connection refused''),
     w_parse := \<lambda>s. if s = ''peer'' then Ok peer_json else json_syntax_error\<rparr>"

interpretation isolated: json_errors isolated_world jval_index
  by unfold_locales (auto simp: isolated_world_def is_json_exception_def json_type_error_def json_syntax_error_def jval_api_def split: if_splits
      elim: jval_index.elims jval_get_string.elims)

definition reply_of :: "'j json_api \<Rightarrow> 'j outcome \<Rightarrow> 'j" where
  "reply_of J r = (case r of
     Ok answer \<Rightarrow> ws_response J ''ok'' answer
   | Throw e \<Rightarrow> ws_response J ''not ok'' (json_of_string J (what e))
   | Undef \<Rightarrow> json_null J)"

text \<open>
  A request that reaches a registered WebSocket handler is answered: when the handler returns,
  the callback of the client gets success and the text of the handler's answer, and when it throws
  a \<open>WebSocketError\<close>, failure and the text of the exception.
\<close>

theorem websocket_exchange:
  assumes "json_library (w_api W)"
    and "\<And>kvs k v. distinct (map fst kvs) \<Longrightarrow> map_of kvs k = Some v \<Longrightarrow>
      index (json_object (w_api W) kvs) k = Ok v"
    and "w_parse W text = Ok (json_object (w_api W)
      [(''target'', json_of_string (w_api W) target), (''data'', data)])"
    and "w_parse W (json_dump (w_api W) (reply_of (w_api W) r)) = Ok (reply_of (w_api W) r)"
    and "hs target = Some handler" and "handler data n = (r, n')" and "r \<noteq> Undef"
    and "\<And>e. r = Throw e \<Longrightarrow> kind e = WebSocketError"
  shows "\<exists>response. ws_on_read W index hs text n = (Ok response, n') \<and>
    client_on_read W index response =
      (case r of Ok answer \<Rightarrow> (True, json_dump (w_api W) answer) | Throw e \<Rightarrow> (False, what e))"
proof -
  have "ws_dispatch W index hs text n = then_call (r, n') (\<lambda>answer n. (Ok (True, answer), n))"
    using assms(2,3,5,6) json_library.get_string [OF assms(1)]
    by (simp add: ws_dispatch_def ws_request_def ws_handle_def)
  then have "ws_on_read W index hs text n = (Ok (json_dump (w_api W) (reply_of (w_api W) r)), n')"
    using assms(7,8) by (cases r) (simp_all add: ws_on_read_def reply_of_def)
  moreover have "client_on_read W index (json_dump (w_api W) (reply_of (w_api W) r)) =
      (case r of Ok answer \<Rightarrow> (True, json_dump (w_api W) answer) | Throw e \<Rightarrow> (False, what e))"
    using assms(2,4,7) json_library.get_string [OF assms(1)]
    by (cases r) (simp_all add: client_on_read_def reply_of_def ws_response_def)
  ultimately show ?thesis by blast
qed

definition asking_world :: "jval world" where
  "asking_world = example_world\<lparr>w_parse := \<lambda>s. if s = ''request''
     then Ok (JObject [(''target'', JString ''/request-latest-block''), (''data'', JNull)])
     else Ok (ws_response jval_api ''not ok'' (JString ''Blockchain is empty''))\<rparr>"

theorem websocket_exchange_witness:
  "\<exists>response. ws_on_read asking_world jval_index (websocket_setup asking_world (\<lambda>_. 0) (\<lambda>_. 0))
       ''request'' example_node = (Ok response, example_node) \<and>
     client_on_read asking_world jval_index response = (False, ''Blockchain is empty'')"
proof -
  let ?r = "Throw (Exn WebSocketError ''Blockchain is empty'') :: jval outcome"
  have api: "w_api asking_world = jval_api" by (simp add: asking_world_def)
  have "\<exists>response. ws_on_read asking_world jval_index (websocket_setup asking_world (\<lambda>_. 0) (\<lambda>_. 0))
       ''request'' example_node = (Ok response, example_node) \<and>
     client_on_read asking_world jval_index response = (case ?r of
       Ok answer \<Rightarrow> (True, json_dump (w_api asking_world) answer) | Throw e \<Rightarrow> (False, what e))"
  proof (rule websocket_exchange)
    show "json_library (w_api asking_world)" unfolding api by (rule jval.json_library_axioms)
    show "w_parse asking_world ''request'' = Ok (json_object (w_api asking_world)
        [(''target'', json_of_string (w_api asking_world) ''/request-latest-block''), (''data'', JNull)])"
      unfolding api by (simp add: asking_world_def jval_api_def)
    show "w_parse asking_world (json_dump (w_api asking_world) (reply_of (w_api asking_world) ?r)) =
        Ok (reply_of (w_api asking_world) ?r)"
      unfolding api by (simp add: asking_world_def reply_of_def ws_response_def jval_api_def)
    show "websocket_setup asking_world (\<lambda>_. 0) (\<lambda>_. 0) ''/request-latest-block'' =
        Some (\<lambda>_. handle_request_latest_block asking_world)"
      by (simp add: websocket_setup_def ws_support_def)
    show "handle_request_latest_block asking_world example_node = (?r, example_node)"
      by (simp add: handle_request_latest_block_def example_node_def)
  qed (simp_all add: api, simp add: jval_api_def)
  then show ?thesis by simp
qed

text \<open>
  The HTTP client and the HTTP server agree on how a request carries its data: what the client
  sends reaches the handler registered for target and method unchanged, or as null when it is empty.
\<close>

theorem http_request_arrives:
  assumes "is_empty data \<or> json_dump (w_api W) data \<noteq> [] \<and>
    w_parse W (json_dump (w_api W) data) = Ok data"
  shows "handle_request W hs (http_client_request W is_empty target method data) n =
    map_option (http_catch W (http_client_request W is_empty target method data))
      (http_handle W hs target method (if is_empty data then json_null (w_api W) else data) n)"
  using assms by (auto simp: handle_request_def http_client_request_def parse_body_def)

theorem http_request_arrives_witness:
  "handle_request isolated_world (http_setup isolated_world (\<lambda>_. 0))
     (http_client_request isolated_world (\<lambda>j. j = JNull) ''/peers'' Get JNull) example_node =
   Some (Ok \<lparr>rs_status = status_ok, rs_content_type = ''application/json'',
     rs_body = json_dump jval_api (JArray [JString ''10.0.0.1:8333''])\<rparr>, example_node)"
proof -
  have "dec 8333 = ''8333''" by (simp add: dec.simps digit_char_def, code_simp)
  then have get: "handle_peers_get isolated_world example_node =
      (Ok (status_ok, JArray [JString ''10.0.0.1:8333'']), example_node)"
    by (simp add: handle_peers_get_def peers_to_json_def example_node_def isolated_world_def jval_api_def)
  have handle: "http_handle isolated_world (http_setup isolated_world (\<lambda>_. 0)) ''/peers'' Get data n =
      Some (handle_peers_get isolated_world n)" for data n
    by (simp add: http_handle_def http_setup_def http_support_def)
  have api: "w_api isolated_world = jval_api" by (simp add: isolated_world_def)
  show ?thesis
    by (subst http_request_arrives) (simp_all add: handle get render_def api)
qed

end
