(* ===== verification/Client.thy ===== *)
theory Client
  imports Web
begin

text \<open>
  The client side of a WebSocket connection: \<open>src/web/websocket_client.cc\<close> with its send queue and
  the asynchronous operations in flight, and the wrappers of \<open>include/web/websocket_peer.h\<close>. The
  network decides how each write and each read completes; everything else is the code.
\<close>

section \<open>Model: connection\<close>

datatype completion = Failed | Completed string

text \<open>
  \<open>c_writing\<close> and \<open>c_reading\<close> hold the callback captured by the operation in flight. \<open>c_written\<close> lists the
  requests handed to the network and \<open>c_called\<close> the callbacks run so far with their arguments.
\<close>

record ('j, 'c) connection =
  m_send_queue :: "('j \<times> 'c) list"
  c_writing :: "'c option"
  c_reading :: "'c option"
  c_written :: "'j list"
  c_called :: "('c \<times> bool \<times> string) list"

definition connection_new :: "('j, 'c) connection" where
  "connection_new = \<lparr>m_send_queue = [], c_writing = None, c_reading = None, c_written = [], c_called = []\<rparr>"

text \<open>
  The stream allows one write and one read in flight; starting a second of either, like reading the
  front of an empty queue, is undefined.
\<close>

definition connection_write :: "('j, 'c) connection \<Rightarrow> ('j, 'c) connection outcome" where
  "connection_write c =
     (case m_send_queue c of
        [] \<Rightarrow> Undef
      | (request, cb) # _ \<Rightarrow>
          if c_writing c \<noteq> None then Undef
          else Ok (c\<lparr>c_writing := Some cb, c_written := c_written c @ [request]\<rparr>))"

definition connection_send :: "'j \<Rightarrow> 'c \<Rightarrow> ('j, 'c) connection \<Rightarrow> ('j, 'c) connection outcome" where
  "connection_send request cb c =
     (let c = c\<lparr>m_send_queue := m_send_queue c @ [(request, cb)]\<rparr>
      in if 1 < length (m_send_queue c) then Ok c else connection_write c)"

definition connection_read :: "'c \<Rightarrow> ('j, 'c) connection \<Rightarrow> ('j, 'c) connection outcome" where
  "connection_read cb c = (if c_reading c \<noteq> None then Undef else Ok (c\<lparr>c_reading := Some cb\<rparr>))"

definition connection_on_write :: "'c \<Rightarrow> ('j, 'c) connection \<Rightarrow> ('j, 'c) connection outcome" where
  "connection_on_write cb c =
     (if m_send_queue c = [] then Undef
      else connection_read cb (c\<lparr>m_send_queue := tl (m_send_queue c)\<rparr>))"

definition connection_on_read ::
    "'j world \<Rightarrow> ('j \<Rightarrow> string \<Rightarrow> 'j outcome) \<Rightarrow> 'c \<Rightarrow> string \<Rightarrow> ('j, 'c) connection \<Rightarrow>
     ('j, 'c) connection outcome" where
  "connection_on_read W index cb buffer_data c =
     (let c = c\<lparr>c_called := c_called c @ [(cb, client_on_read W index buffer_data)]\<rparr>
      in if m_send_queue c \<noteq> [] then connection_write c else Ok c)"

text \<open>The completion handlers passed to the stream; an error is printed and nothing follows.\<close>

definition write_done :: "completion \<Rightarrow> ('j, 'c) connection \<Rightarrow> ('j, 'c) connection outcome" where
  "write_done r c =
     (case c_writing c of
        None \<Rightarrow> Ok c
      | Some cb \<Rightarrow> (case r of
          Failed \<Rightarrow> Ok (c\<lparr>c_writing := None\<rparr>)
        | Completed _ \<Rightarrow> connection_on_write cb (c\<lparr>c_writing := None\<rparr>)))"

definition read_done ::
    "'j world \<Rightarrow> ('j \<Rightarrow> string \<Rightarrow> 'j outcome) \<Rightarrow> completion \<Rightarrow> ('j, 'c) connection \<Rightarrow>
     ('j, 'c) connection outcome" where
  "read_done W index r c =
     (case c_reading c of
        None \<Rightarrow> Ok c
      | Some cb \<Rightarrow> (case r of
          Failed \<Rightarrow> Ok (c\<lparr>c_reading := None\<rparr>)
        | Completed msg \<Rightarrow> connection_on_read W index cb msg (c\<lparr>c_reading := None\<rparr>)))"

section \<open>Model: running the event loop\<close>

text \<open>Bounds the number of completions still to come.\<close>

definition work :: "('j, 'c) connection \<Rightarrow> nat" where
  "work c = 3 * length (m_send_queue c) + (if c_reading c = None then 0 else 2) +
     (if c_writing c = None then 0 else 1)"

lemma write_done_work:
  "c_writing c \<noteq> None \<Longrightarrow> write_done r c = Ok c' \<Longrightarrow> work c' < work c"
  by (cases "m_send_queue c") (auto simp: write_done_def connection_on_write_def connection_read_def
      work_def split: completion.splits if_splits)

lemma read_done_work:
  "c_writing c = None \<Longrightarrow> c_reading c \<noteq> None \<Longrightarrow> read_done W index r c = Ok c' \<Longrightarrow> work c' < work c"
  by (cases "m_send_queue c") (auto simp: read_done_def connection_on_read_def connection_write_def
      work_def Let_def split: completion.splits if_splits)

text \<open>
  \<open>WebSocketClient::run\<close>: handles completions until no operation is in flight. The \<open>i\<close>-th completion is
  \<open>net i\<close>.
\<close>

function client_run ::
    "'j world \<Rightarrow> ('j \<Rightarrow> string \<Rightarrow> 'j outcome) \<Rightarrow> (nat \<Rightarrow> completion) \<Rightarrow> nat \<Rightarrow> ('j, 'c) connection \<Rightarrow>
     ('j, 'c) connection outcome" where
  "client_run W index net i c =
     (if c_writing c \<noteq> None
      then (case write_done (net i) c of
              Ok c' \<Rightarrow> client_run W index net (Suc i) c' | Throw e \<Rightarrow> Throw e | Undef \<Rightarrow> Undef)
      else if c_reading c \<noteq> None
      then (case read_done W index (net i) c of
              Ok c' \<Rightarrow> client_run W index net (Suc i) c' | Throw e \<Rightarrow> Throw e | Undef \<Rightarrow> Undef)
      else Ok c)"
  by pat_completeness auto

termination
  by (relation "measure (\<lambda>(W, index, net, i, c). work c)") (auto intro: write_done_work read_done_work)

declare client_run.simps [simp del]

text \<open>\<open>WebSocketPeer::send\<close>: under its lock, queue the request and run the event loop.\<close>

definition peer_send ::
    "'j world \<Rightarrow> ('j \<Rightarrow> string \<Rightarrow> 'j outcome) \<Rightarrow> (nat \<Rightarrow> completion) \<Rightarrow> 'j \<Rightarrow> 'c \<Rightarrow> ('j, 'c) connection \<Rightarrow>
     ('j, 'c) connection outcome" where
  "peer_send W index net request cb c =
     bind_outcome (connection_send request cb c) (client_run W index net 0)"

text \<open>\<open>WebSocketPeers::send\<close>: peers are numbered from 1 and indexed without a check.\<close>

definition peers_send ::
    "'j world \<Rightarrow> ('j \<Rightarrow> string \<Rightarrow> 'j outcome) \<Rightarrow> (nat \<Rightarrow> completion) \<Rightarrow> nat \<Rightarrow> 'j \<Rightarrow> 'c \<Rightarrow>
     ('j, 'c) connection list \<Rightarrow> ('j, 'c) connection list outcome" where
  "peers_send W index net peer_id request cb m_list =
     (if peer_id = 0 \<or> length m_list < peer_id then Undef
      else map_outcome_val (\<lambda>c. m_list[peer_id - 1 := c])
             (peer_send W index net request cb (m_list ! (peer_id - 1))))"

text \<open>
  \<open>WebSocketClient::send_sync\<close> waits for its own callback, named \<open>on_done\<close>: the answer it is called with, or
  none when the call waits forever.
\<close>

definition client_send_sync ::
    "'j world \<Rightarrow> ('j \<Rightarrow> string \<Rightarrow> 'j outcome) \<Rightarrow> (nat \<Rightarrow> completion) \<Rightarrow> 'j \<Rightarrow> 'c \<Rightarrow> ('j, 'c) connection \<Rightarrow>
     ((bool \<times> string) option \<times> ('j, 'c) connection) outcome" where
  "client_send_sync W index net request on_done c =
     map_outcome_val (\<lambda>c'. (map_of (drop (length (c_called c)) (c_called c')) on_done, c'))
       (peer_send W index net request on_done c)"

section \<open>One request at a time\<close>

definition idle :: "('j, 'c) connection \<Rightarrow> bool" where
  "idle c \<longleftrightarrow> c_writing c = None \<and> c_reading c = None"

definition fate :: "(nat \<Rightarrow> completion) \<Rightarrow> completion option" where
  "fate net = (case net 0 of Failed \<Rightarrow> None | Completed _ \<Rightarrow> Some (net 1))"

lemma client_run_idle [simp]: "idle c \<Longrightarrow> client_run W index net i c = Ok c"
  by (simp add: client_run.simps idle_def)

text \<open>What sending on an idle connection does, for every behaviour of the network.\<close>

lemma peer_send_spec:
  assumes "idle c"
  shows "peer_send W index net request cb c = Ok
    (if m_send_queue c \<noteq> [] then c\<lparr>m_send_queue := m_send_queue c @ [(request, cb)]\<rparr>
     else (case fate net of
         None \<Rightarrow> c\<lparr>m_send_queue := [(request, cb)], c_written := c_written c @ [request]\<rparr>
       | Some Failed \<Rightarrow> c\<lparr>c_written := c_written c @ [request]\<rparr>
       | Some (Completed msg) \<Rightarrow> c\<lparr>c_written := c_written c @ [request],
           c_called := c_called c @ [(cb, client_on_read W index msg)]\<rparr>))"
proof (cases "m_send_queue c")
  case Nil
  let ?c0 = "c\<lparr>m_send_queue := [(request, cb)], c_writing := Some cb, c_written := c_written c @ [request]\<rparr>"
  let ?c1 = "c\<lparr>c_reading := Some cb, c_written := c_written c @ [request]\<rparr>"
  have send: "connection_send request cb c = Ok ?c0"
    using assms Nil by (simp add: connection_send_def connection_write_def idle_def Let_def)
  have "client_run W index net 0 ?c0 = (case net 0 of
      Failed \<Rightarrow> Ok (c\<lparr>m_send_queue := [(request, cb)], c_written := c_written c @ [request]\<rparr>)
    | Completed _ \<Rightarrow> client_run W index net (Suc 0) ?c1)"
    using assms Nil by (cases c; subst client_run.simps)
      (simp add: write_done_def connection_on_write_def connection_read_def idle_def split: completion.split)
  moreover have "client_run W index net (Suc 0) ?c1 = (case net 1 of
      Failed \<Rightarrow> Ok (c\<lparr>c_written := c_written c @ [request]\<rparr>)
    | Completed msg \<Rightarrow> Ok (c\<lparr>c_written := c_written c @ [request],
           c_called := c_called c @ [(cb, client_on_read W index msg)]\<rparr>))"
    using assms Nil by (cases c; subst client_run.simps)
      (simp add: read_done_def connection_on_read_def idle_def Let_def split: completion.split)
  ultimately show ?thesis
    using Nil send by (simp add: peer_send_def fate_def split: completion.split)
next
  case (Cons x xs)
  then show ?thesis
    using assms by (simp add: peer_send_def connection_send_def idle_def Let_def)
qed

lemma peer_send_idle:
  assumes "idle c"
  obtains c' where "peer_send W index net request cb c = Ok c'" "idle c'"
  using assms that by (simp add: peer_send_spec idle_def split: option.splits completion.splits if_splits)

text \<open>The requests of a peer one after the other, each with the behaviour of the network during it.\<close>

fun peer_sends ::
    "'j world \<Rightarrow> ('j \<Rightarrow> string \<Rightarrow> 'j outcome) \<Rightarrow> ('j \<times> 'c \<times> (nat \<Rightarrow> completion)) list \<Rightarrow> ('j, 'c) connection \<Rightarrow>
     ('j, 'c) connection outcome" where
  "peer_sends W index [] c = Ok c"
| "peer_sends W index ((request, cb, net) # xs) c =
     bind_outcome (peer_send W index net request cb c) (peer_sends W index xs)"

definition writable :: "'j \<times> 'c \<times> (nat \<Rightarrow> completion) \<Rightarrow> bool" where
  "writable x = (case x of (_, _, net) \<Rightarrow> fate net \<noteq> None)"

fun answered ::
    "'j world \<Rightarrow> ('j \<Rightarrow> string \<Rightarrow> 'j outcome) \<Rightarrow> ('j \<times> 'c \<times> (nat \<Rightarrow> completion)) list \<Rightarrow>
     ('c \<times> bool \<times> string) list" where
  "answered W index [] = []"
| "answered W index ((_, cb, net) # xs) =
     (case fate net of Some (Completed msg) \<Rightarrow> [(cb, client_on_read W index msg)] | _ \<Rightarrow> []) @
     answered W index xs"

lemma peer_sends_stuck:
  "idle c \<Longrightarrow> m_send_queue c \<noteq> [] \<Longrightarrow>
     peer_sends W index xs c = Ok (c\<lparr>m_send_queue := m_send_queue c @ map (\<lambda>(r, cb, _). (r, cb)) xs\<rparr>)"
proof (induction xs arbitrary: c)
  case (Cons x xs)
  then show ?case by (cases x) (simp add: peer_send_spec idle_def)
qed simp

lemma peer_sends_called:
  assumes "idle c" and "m_send_queue c = []"
  shows "\<exists>c'. peer_sends W index xs c = Ok c' \<and> idle c' \<and>
    c_called c' = c_called c @ answered W index (takeWhile writable xs) \<and>
    (m_send_queue c' = [] \<longleftrightarrow> list_all writable xs)"
  using assms
proof (induction xs arbitrary: c)
  case (Cons x xs)
  obtain request cb net where x: "x = (request, cb, net)" by (cases x)
  show ?case
  proof (cases "fate net")
    case None
    with Cons.prems show ?thesis
      by (simp add: x peer_send_spec peer_sends_stuck idle_def writable_def)
  next
    case (Some r)
    let ?c = "case r of Failed \<Rightarrow> c\<lparr>c_written := c_written c @ [request]\<rparr>
       | Completed msg \<Rightarrow> c\<lparr>c_written := c_written c @ [request],
           c_called := c_called c @ [(cb, client_on_read W index msg)]\<rparr>"
    have "idle ?c" "m_send_queue ?c = []"
      using Cons.prems by (simp_all add: idle_def split: completion.split)
    from Cons.IH [OF this] Cons.prems Some show ?thesis
      by (cases r) (simp_all add: x peer_send_spec writable_def)
  qed
qed simp

section \<open>Properties\<close>

text \<open>
  C33. However the network behaves, sending requests to a peer one after the other always ends with
  no operation in flight and never starts two writes or two reads at once. The callbacks that run
  are those of the requests answered before the first failed write, in order, and the queue is
  empty exactly when no write failed: after a failed write nothing is ever sent to that peer again.
\<close>

theorem callbacks_until_write_error:
  "\<exists>c. peer_sends W index xs connection_new = Ok c \<and> idle c \<and>
     c_called c = answered W index (takeWhile writable xs) \<and>
     (m_send_queue c = [] \<longleftrightarrow> list_all writable xs)"
  using peer_sends_called [of connection_new W index xs] by (simp add: connection_new_def idle_def)

text \<open>
  A synchronous request on an idle connection returns exactly when nothing is left in the
  queue, the write succeeds and an answer is read; it then returns what the answer says. In every
  other case it waits forever.
\<close>

theorem send_sync_returns:
  assumes "idle c"
  shows "\<exists>c'. client_send_sync W index net request cb c =
    Ok (if m_send_queue c = []
        then (case fate net of Some (Completed msg) \<Rightarrow> Some (client_on_read W index msg) | _ \<Rightarrow> None)
        else None, c') \<and> idle c'"
  using assms by (auto simp: client_send_sync_def peer_send_spec idle_def split: option.split completion.split)

theorem send_sync_returns_witness:
  "fst ` {x. client_send_sync example_world (\<lambda>_ _. json_type_error) (\<lambda>_. Completed ''?'') JNull () connection_new = Ok x} =
     {Some (client_on_read example_world (\<lambda>_ _. json_type_error) ''?'')}"
  using send_sync_returns [of connection_new example_world "\<lambda>_ _. json_type_error" "\<lambda>_. Completed ''?''" JNull "()"]
  by (auto simp: idle_def connection_new_def fate_def)

text \<open>
  The queue alone does not serialise requests: it drops a request when it has been written, so one
  sent while the answer is outstanding is written at once, and when that write completes a second
  read starts while the first is in flight. The lock of \<open>WebSocketPeer::send\<close> is what prevents this.
\<close>

lemma second_request_while_waiting:
  assumes "c_reading c = Some cb" "c_writing c = None" "m_send_queue c = []"
  shows "bind_outcome (connection_send request cb' c) (write_done (Completed msg)) = Undef"
  using assms by (simp add: connection_send_def connection_write_def write_done_def connection_on_write_def
      connection_read_def Let_def)

end
