(* ===== verification/Threads.thy ===== *)
theory Threads
  imports Node
begin

text \<open>
  The threads a node detaches work: a thread that broadcasts the latest block finds one, and a
  thread that asks a peer uses the number of an existing peer. Both hold because a node's chain
  never becomes empty again and its peers are never removed.
\<close>

section \<open>Invariant\<close>

fun thread_ok :: "'j node \<Rightarrow> thread \<Rightarrow> bool" where
  "thread_ok n Broadcast_latest_block \<longleftrightarrow> m_blocks (n_blockchain n) \<noteq> []"
| "thread_ok n (Request_latest_block k) \<longleftrightarrow> 0 < k \<and> k \<le> length (n_peers n)"
| "thread_ok n (Request_all_blocks k) \<longleftrightarrow> 0 < k \<and> k \<le> length (n_peers n)"

definition threads_ok :: "'j node \<Rightarrow> bool" where
  "threads_ok n \<longleftrightarrow> list_all (thread_ok n) (n_threads n)"

text \<open>Going from one state to another keeps every thread that works.\<close>

definition keeps :: "'j node \<Rightarrow> 'j node \<Rightarrow> bool" where
  "keeps n n' \<longleftrightarrow> length (n_peers n) \<le> length (n_peers n') \<and>
     (m_blocks (n_blockchain n) \<noteq> [] \<longrightarrow> m_blocks (n_blockchain n') \<noteq> [])"

lemma thread_ok_keeps: "keeps n n' \<Longrightarrow> thread_ok n t \<Longrightarrow> thread_ok n' t"
  by (cases t) (auto simp: keeps_def)

lemma threads_ok_keeps:
  "threads_ok n \<Longrightarrow> keeps n n' \<Longrightarrow> n_threads n' = n_threads n \<Longrightarrow> threads_ok n'"
  by (auto simp: threads_ok_def list_all_iff intro: thread_ok_keeps)

lemma threads_ok_cong:
  assumes "n_blockchain n' = n_blockchain n" "n_peers n' = n_peers n" "n_threads n' = n_threads n"
  shows "threads_ok n' \<longleftrightarrow> threads_ok n"
proof -
  have "thread_ok n' t \<longleftrightarrow> thread_ok n t" for t using assms by (cases t) simp_all
  with assms(3) show ?thesis by (simp add: threads_ok_def list_all_iff)
qed

lemma threads_ok_irrelevant [simp]:
  "threads_ok (n\<lparr>n_unspent_outputs := us\<rparr>) \<longleftrightarrow> threads_ok n"
  "threads_ok (n\<lparr>n_unconfirmed_pool := pool\<rparr>) \<longleftrightarrow> threads_ok n"
  "threads_ok (n\<lparr>n_files := fs\<rparr>) \<longleftrightarrow> threads_ok n"
  "threads_ok (n\<lparr>n_sent := ms\<rparr>) \<longleftrightarrow> threads_ok n"
  "threads_ok (send_to_peers j n) \<longleftrightarrow> threads_ok n"
  "threads_ok (broadcast_transaction W' tx n) \<longleftrightarrow> threads_ok n"
  by (rule threads_ok_cong; simp add: broadcast_transaction_def send_to_peers_def)+

lemma thread_ok_detach [simp]: "thread_ok (detach t' n) t \<longleftrightarrow> thread_ok n t"
  by (cases t) (simp_all add: detach_def)

lemma detach_fields [simp]:
  "n_blockchain (detach t n) = n_blockchain n" "n_peers (detach t n) = n_peers n"
  by (simp_all add: detach_def)

lemma threads_ok_detach [simp]: "threads_ok (detach t n) \<longleftrightarrow> threads_ok n \<and> thread_ok n t"
proof -
  have "n_threads (detach t n) = n_threads n @ [t]" by (simp add: detach_def)
  then show ?thesis by (auto simp: threads_ok_def list_all_iff)
qed

section \<open>Every event keeps it\<close>

named_theorems threads_intros \<open>calls that keep the threads working\<close>

lemma update_threads [threads_intros]:
  "threads_ok n \<Longrightarrow> after threads_ok (update_unspent ts n)"
  "threads_ok n \<Longrightarrow> after threads_ok (update_pool f n)"
  "threads_ok n \<Longrightarrow> after threads_ok (prune_pool n)"
  by (auto simp: update_unspent_def prune_pool_def update_pool_def split: outcome.split)

lemma remove_from_pool_threads [threads_intros]:
  "threads_ok n \<Longrightarrow> after threads_ok (remove_from_pool ts n)"
proof (induction ts arbitrary: n)
  case (Cons t ts)
  show ?case
    unfolding remove_from_pool.simps by (rule after_then) (use Cons update_threads in auto)
qed simp

lemma threads_ok_chain:
  "threads_ok n \<Longrightarrow> (m_blocks (n_blockchain n) \<noteq> [] \<Longrightarrow> m_blocks c \<noteq> []) \<Longrightarrow> threads_ok (n\<lparr>n_blockchain := c\<rparr>)"
  by (rule threads_ok_keeps) (auto simp: keeps_def)

lemma add_peer_ok:
  assumes "threads_ok n" and "add_peer W host port n = (r, n')"
  shows "threads_ok n' \<and> (\<forall>k. r = Ok k \<longrightarrow> 0 < k \<and> k \<le> length (n_peers n'))"
proof -
  have "keeps n n'" "n_threads n' = n_threads n"
    using assms(2) by (auto simp: add_peer_def peers_add_def keeps_def split: outcome.splits)
  moreover have "\<forall>k. r = Ok k \<longrightarrow> 0 < k \<and> k \<le> length (n_peers n')"
    using assms(2) by (auto simp: add_peer_def peers_add_def split: outcome.splits)
  ultimately show ?thesis using assms(1) threads_ok_keeps by blast
qed

lemma peers_find_le: "peers_find_from (Suc i) host port ps \<le> i + length ps"
proof (induction ps arbitrary: i)
  case (Cons p ps)
  then show ?case using Cons.IH [of "Suc i"] by simp
qed simp

lemma ask_peer:
  assumes "threads_ok n" and "m = (if peers_find host port (n_peers n) = 0 then add_peer W host port n
      else (Ok (peers_find host port (n_peers n)), n))"
    and "m = (r, n')"
  shows "threads_ok n' \<and> (\<forall>k. r = Ok k \<longrightarrow> 0 < k \<and> k \<le> length (n_peers n'))"
  using assms add_peer_ok [OF assms(1), of W host port r n'] peers_find_le [of 0 host port "n_peers n"]
  by (auto simp: peers_find_def split: if_splits)

lemma after_value:
  assumes "\<And>r n'. m = (r, n') \<Longrightarrow> P n' \<and> (\<forall>x. r = Ok x \<longrightarrow> Q x n')"
    and "\<And>x n. P n \<Longrightarrow> Q x n \<Longrightarrow> after P (f x n)"
  shows "after P (then_call m f)"
  using assms by (cases m; cases "fst m") auto

lemma ask_origin_threads [threads_intros]: "threads_ok n \<Longrightarrow> after threads_ok (ask_origin W data n)"
  unfolding ask_origin_def
  by (rule after_then, simp, simp only: split_paired_all split_conv,
      rule after_value [where Q = "\<lambda>k n. 0 < k \<and> k \<le> length (n_peers n)"])
    (auto dest: ask_peer [OF _ refl] simp del: then_call.simps)

lemma append_on_node_threads [threads_intros]: "threads_ok n \<Longrightarrow> after threads_ok (append_on_node W now b n)"
  by (auto simp: append_on_node_def dest!: append_next_block_blocks intro!: threads_ok_chain
      split: prod.split if_splits)

lemma receive_block_threads: "threads_ok n \<Longrightarrow> after threads_ok (receive_block W clk data n)"
  unfolding receive_block_def place_block_def Let_def by (auto intro!: after_then threads_intros)

lemma handle_receive_latest_block_threads:
  "threads_ok n \<Longrightarrow> after threads_ok (handle_receive_latest_block W clk data n)"
  unfolding handle_receive_latest_block_def
  by (auto intro!: after_then threads_intros receive_block_threads split: option.split)

text \<open>An empty chain is never greater than another.\<close>

lemma greater_not_empty:
  assumes "receive_chain W clk clk' data = Ok bc" and "chain_greater (w_env W) bc c = Ok True"
  shows "m_blocks bc \<noteq> []"
proof
  assume empty: "m_blocks bc = []"
  obtain j where "chain_from_json transaction_list_ops (w_env W) clk j = Ok bc"
    using assms(1) by (auto simp: receive_chain_def outcome_simps split: if_splits)
  from chain_from_json_blocks(1) [OF this] empty have "bc = blockchain_init (cfg (w_env W))" by simp
  then have "cumulative_difficulty bc = Ok 0"
    by (simp add: cumulative_difficulty_def blockchain_init_def adjuster_init_def)
  with assms(2) empty show False
    by (auto simp: chain_greater_def outcome_simps split: if_splits)
qed

lemma blockchain_setup_threads: "threads_ok n \<Longrightarrow> after threads_ok (blockchain_setup n)"
  unfolding blockchain_setup_def by (intro after_then threads_intros) auto

lemma handle_receive_all_blocks_threads:
  assumes "threads_ok n"
  shows "after threads_ok (handle_receive_all_blocks W clk clk' data n)"
proof (cases "receive_chain W clk clk' data")
  case (Ok bc)
  show ?thesis
  proof (cases "chain_greater (w_env W) bc (n_blockchain n)")
    case (Ok g)
    have "after threads_ok (blockchain_setup (n\<lparr>n_blockchain := bc\<rparr>))" if g
      using greater_not_empty [OF \<open>receive_chain W clk clk' data = Ok bc\<close>] Ok that assms
      by (intro blockchain_setup_threads threads_ok_chain) auto
    with Ok \<open>receive_chain W clk clk' data = Ok bc\<close> assms show ?thesis
      by (auto simp: handle_receive_all_blocks_def intro!: after_then)
  qed (use Ok assms in \<open>simp_all add: handle_receive_all_blocks_def\<close>)
qed (use assms in \<open>simp_all add: handle_receive_all_blocks_def\<close>)

lemma after_mono: "after P m \<Longrightarrow> (\<And>n. P n \<Longrightarrow> Q n) \<Longrightarrow> after Q m"
  by (auto simp: after_def)

text \<open>After a block has been added the remaining calls keep the chain.\<close>

lemma finish_mining_threads:
  assumes "threads_ok n" and "m_blocks (n_blockchain n) \<noteq> []"
  shows "after (\<lambda>n. threads_ok n \<and> m_blocks (n_blockchain n) \<noteq> [])
    (then_call (update_unspent ts n) (\<lambda>_ n. prune_pool n))"
  using assms by (intro after_then) (auto simp: update_unspent_def prune_pool_def update_pool_def split: outcome.split)

lemma handle_blocks_post_threads:
  assumes "threads_ok n" and "handle_blocks_post W clk data n = Some r"
  shows "after threads_ok r"
proof (cases "bind_outcome (json_at (w_api W) data ''address'') (json_get_string (w_api W))")
  case (Ok address)
  let ?k = "unat (transaction_num_per_block (cfg (w_env W)))"
  let ?n = "n\<lparr>n_unconfirmed_pool := drop ?k (n_unconfirmed_pool n)\<rparr>"
  let ?ts = "reward (w_env W) address (chain_length (n_blockchain n)) # take ?k (n_unconfirmed_pool n)"
  let ?P = "\<lambda>n. threads_ok n \<and> m_blocks (n_blockchain n) \<noteq> []"
  from Ok assms(2) obtain q c where
    c: "construct_next_block transaction_list_ops (w_env W) clk ?ts (n_blockchain n) = Some (q, c)"
    and r: "r = then_call (rethrow (HTTPError status_bad_request) (malformed ''POST /blocks'' W data)
        (then_call (q, ?n\<lparr>n_blockchain := c\<rparr>) (\<lambda>_ n. then_call (update_unspent ?ts n) (\<lambda>_ n. prune_pool n))))
      (\<lambda>_ n. (Ok (status_ok, json_null (w_api W)), detach Broadcast_latest_block n))"
    by (auto simp: handle_blocks_post_def mine_on_node_def construct_on_node_def
        drain_pool_take_drop Let_def)
  show ?thesis
  proof (cases "q = Ok ()")
    case True
    with c have ne: "m_blocks c \<noteq> []" by (auto elim: construct_next_block_Ok)
    with assms(1) have "after ?P (then_call (update_unspent ?ts (?n\<lparr>n_blockchain := c\<rparr>)) (\<lambda>_ n. prune_pool n))"
      by (intro finish_mining_threads threads_ok_chain) auto
    then have "after ?P r"
      unfolding r True by (intro after_then) auto
    then show ?thesis by (rule after_mono) simp
  next
    case False
    then have "m_blocks c = m_blocks (n_blockchain n)" using construct_next_block_other [OF c] by simp
    with assms(1) have "threads_ok (?n\<lparr>n_blockchain := c\<rparr>)" by (intro threads_ok_chain) auto
    with False show ?thesis by (cases q) (simp_all add: r)
  qed
qed (use assms in \<open>auto simp: handle_blocks_post_def\<close>)

lemma handle_peers_post_threads: "threads_ok n \<Longrightarrow> after threads_ok (handle_peers_post W data n)"
  unfolding handle_peers_post_def
  by (rule after_then, simp, clarsimp, rule after_value [where Q = "\<lambda>k n. 0 < k \<and> k \<le> length (n_peers n)"])
    (auto dest: add_peer_ok)

lemma other_handlers_threads:
  assumes "threads_ok n"
  shows "after threads_ok (handle_transactions_post W data n)"
    "after threads_ok (handle_blocks_persist_post W data n)"
    "after threads_ok (handle_receive_transaction W data n)"
    "after threads_ok (run_thread W t n)"
    "after threads_ok (on_latest_block_answer W clk success answer n)"
    "after threads_ok (on_all_blocks_answer W clk clk' success answer n)"
proof -
  show "after threads_ok (handle_transactions_post W data n)"
    using assms unfolding handle_transactions_post_def Let_def by (auto intro!: after_then threads_intros)
  show "after threads_ok (handle_blocks_persist_post W data n)"
    using assms unfolding handle_blocks_persist_post_def Let_def by (auto intro!: after_then split: option.split)
  have "after threads_ok (case update_pool f n of (Undef, n) \<Rightarrow> (Undef, n) | (_, n) \<Rightarrow> (Ok j, n))"
    if "threads_ok n" for n :: "'a node" and f and j :: 'a
    using update_threads(2) [OF that, of f] by (auto split: prod.split outcome.split)
  with assms show "after threads_ok (handle_receive_transaction W data n)"
    unfolding handle_receive_transaction_def by (auto intro!: after_then)
  show "after threads_ok (run_thread W t n)"
    using assms by (cases t) (auto simp: broadcast_latest_block_def request_latest_block_def
        request_all_blocks_def intro!: after_then)
  show "after threads_ok (on_latest_block_answer W clk success answer n)"
    "after threads_ok (on_all_blocks_answer W clk clk' success answer n)"
    using assms handle_receive_latest_block_threads handle_receive_all_blocks_threads
    by (auto simp: on_latest_block_answer_def on_all_blocks_answer_def intro!: after_then)
qed

lemma node_step_threads: "threads_ok n \<Longrightarrow> node_step W ev n = Ok n' \<Longrightarrow> threads_ok n'"
  by (cases ev) (auto split: option.splits intro: after_settle handle_blocks_post_threads
      handle_peers_post_threads handle_receive_latest_block_threads handle_receive_all_blocks_threads
      other_handlers_threads)

interpretation threads: invariant_machine threads_ok "node_step W" for W :: "'j world"
  by unfold_locales (rule node_step_threads)

text \<open>A thread that works does not throw.\<close>

lemma run_thread_no_throw: "thread_ok n t \<Longrightarrow> run_thread W t n \<noteq> (Throw e, n')"
  by (cases t) (auto simp: broadcast_latest_block_def latest_block_def then_call_Throw_iff split: if_splits)

end
