(* ===== verification/Servers.thy ===== *)
theory Servers
  imports Client Threads
begin

text \<open>
  The running program: the connections of \<open>src/web/http_server.cc\<close> and \<open>src/web/websocket_server.cc\<close> with
  their phases, the threads that \<open>Node\<close> detaches, and the node they share. Events are accepted
  connections and completed reads and writes, in any order; a handler runs within one event. An
  exception that nothing catches ends the process.
\<close>

section \<open>Model: HTTP connections\<close>

text \<open>\<open>H_gone\<close>: the last reference to the connection object has been dropped after an error.\<close>

datatype http_phase = H_reading | H_writing http_response | H_shutdown | H_gone

datatype http_read = End_of_stream | Http_error | Request http_request

definition http_on_read ::
    "'j world \<Rightarrow> (nat \<Rightarrow> time_point) \<Rightarrow> http_read \<Rightarrow> 'j node \<Rightarrow> (http_phase, 'j node) call option" where
  "http_on_read W clk r n =
     (case r of
        End_of_stream \<Rightarrow> Some (Ok H_shutdown, n)
      | Http_error \<Rightarrow> Some (Ok H_gone, n)
      | Request rq \<Rightarrow> map_option (\<lambda>m. then_call m (\<lambda>response n. (Ok (H_writing response), n)))
          (handle_request W (http_setup W clk) rq n))"

section \<open>Model: WebSocket connections\<close>

datatype ws_phase = W_handshake | W_reading | W_writing string | W_gone

datatype ws_read = Closed | Ws_error | Message string

definition ws_on_accept ::
    "'j world \<Rightarrow> ('j \<Rightarrow> string \<Rightarrow> 'j outcome) \<Rightarrow> (nat \<Rightarrow> time_point) \<Rightarrow> (nat \<Rightarrow> time_point) \<Rightarrow> ws_read \<Rightarrow>
     'j node \<Rightarrow> (ws_phase, 'j node) call" where
  "ws_on_accept W index clk clk' r n =
     (case r of
        Closed \<Rightarrow> (Ok W_gone, n)
      | Ws_error \<Rightarrow> (Ok W_gone, n)
      | Message msg \<Rightarrow> then_call (ws_on_read W index (websocket_setup W clk clk') msg n)
          (\<lambda>response n. (Ok (W_writing response), n)))"

section \<open>Model: process\<close>

text \<open>
  \<open>p_replies\<close> and \<open>p_answers\<close> list the writes that have been started on HTTP and WebSocket connections, by
  the number of the connection.
\<close>

record 'j process =
  p_node :: "'j node"
  p_http :: "http_phase list"
  p_ws :: "ws_phase list"
  p_replies :: "(nat \<times> http_response) list"
  p_answers :: "(nat \<times> string) list"
  p_terminated :: "exn option"

datatype process_event =
    Http_accepted bool
  | Http_read nat http_read "nat \<Rightarrow> time_point"
  | Http_written nat bool
  | Ws_accepted bool
  | Ws_handshake nat bool
  | Ws_read nat ws_read "nat \<Rightarrow> time_point" "nat \<Rightarrow> time_point"
  | Ws_written nat bool
  | Thread_runs nat
  | Latest_answer "nat \<Rightarrow> time_point" bool string
  | All_answer "nat \<Rightarrow> time_point" "nat \<Rightarrow> time_point" bool string

fun absorb :: "('a, 'j node) call \<Rightarrow> ('a \<Rightarrow> 'j process \<Rightarrow> 'j process) \<Rightarrow> 'j process \<Rightarrow> 'j process outcome" where
  "absorb (Ok x, n) f p = Ok (f x (p\<lparr>p_node := n\<rparr>))"
| "absorb (Throw e, n) f p = Ok (p\<lparr>p_node := n, p_terminated := Some e\<rparr>)"
| "absorb (Undef, n) f p = Undef"

definition set_http :: "nat \<Rightarrow> http_phase \<Rightarrow> 'j process \<Rightarrow> 'j process" where
  "set_http i ph p = p\<lparr>p_http := (p_http p)[i := ph],
     p_replies := (case ph of H_writing response \<Rightarrow> p_replies p @ [(i, response)] | _ \<Rightarrow> p_replies p)\<rparr>"

definition set_ws :: "nat \<Rightarrow> ws_phase \<Rightarrow> 'j process \<Rightarrow> 'j process" where
  "set_ws i ph p = p\<lparr>p_ws := (p_ws p)[i := ph],
     p_answers := (case ph of W_writing response \<Rightarrow> p_answers p @ [(i, response)] | _ \<Rightarrow> p_answers p)\<rparr>"

definition http_in :: "nat \<Rightarrow> (http_phase \<Rightarrow> bool) \<Rightarrow> 'j process \<Rightarrow> bool" where
  "http_in i P p \<longleftrightarrow> i < length (p_http p) \<and> P (p_http p ! i)"

definition ws_in :: "nat \<Rightarrow> (ws_phase \<Rightarrow> bool) \<Rightarrow> 'j process \<Rightarrow> bool" where
  "ws_in i P p \<longleftrightarrow> i < length (p_ws p) \<and> P (p_ws p ! i)"

definition is_H_writing :: "http_phase \<Rightarrow> bool" where
  "is_H_writing ph = (case ph of H_writing _ \<Rightarrow> True | _ \<Rightarrow> False)"

definition is_W_writing :: "ws_phase \<Rightarrow> bool" where
  "is_W_writing ph = (case ph of W_writing _ \<Rightarrow> True | _ \<Rightarrow> False)"

text \<open>
  Accepted connections and completed writes. An event that the phase of its connection does not
  allow cannot occur and changes nothing.
\<close>

definition http_accept :: "bool \<Rightarrow> 'j process \<Rightarrow> 'j process" where
  "http_accept ok p = (if ok then p\<lparr>p_http := p_http p @ [H_reading]\<rparr> else p)"

definition http_write_done :: "nat \<Rightarrow> bool \<Rightarrow> 'j process \<Rightarrow> 'j process" where
  "http_write_done i ok p = (if http_in i is_H_writing p then set_http i H_shutdown p else p)"

definition ws_accept :: "bool \<Rightarrow> 'j process \<Rightarrow> 'j process" where
  "ws_accept ok p = (if ok then p\<lparr>p_ws := p_ws p @ [W_handshake]\<rparr> else p)"

definition ws_handshake_done :: "nat \<Rightarrow> bool \<Rightarrow> 'j process \<Rightarrow> 'j process" where
  "ws_handshake_done i ok p =
     (if ws_in i (\<lambda>ph. ph = W_handshake) p then set_ws i (if ok then W_reading else W_gone) p else p)"

definition ws_write_done :: "nat \<Rightarrow> bool \<Rightarrow> 'j process \<Rightarrow> 'j process" where
  "ws_write_done i ok p =
     (if ws_in i is_W_writing p then set_ws i (if ok then W_reading else W_gone) p else p)"

lemmas connection_event_defs [simp] =
  http_accept_def http_write_done_def ws_accept_def ws_handshake_done_def ws_write_done_def

fun live_step ::
    "'j world \<Rightarrow> ('j \<Rightarrow> string \<Rightarrow> 'j outcome) \<Rightarrow> process_event \<Rightarrow> 'j process \<Rightarrow> 'j process outcome" where
  "live_step W index (Http_accepted ok) p = Ok (http_accept ok p)"
| "live_step W index (Http_read i r clk) p =
     (if http_in i (\<lambda>ph. ph = H_reading) p
      then (case http_on_read W clk r (p_node p) of
              None \<Rightarrow> Undef
            | Some m \<Rightarrow> absorb m (set_http i) p)
      else Ok p)"
| "live_step W index (Http_written i ok) p = Ok (http_write_done i ok p)"
| "live_step W index (Ws_accepted ok) p = Ok (ws_accept ok p)"
| "live_step W index (Ws_handshake i ok) p = Ok (ws_handshake_done i ok p)"
| "live_step W index (Ws_read i r clk clk') p =
     (if ws_in i (\<lambda>ph. ph = W_reading) p
      then absorb (ws_on_accept W index clk clk' r (p_node p)) (set_ws i) p
      else Ok p)"
| "live_step W index (Ws_written i ok) p = Ok (ws_write_done i ok p)"
| "live_step W index (Thread_runs k) p =
     (if k < length (n_threads (p_node p))
      then absorb (run_thread W (n_threads (p_node p) ! k) (p_node p)) (\<lambda>_ p. p) p
      else Ok p)"
| "live_step W index (Latest_answer clk success answer) p =
     absorb (on_latest_block_answer W clk success answer (p_node p)) (\<lambda>_ p. p) p"
| "live_step W index (All_answer clk clk' success answer) p =
     absorb (on_all_blocks_answer W clk clk' success answer (p_node p)) (\<lambda>_ p. p) p"

definition process_step ::
    "'j world \<Rightarrow> ('j \<Rightarrow> string \<Rightarrow> 'j outcome) \<Rightarrow> process_event \<Rightarrow> 'j process \<Rightarrow> 'j process outcome" where
  "process_step W index ev p = (if p_terminated p = None then live_step W index ev p else Ok p)"

definition process_new :: "'j node \<Rightarrow> 'j process" where
  "process_new n = \<lparr>p_node = n, p_http = [], p_ws = [], p_replies = [], p_answers = [], p_terminated = None\<rparr>"

section \<open>The process refines the node\<close>

lemma set_phase_node [simp]:
  "p_node (set_http i hp p) = p_node p" "p_node (set_ws i wp p) = p_node p"
  "p_terminated (set_http i hp p) = p_terminated p" "p_terminated (set_ws i wp p) = p_terminated p"
  by (simp_all add: set_http_def set_ws_def)

text \<open>
  The routes of \<open>Node::http_setup\<close> and \<open>Node::websocket_setup\<close> as a table: the event of the node that a
  request causes. Requests to read, unknown targets and methods without a handler cause none.
\<close>

definition http_route :: "(nat \<Rightarrow> time_point) \<Rightarrow> string \<Rightarrow> http_method \<Rightarrow> 'j \<Rightarrow> 'j event list" where
  "http_route clk target method data =
     (if method \<noteq> Post then []
      else if target = ''/blocks'' then [Blocks_post clk data]
      else if target = ''/blocks/persist'' then [Blocks_persist_post data]
      else if target = ''/peers'' then [Peers_post data]
      else if target = ''/transactions'' then [Transactions_post data]
      else [])"

definition ws_route ::
    "(nat \<Rightarrow> time_point) \<Rightarrow> (nat \<Rightarrow> time_point) \<Rightarrow> string \<Rightarrow> 'j \<Rightarrow> 'j event list" where
  "ws_route clk clk' target data =
     (if target = ''/receive-latest-block'' then [Receive_latest_block clk data]
      else if target = ''/receive-all-blocks'' then [Receive_all_blocks clk clk' data]
      else if target = ''/receive-transaction'' then [Receive_transaction data]
      else [])"

text \<open>The JSON value of a request body, if it has one: no body is null.\<close>

definition request_data :: "'j world \<Rightarrow> http_request \<Rightarrow> 'j option" where
  "request_data W rq =
     (if rq_body rq = [] then Some (json_null (w_api W))
      else if rq_content_type rq = ''application/json''
      then (case w_parse W (rq_body rq) of Ok data \<Rightarrow> Some data | _ \<Rightarrow> None)
      else None)"

text \<open>
  What an event causes at the node: a request or message only while its connection is being read,
  a thread its body, an answer its callback; accepting, handshakes and writes nothing, and nothing
  happens after the end of the process.
\<close>

fun live_caused ::
    "'j world \<Rightarrow> ('j \<Rightarrow> string \<Rightarrow> 'j outcome) \<Rightarrow> process_event \<Rightarrow> 'j process \<Rightarrow> 'j event list" where
  "live_caused W index (Http_read i (Request rq) clk) p =
     (if http_in i (\<lambda>ph. ph = H_reading) p
      then (case request_data W rq of
              Some data \<Rightarrow> http_route clk (rq_target rq) (rq_method rq) data
            | None \<Rightarrow> [])
      else [])"
| "live_caused W index (Ws_read i (Message msg) clk clk') p =
     (if ws_in i (\<lambda>ph. ph = W_reading) p
      then (case ws_request W index msg of
              Ok (target, data) \<Rightarrow> ws_route clk clk' target data
            | _ \<Rightarrow> [])
      else [])"
| "live_caused W index (Thread_runs k) p =
     (if k < length (n_threads (p_node p)) then [Run_thread (n_threads (p_node p) ! k)] else [])"
| "live_caused W index (Latest_answer clk success answer) p = [Latest_block_answer clk success answer]"
| "live_caused W index (All_answer clk clk' success answer) p = [All_blocks_answer clk clk' success answer]"
| "live_caused W index _ p = []"

definition node_events ::
    "'j world \<Rightarrow> ('j \<Rightarrow> string \<Rightarrow> 'j outcome) \<Rightarrow> process_event \<Rightarrow> 'j process \<Rightarrow> 'j event list" where
  "node_events W index ev p = (if p_terminated p = None then live_caused W index ev p else [])"

text \<open>A node goes from one state to another by the given events.\<close>

definition node_runs :: "'j world \<Rightarrow> 'j event list \<Rightarrow> 'j node \<Rightarrow> 'j node \<Rightarrow> bool" where
  "node_runs W evs n n' \<longleftrightarrow> fold_outcome (\<lambda>n ev. node_step W ev n) n evs = Ok n'"

lemma node_runs_Nil [simp]: "node_runs W [] n n' \<longleftrightarrow> n' = n"
  by (auto simp: node_runs_def)

lemma node_runsI: "node_step W ev n = settle (r, n') \<Longrightarrow> r \<noteq> Undef \<Longrightarrow> node_runs W [ev] n n'"
  unfolding node_runs_def by (cases r) auto

lemma http_handle_event:
  assumes "http_handle W (http_setup W clk) target method data n = Some (r, n')" and "r \<noteq> Undef"
  shows "node_runs W (http_route clk target method data) n n'"
proof -
  have post: "handle_blocks_post W clk data n = Some (r, n') \<Longrightarrow> node_runs W [Blocks_post clk data] n n'"
    "handle_blocks_persist_post W data n = (r, n') \<Longrightarrow> node_runs W [Blocks_persist_post data] n n'"
    "handle_transactions_post W data n = (r, n') \<Longrightarrow> node_runs W [Transactions_post data] n n'"
    "handle_peers_post W data n = (r, n') \<Longrightarrow> node_runs W [Peers_post data] n n'"
    using node_runsI [of W "Blocks_post clk data" n r n'] node_runsI [of W "Blocks_persist_post data" n r n']
      node_runsI [of W "Transactions_post data" n r n'] node_runsI [of W "Peers_post data" n r n'] assms(2)
    by simp_all
  have get: "handle_blocks_get W n = (r, n') \<Longrightarrow> n' = n" "handle_blocks_latest_get W n = (r, n') \<Longrightarrow> n' = n"
    "handle_peers_get W n = (r, n') \<Longrightarrow> n' = n" "handle_transactions_latest_get W n = (r, n') \<Longrightarrow> n' = n"
    "handle_transactions_unconfirmed_get W n = (r, n') \<Longrightarrow> n' = n"
    "handle_transactions_unspent_get W n = (r, n') \<Longrightarrow> n' = n"
    by (auto simp: handle_blocks_get_def handle_blocks_latest_get_def handle_peers_get_def
        handle_transactions_latest_get_def handle_transactions_unconfirmed_get_def
        handle_transactions_unspent_get_def split: if_splits)
  show ?thesis
    using assms(1) post get
    by (auto simp: http_handle_def http_setup_def http_support_def http_route_def split: if_splits)
qed

lemma http_catch_state: "snd (http_catch W rq m) = snd m" "fst (http_catch W rq m) = Undef \<longleftrightarrow> fst m = Undef"
  by (induction W rq m rule: http_catch.induct) (auto split: exn_kind.split)

lemma ws_catch_state: "snd (ws_catch J m) = snd m" "fst (ws_catch J m) = Undef \<longleftrightarrow> fst m = Undef"
  by (induction J m rule: ws_catch.induct) (auto split: exn_kind.split)

lemma parse_body_data: "parse_body W rq = Ok (Inr data) \<longleftrightarrow> request_data W rq = Some data"
  by (auto simp: parse_body_def request_data_def split: outcome.splits)

lemma handle_request_event:
  assumes "handle_request W (http_setup W clk) rq n = Some (r, n')" and "r \<noteq> Undef"
  shows "node_runs W (case request_data W rq of
      Some data \<Rightarrow> http_route clk (rq_target rq) (rq_method rq) data | None \<Rightarrow> []) n n'"
proof (cases "request_data W rq")
  case None
  then have "parse_body W rq \<noteq> Ok (Inr data)" for data by (simp add: parse_body_data)
  with assms None show ?thesis
    by (auto simp: handle_request_def split: outcome.splits sum.splits)
next
  case (Some data)
  then have "parse_body W rq = Ok (Inr data)" by (simp add: parse_body_data)
  with assms(1) obtain m where m: "http_handle W (http_setup W clk) (rq_target rq) (rq_method rq) data n = Some m"
    and c: "http_catch W rq m = (r, n')"
    by (auto simp: handle_request_def)
  obtain r1 n1 where "m = (r1, n1)" by (cases m)
  with c http_catch_state [of W rq m] assms(2) m Some show ?thesis by (auto intro: http_handle_event)
qed

lemma ws_handle_event:
  assumes "ws_handle W (websocket_setup W clk clk') target data n = (r, n')" and "r \<noteq> Undef"
  shows "node_runs W (ws_route clk clk' target data) n n'"
proof (cases "websocket_setup W clk clk' target")
  case (Some h)
  obtain q n1 where q: "h data n = (q, n1)" by (cases "h data n")
  with assms Some have q': "n1 = n'" "q \<noteq> Undef" by (cases q; auto simp: ws_handle_def)+
  have "handle_request_latest_block W n = (q, n') \<Longrightarrow> n' = n" "handle_request_all_blocks W n = (q, n') \<Longrightarrow> n' = n"
    by (auto simp: handle_request_latest_block_def handle_request_all_blocks_def split: if_splits)
  with Some q q' show ?thesis
    using node_runsI [of W "Receive_latest_block clk data" n q n']
      node_runsI [of W "Receive_all_blocks clk clk' data" n q n'] node_runsI [of W "Receive_transaction data" n q n']
    by (auto simp: websocket_setup_def ws_support_def ws_route_def split: if_splits)
next
  case None
  with assms show ?thesis
    by (auto simp: ws_handle_def websocket_setup_def ws_support_def ws_route_def split: if_splits)
qed

lemma ws_on_read_event:
  assumes "ws_on_read W index (websocket_setup W clk clk') msg n = (r, n')" and "r \<noteq> Undef"
  shows "node_runs W (case ws_request W index msg of
      Ok (target, data) \<Rightarrow> ws_route clk clk' target data | _ \<Rightarrow> []) n n'"
proof -
  let ?m = "ws_dispatch W index (websocket_setup W clk clk') msg n"
  obtain r1 where m: "?m = (r1, n')" "r1 \<noteq> Undef"
    using assms ws_catch_state [of "w_api W" ?m] by (cases ?m) (simp add: ws_on_read_def)
  then show ?thesis
    by (cases "ws_request W index msg") (auto simp: ws_dispatch_def intro: ws_handle_event)
qed

lemma then_write: "then_call m (\<lambda>x n. (Ok (f x), n)) = (r, n') \<Longrightarrow> snd m = n' \<and> (fst m = Undef \<longleftrightarrow> r = Undef)"
  by (cases m; cases "fst m") auto

lemma absorb_node:
  assumes "absorb m f p = Ok p'" and "\<And>x p. p_node (f x p) = p_node p"
  shows "fst m \<noteq> Undef \<and> p_node p' = snd m"
  using assms by (cases m; cases "fst m") auto

lemma live_step_caused:
  assumes "live_step W index ev p = Ok p'"
  shows "node_runs W (live_caused W index ev p) (p_node p) (p_node p')"
  using assms
proof (cases ev)
  case (Http_read i r clk)
  show ?thesis
  proof (cases "http_in i (\<lambda>ph. ph = H_reading) p")
    case True
    with assms Http_read obtain m where m: "http_on_read W clk r (p_node p) = Some m" "absorb m (set_http i) p = Ok p'"
      by (auto split: option.splits)
    with absorb_node [OF m(2)] True Http_read show ?thesis
      by (cases r; cases m) (auto simp: http_on_read_def dest!: then_write handle_request_event)
  qed (use assms Http_read in \<open>cases r; simp\<close>)
next
  case (Ws_read i r clk clk')
  show ?thesis
  proof (cases "ws_in i (\<lambda>ph. ph = W_reading) p")
    case True
    let ?m = "ws_on_accept W index clk clk' r (p_node p)"
    from True assms Ws_read have a: "absorb ?m (set_ws i) p = Ok p'" by simp
    with absorb_node [OF a] True Ws_read show ?thesis
    proof (cases r)
      case (Message msg)
      obtain q n where q: "ws_on_read W index (websocket_setup W clk clk') msg (p_node p) = (q, n)"
        by (cases "ws_on_read W index (websocket_setup W clk clk') msg (p_node p)")
      with absorb_node [OF a] Message have "n = p_node p'" "q \<noteq> Undef"
        by (cases q; simp add: ws_on_accept_def)+
      with ws_on_read_event [OF q] True Ws_read Message show ?thesis by simp
    qed (simp_all add: ws_on_accept_def)
  qed (use assms Ws_read in \<open>cases r; simp\<close>)
next
  case (Thread_runs k)
  with assms absorb_node [of "run_thread W (n_threads (p_node p) ! k) (p_node p)" "\<lambda>_ p. p" p p'] show ?thesis
    using node_runsI [of W "Run_thread (n_threads (p_node p) ! k)" "p_node p"]
    by (cases "run_thread W (n_threads (p_node p) ! k) (p_node p)") (auto split: if_splits)
next
  case (Latest_answer clk success answer)
  with assms absorb_node [of "on_latest_block_answer W clk success answer (p_node p)" "\<lambda>_ p. p" p p'] show ?thesis
    using node_runsI [of W "Latest_block_answer clk success answer" "p_node p"]
    by (cases "on_latest_block_answer W clk success answer (p_node p)") auto
next
  case (All_answer clk clk' success answer)
  with assms absorb_node [of "on_all_blocks_answer W clk clk' success answer (p_node p)" "\<lambda>_ p. p" p p'] show ?thesis
    using node_runsI [of W "All_blocks_answer clk clk' success answer" "p_node p"]
    by (cases "on_all_blocks_answer W clk clk' success answer (p_node p)") auto
qed auto

interpretation process: traced_refinement p_node "process_step W index" "node_step W" "node_events W index"
  for W :: "'j world" and index
  by unfold_locales
    (use live_step_caused in \<open>auto simp: process_step_def node_events_def node_runs_def split: if_splits\<close>)

section \<open>Answers\<close>

text \<open>The connections on which an event reads a request or message that has to be answered.\<close>

fun requests_read :: "process_event \<Rightarrow> 'j process \<Rightarrow> nat list" where
  "requests_read (Http_read i (Request rq) clk) p = (if http_in i (\<lambda>ph. ph = H_reading) p then [i] else [])"
| "requests_read _ p = []"

fun messages_read :: "process_event \<Rightarrow> 'j process \<Rightarrow> nat list" where
  "messages_read (Ws_read i (Message msg) clk clk') p = (if ws_in i (\<lambda>ph. ph = W_reading) p then [i] else [])"
| "messages_read _ p = []"

definition replied :: "'j process \<Rightarrow> nat list \<times> nat list" where
  "replied p = (map fst (p_replies p), map fst (p_answers p))"

lemma replied_set:
  "replied (set_http i ph p) = (fst (replied p) @ (if is_H_writing ph then [i] else []), snd (replied p))"
  "replied (set_ws i wp p) = (fst (replied p), snd (replied p) @ (if is_W_writing wp then [i] else []))"
  by (auto simp: replied_def set_http_def set_ws_def is_H_writing_def is_W_writing_def
      split: http_phase.splits ws_phase.splits)

lemma replied_other [simp]:
  "replied (p\<lparr>p_node := n\<rparr>) = replied p" "replied (p\<lparr>p_http := hs\<rparr>) = replied p"
  "replied (p\<lparr>p_ws := ws\<rparr>) = replied p"
  by (simp_all add: replied_def)

lemma absorb_alive:
  assumes "absorb m f p = Ok p'" and "p_terminated p' = None"
  shows "\<exists>x n. m = (Ok x, n) \<and> p' = f x (p\<lparr>p_node := n\<rparr>)"
  using assms by (cases m; cases "fst m") auto

lemma live_step_answers:
  assumes "live_step W index ev p = Ok p'" and "p_terminated p' = None"
  shows "replied p' = (fst (replied p) @ requests_read ev p, snd (replied p) @ messages_read ev p)"
proof (cases ev)
  case (Http_read i r clk)
  show ?thesis
  proof (cases "http_in i (\<lambda>ph. ph = H_reading) p")
    case True
    with assms Http_read obtain m where "http_on_read W clk r (p_node p) = Some m" "absorb m (set_http i) p = Ok p'"
      by (auto split: option.splits)
    with absorb_alive [OF _ assms(2)] obtain ph n where "http_on_read W clk r (p_node p) = Some (Ok ph, n)"
      "p' = set_http i ph (p\<lparr>p_node := n\<rparr>)"
      by blast
    with True Http_read show ?thesis
      by (cases r) (auto simp: http_on_read_def replied_set is_H_writing_def outcome_simps)
  qed (use assms Http_read in \<open>cases r; simp\<close>)
next
  case (Ws_read i r clk clk')
  show ?thesis
  proof (cases "ws_in i (\<lambda>ph. ph = W_reading) p")
    case True
    with assms Ws_read absorb_alive [OF _ assms(2)] obtain ph n where
      "ws_on_accept W index clk clk' r (p_node p) = (Ok ph, n)" "p' = set_ws i ph (p\<lparr>p_node := n\<rparr>)"
      by (metis live_step.simps(6))
    with True Ws_read show ?thesis
      by (cases r) (auto simp: ws_on_accept_def replied_set is_W_writing_def outcome_simps)
  qed (use assms Ws_read in \<open>cases r; simp\<close>)
next
  case (Thread_runs k)
  with assms absorb_alive [OF _ assms(2), of _ "\<lambda>_ p. p" p] show ?thesis by (fastforce split: if_splits)
next
  case (Latest_answer clk success answer)
  with assms absorb_alive [OF _ assms(2), of _ "\<lambda>_ p. p" p] show ?thesis by fastforce
next
  case (All_answer clk clk' success answer)
  with assms absorb_alive [OF _ assms(2), of _ "\<lambda>_ p. p" p] show ?thesis by fastforce
qed (use assms in \<open>auto simp: replied_set is_H_writing_def is_W_writing_def\<close>)

lemma live_step_keeps_end: "process_step W index ev p = Ok p' \<Longrightarrow> p_terminated p \<noteq> None \<Longrightarrow> p' = p"
  by (simp add: process_step_def)

lemma run_answers:
  assumes "fold_outcome (\<lambda>p ev. process_step W index ev p) p evs = Ok p'" and "p_terminated p' = None"
  shows "replied p' = (fst (replied p) @ caused_along (process_step W index) requests_read p evs,
    snd (replied p) @ caused_along (process_step W index) messages_read p evs)"
  using assms(1)
proof (induction evs arbitrary: p)
  case (Cons ev evs)
  then obtain p1 where p1: "process_step W index ev p = Ok p1"
    and rest: "fold_outcome (\<lambda>p ev. process_step W index ev p) p1 evs = Ok p'"
    by (auto simp: outcome_simps)
  have "p_terminated p1 = None"
    using fold_outcome_invariant [OF rest, of "\<lambda>q. p_terminated q = p_terminated p1 \<and> p_terminated p1 \<noteq> None"]
      live_step_keeps_end assms(2) by (cases "p_terminated p1") fastforce+
  moreover from this p1 have "live_step W index ev p = Ok p1"
    by (cases "p_terminated p") (auto simp: process_step_def)
  ultimately show ?case
    using live_step_answers [of W index ev p p1] Cons.IH [OF rest] p1 by simp
qed simp

section \<open>The end of the process\<close>

lemma swallow_no_throw: "swallow m \<noteq> (Throw e, n)"
  by (induction m rule: swallow.induct) auto

lemma absorb_terminated:
  assumes "absorb m f p = Ok p'" and "\<And>x p. p_terminated (f x p) = p_terminated p"
    and "p_terminated p = None" and "p_terminated p' = Some e"
  shows "\<exists>n. m = (Throw e, n)"
  using assms by (cases m; cases "fst m") auto

lemma live_step_terminated:
  assumes "json_errors W index" and "threads_ok (p_node p)" and "p_terminated p = None"
    and "live_step W index ev p = Ok p'" and "p_terminated p' = Some e"
  shows "\<exists>i rq clk. ev = Http_read i (Request rq) clk \<and> escapes W rq e"
  using assms(3-)
proof (cases ev)
  case (Http_read i r clk)
  then obtain m where m: "http_on_read W clk r (p_node p) = Some m" "absorb m (set_http i) p = Ok p'"
    using assms(3-5) by (auto split: option.splits if_splits)
  from absorb_terminated [OF m(2) _ assms(3,5)] obtain n where "m = (Throw e, n)" by auto
  with m(1) obtain rq where "r = Request rq" "handle_request W (http_setup W clk) rq (p_node p) = Some (Throw e, n)"
    by (auto simp: http_on_read_def then_call_Throw_iff split: http_read.splits)
  then show ?thesis using handle_request_escape Http_read by blast
next
  case (Ws_read i r clk clk')
  let ?m = "ws_on_accept W index clk clk' r (p_node p)"
  have a: "absorb ?m (set_ws i) p = Ok p'"
    using Ws_read assms(3-5) by (auto split: if_splits)
  from absorb_terminated [OF a _ assms(3,5)] obtain n where "?m = (Throw e, n)" by auto
  with json_errors.ws_on_read_no_throw [OF assms(1)] show ?thesis
    by (auto simp: ws_on_accept_def then_call_Throw_iff split: ws_read.splits)
next
  case (Thread_runs k)
  let ?t = "n_threads (p_node p) ! k"
  from Thread_runs assms(3-5) have k: "k < length (n_threads (p_node p))"
    and a: "absorb (run_thread W ?t (p_node p)) (\<lambda>_ p. p) p = Ok p'"
    by (auto split: if_splits)
  from absorb_terminated [OF a _ assms(3,5)] obtain n where "run_thread W ?t (p_node p) = (Throw e, n)" by auto
  moreover have "thread_ok (p_node p) ?t" using assms(2) k by (simp add: threads_ok_def list_all_length)
  ultimately show ?thesis using run_thread_no_throw by blast
next
  case (Latest_answer clk success answer)
  with assms(3-5) absorb_terminated [of _ "\<lambda>_ p. p" p p' e] show ?thesis
    by (fastforce simp: on_latest_block_answer_def swallow_no_throw split: if_splits)
next
  case (All_answer clk clk' success answer)
  with assms(3-5) absorb_terminated [of _ "\<lambda>_ p. p" p p' e] show ?thesis
    by (fastforce simp: on_all_blocks_answer_def swallow_no_throw split: if_splits)
qed (auto split: if_splits)

lemma process_step_threads:
  assumes "threads_ok (p_node p)" and "process_step W index ev p = Ok p'"
  shows "threads_ok (p_node p')"
  using threads.run_inv [OF assms(1) process.traces [OF assms(2)]] .

lemma run_terminated:
  assumes "json_errors W index" and "threads_ok (p_node p)" and "p_terminated p = None"
    and "fold_outcome (\<lambda>p ev. process_step W index ev p) p evs = Ok p'" and "p_terminated p' = Some e"
  shows "\<exists>i rq clk. Http_read i (Request rq) clk \<in> set evs \<and> escapes W rq e"
  using assms(2-)
proof (induction evs arbitrary: p)
  case (Cons ev evs)
  then obtain p1 where p1: "process_step W index ev p = Ok p1"
    and rest: "fold_outcome (\<lambda>p ev. process_step W index ev p) p1 evs = Ok p'"
    by (auto simp: outcome_simps)
  show ?case
  proof (cases "p_terminated p1")
    case None
    with Cons.IH [OF process_step_threads [OF Cons.prems(1) p1] None rest Cons.prems(4)] show ?thesis by auto
  next
    case (Some e1)
    with rest have "p_terminated p' = Some e1"
      by (rule fold_outcome_invariant) (auto simp: process_step_def)
    with Cons.prems(4) Some have "p_terminated p1 = Some e" by simp
    with live_step_terminated [OF assms(1) Cons.prems(1,2), of ev p1 e] p1 Cons.prems(2) show ?thesis
      by (auto simp: process_step_def)
  qed
qed simp

section \<open>One response per connection\<close>

definition replies_to :: "nat \<Rightarrow> 'j process \<Rightarrow> http_response list" where
  "replies_to i p = map snd (filter (\<lambda>r. fst r = i) (p_replies p))"

text \<open>A connection that is still being read or does not exist yet has not been answered.\<close>

definition one_reply :: "'j process \<Rightarrow> bool" where
  "one_reply p \<longleftrightarrow> (\<forall>i. length (replies_to i p) \<le> 1 \<and>
     (i < length (p_http p) \<and> p_http p ! i \<noteq> H_reading \<or> replies_to i p = []))"

lemma one_reply_irrelevant [simp]:
  "one_reply (p\<lparr>p_node := n\<rparr>) \<longleftrightarrow> one_reply p" "one_reply (p\<lparr>p_ws := ws\<rparr>) \<longleftrightarrow> one_reply p"
  "one_reply (set_ws i wp p) \<longleftrightarrow> one_reply p"
  by (simp_all add: one_reply_def replies_to_def set_ws_def)

lemma set_http_phases [simp]: "p_http (set_http i ph p) = (p_http p)[i := ph]"
  by (simp add: set_http_def)

lemma one_reply_accept:
  assumes "one_reply p"
  shows "one_reply (p\<lparr>p_http := p_http p @ [H_reading]\<rparr>)"
proof -
  have "length (replies_to i p) \<le> 1 \<and>
      (i < length (p_http p @ [H_reading]) \<and> (p_http p @ [H_reading]) ! i \<noteq> H_reading \<or> replies_to i p = [])" for i
  proof -
    have "length (replies_to i p) \<le> 1"
      "i < length (p_http p) \<and> p_http p ! i \<noteq> H_reading \<or> replies_to i p = []"
      using assms unfolding one_reply_def by blast+
    then show ?thesis by (auto simp: nth_append)
  qed
  then show ?thesis by (simp add: one_reply_def replies_to_def)
qed

lemma replies_to_set_http:
  "replies_to j (set_http i ph p) =
     replies_to j p @ (case ph of H_writing response \<Rightarrow> if i = j then [response] else [] | _ \<Rightarrow> [])"
  by (simp add: replies_to_def set_http_def split: http_phase.split)

lemma one_reply_set_http:
  assumes "one_reply p" and "http_in i (\<lambda>ph. ph = H_reading) p \<or> (\<forall>response. ph \<noteq> H_writing response)"
    and "ph \<noteq> H_reading"
  shows "one_reply (set_http i ph p)"
proof -
  have "length (replies_to j (set_http i ph p)) \<le> 1 \<and>
      (j < length (p_http (set_http i ph p)) \<and> p_http (set_http i ph p) ! j \<noteq> H_reading \<or>
       replies_to j (set_http i ph p) = [])" for j
  proof -
    have j: "length (replies_to j p) \<le> 1"
      "j < length (p_http p) \<and> p_http p ! j \<noteq> H_reading \<or> replies_to j p = []"
      using assms(1) unfolding one_reply_def by blast+
    show ?thesis
    proof (cases "i = j")
      case True
      with j assms(2,3) show ?thesis
        by (auto simp: replies_to_set_http http_in_def split: http_phase.splits)
    next
      case False
      with j show ?thesis by (simp add: replies_to_set_http split: http_phase.split)
    qed
  qed
  then show ?thesis by (simp add: one_reply_def)
qed

lemma one_reply_absorb:
  assumes "absorb m f p = Ok p'" and "one_reply p"
    and "\<And>x n. m = (Ok x, n) \<Longrightarrow> one_reply (f x (p\<lparr>p_node := n\<rparr>))"
  shows "one_reply p'"
  using assms by (cases m; cases "fst m") (auto simp: one_reply_def replies_to_def)

lemma http_on_read_phase: "http_on_read W clk r n = Some (Ok ph, n') \<Longrightarrow> ph \<noteq> H_reading"
  by (auto simp: http_on_read_def outcome_simps split: http_read.splits)

lemma one_reply_step:
  assumes "one_reply p" and "process_step W index ev p = Ok p'"
  shows "one_reply p'"
proof (cases "p_terminated p")
  case None
  with assms(2) have step: "live_step W index ev p = Ok p'" by (simp add: process_step_def)
  show ?thesis
  proof (cases ev)
    case (Http_accepted ok)
    with assms(1) step show ?thesis by (auto intro: one_reply_accept split: if_splits)
  next
    case (Http_read i r clk)
    then show ?thesis
      using step assms(1)
      by (auto split: if_splits option.splits elim!: one_reply_absorb intro!: one_reply_set_http
          dest: http_on_read_phase simp: http_in_def)
  next
    case (Http_written i ok)
    with step assms(1) show ?thesis by (auto intro!: one_reply_set_http split: if_splits)
  next
    case (Ws_accepted ok)
    with step assms(1) show ?thesis by (auto split: if_splits)
  qed (use step assms(1) in \<open>auto split: if_splits elim!: one_reply_absorb\<close>)
qed (use assms in \<open>simp add: process_step_def\<close>)

interpretation replies: invariant_machine one_reply "process_step W index" for W :: "'j world" and index
  by unfold_locales (rule one_reply_step)

section \<open>Properties\<close>

text \<open>
  A client connects over HTTP and WebSockets; after a message that is not understood it posts the
  address of a peer, which nobody can reach in this world.
\<close>

definition peer_request :: http_request where
  "peer_request = \<lparr>rq_target = ''/peers'', rq_method = Post, rq_content_type = ''application/json'',
     rq_body = ''peer''\<rparr>"

definition crash_events :: "process_event list" where
  "crash_events = [Http_accepted True, Ws_accepted True, Ws_handshake 0 True,
     Ws_read 0 (Message ''peer'') (\<lambda>_. 0) (\<lambda>_. 0), Http_read 0 (Request peer_request) (\<lambda>_. 0)]"

definition refused :: exn where
  "refused = Exn System_error ''connection refused''"

lemma peer_request_refused:
  "handle_request isolated_world (http_setup isolated_world clk) peer_request example_node =
     Some (Throw refused, example_node)"
proof -
  have "handle_peers_post isolated_world peer_json example_node = (Throw refused, example_node)"
    by (simp add: handle_peers_post_def peer_address_def peer_json_def isolated_world_def add_peer_def
        peers_add_def jval_api_def refused_def)
  then show ?thesis
    by (simp add: handle_request_def parse_body_def peer_request_def isolated_world_def http_handle_def
        http_setup_def http_support_def refused_def)
qed

lemma peer_message_answered:
  "\<exists>response. ws_on_read isolated_world jval_index hs ''peer'' example_node = (Ok response, example_node)"
  by (simp add: ws_on_read_def ws_dispatch_def ws_request_def isolated_world_def peer_json_def jval_api_def
      json_type_error_def)

lemma crash_run:
  "\<exists>p. fold_outcome (\<lambda>p ev. process_step isolated_world jval_index ev p) (process_new example_node) crash_events =
     Ok p \<and> p_node p = example_node \<and> p_terminated p = Some refused"
proof -
  obtain response where "ws_on_read isolated_world jval_index
      (websocket_setup isolated_world (\<lambda>_. 0) (\<lambda>_. 0)) ''peer'' example_node = (Ok response, example_node)"
    using peer_message_answered by blast
  then show ?thesis
    using peer_request_refused [of "\<lambda>_. 0"]
    by (simp add: crash_events_def process_step_def process_new_def http_in_def ws_in_def set_ws_def
        set_http_def ws_on_accept_def http_on_read_def)
qed

text \<open>
  C11. The servers route what arrives as the table of routes says, and answer it. Whatever arrives, in any
  order and on any number of connections, the node of the process goes through exactly the events that
  the requests and messages cause that are read while their connection is being read: each with its
  target, method and data, threads and answers in between, nothing after the end of the process. And
  unless an exception ends the process, exactly these requests and messages are answered, in their order.
\<close>

theorem process_refines_node:
  assumes "fold_outcome (\<lambda>p ev. process_step W index ev p) p evs = Ok p'"
  shows "fold_outcome (\<lambda>n ev. node_step W ev n) (p_node p)
      (caused_along (process_step W index) (node_events W index) p evs) = Ok (p_node p') \<and>
    (p_terminated p' = None \<longrightarrow>
      map fst (p_replies p') = map fst (p_replies p) @ caused_along (process_step W index) requests_read p evs \<and>
      map fst (p_answers p') = map fst (p_answers p) @ caused_along (process_step W index) messages_read p evs)"
  using process.run_traced [OF assms] run_answers [OF assms] by (simp add: replied_def)

theorem process_refines_node_witness:
  "\<exists>(p :: jval process) (p' :: jval process). p_terminated p = None \<and> map fst (p_answers p) = [0] \<and> p_node p = example_node \<and>
     fold_outcome (\<lambda>n ev. node_step isolated_world ev n) example_node [Peers_post peer_json] = Ok (p_node p')"
proof -
  let ?step = "process_step isolated_world jval_index"
  let ?quiet = "take 4 crash_events"
  obtain response where r: "ws_on_read isolated_world jval_index
      (websocket_setup isolated_world (\<lambda>_. 0) (\<lambda>_. 0)) ''peer'' example_node = (Ok response, example_node)"
    using peer_message_answered by blast
  then obtain p where p: "fold_outcome (\<lambda>p ev. ?step ev p) (process_new example_node) ?quiet = Ok p"
    "p_terminated p = None" "p_node p = example_node"
    by (simp add: crash_events_def process_step_def process_new_def http_in_def ws_in_def set_ws_def ws_on_accept_def)
  have "caused_along ?step messages_read (process_new example_node) ?quiet = [0]"
    using r by (simp add: crash_events_def process_step_def process_new_def ws_in_def set_ws_def ws_on_accept_def)
  with process_refines_node [OF p(1)] p(2) have replied: "map fst (p_answers p) = [0]"
    by (simp add: process_new_def)
  obtain p' where p': "fold_outcome (\<lambda>p ev. ?step ev p) (process_new example_node) crash_events = Ok p'"
    using crash_run by blast
  have "ws_request isolated_world jval_index ''peer'' = json_type_error"
    by (simp add: ws_request_def isolated_world_def peer_json_def jval_api_def json_type_error_def)
  moreover have peer: "request_data isolated_world peer_request = Some peer_json"
    "http_route clk (rq_target peer_request) (rq_method peer_request) data = [Peers_post data]" for clk and data :: jval
    by (simp_all add: request_data_def peer_request_def isolated_world_def http_route_def)
  ultimately have "caused_along ?step (node_events isolated_world jval_index) (process_new example_node) crash_events =
      [Peers_post peer_json]"
    using r peer_request_refused [of "\<lambda>_. 0"]
    by (simp add: crash_events_def process_step_def process_new_def http_in_def ws_in_def set_ws_def set_http_def
        ws_on_accept_def http_on_read_def node_events_def json_type_error_def peer)
  with process_refines_node [OF p'] have run:
    "fold_outcome (\<lambda>n ev. node_step isolated_world ev n) example_node [Peers_post peer_json] = Ok (p_node p')"
    by (simp add: process_new_def)
  with replied p(2,3) show ?thesis by (intro exI [of _ p] exI [of _ p'] conjI)
qed

text \<open>
  C12. Only two kinds of HTTP requests can end the process, whatever clients and peers send: a body for
  which parsing throws something else than \<open>json::parse_error\<close>, such as a number out of range, and
  \<open>POST /peers\<close> with an address that cannot be reached. Every other exception of a handler, of parsing
  or of a detached thread is caught or cannot occur.
\<close>

theorem only_two_requests_end_process:
  assumes "json_errors W index" and "threads_ok n"
    and "fold_outcome (\<lambda>p ev. process_step W index ev p) (process_new n) evs = Ok p"
    and "p_terminated p = Some e"
  shows "\<exists>i rq clk. Http_read i (Request rq) clk \<in> set evs \<and>
    (rq_content_type rq = ''application/json'' \<and> rq_body rq \<noteq> [] \<and> w_parse W (rq_body rq) = Throw e \<and>
       kind e \<noteq> Json_parse_error \<or>
     rq_target rq = ''/peers'' \<and> rq_method rq = Post \<and> (\<exists>host port. w_connect W host port = Throw e))"
  using run_terminated [OF assms(1) _ _ assms(3,4)] assms(2) by (simp add: process_new_def escapes_def)

theorem only_two_requests_end_process_witness:
  "\<exists>p. fold_outcome (\<lambda>p ev. process_step isolated_world jval_index ev p) (process_new example_node) crash_events =
       Ok p \<and> p_terminated p = Some refused \<and>
     (\<exists>host port. w_connect isolated_world host port = Throw refused)"
proof -
  obtain p where p: "fold_outcome (\<lambda>p ev. process_step isolated_world jval_index ev p)
      (process_new example_node) crash_events = Ok p" "p_terminated p = Some refused"
    using crash_run by blast
  moreover have "threads_ok example_node" by (simp add: threads_ok_def example_node_def)
  moreover have "w_parse isolated_world s = Throw refused \<Longrightarrow> False" for s
    by (simp add: isolated_world_def json_syntax_error_def refused_def split: if_splits)
  ultimately show ?thesis
    using only_two_requests_end_process [OF isolated.json_errors_axioms, of example_node crash_events p refused] by blast
qed

text \<open>
  C36. A request with a number out of range ends the process: the exception of \<open>json::parse\<close> is not a
  \<open>json::parse_error\<close>, nothing else catches it, and no later event changes anything.
\<close>

theorem out_of_range_ends_process:
  assumes "p_terminated p = None" and "http_in i (\<lambda>ph. ph = H_reading) p"
    and "rq_content_type rq = ''application/json''" and "rq_body rq \<noteq> []"
    and "w_parse W (rq_body rq) = Throw e" and "kind e = Json_exception"
  shows "fold_outcome (\<lambda>p ev. process_step W index ev p) p (Http_read i (Request rq) clk # evs) =
    Ok (p\<lparr>p_terminated := Some e\<rparr>)"
proof -
  have "process_step W index (Http_read i (Request rq) clk) p = Ok (p\<lparr>p_terminated := Some e\<rparr>)"
    using assms by (simp add: process_step_def http_on_read_def handle_request_def parse_body_def)
  moreover have "fold_outcome (\<lambda>p ev. process_step W index ev p) (p\<lparr>p_terminated := Some e\<rparr>) evs =
      Ok (p\<lparr>p_terminated := Some e\<rparr>)"
    by (induction evs) (simp_all add: process_step_def)
  ultimately show ?thesis by simp
qed

definition huge_number :: exn where
  "huge_number = Exn Json_exception ''out_of_range.406: number overflow parsing 1e999''"

definition overflow_world :: "jval world" where
  "overflow_world = example_world\<lparr>w_parse := \<lambda>s. if s = ''1e999'' then Throw huge_number else json_syntax_error\<rparr>"

definition huge_request :: http_request where
  "huge_request = \<lparr>rq_target = ''/nowhere'', rq_method = Post, rq_content_type = ''application/json'',
     rq_body = ''1e999''\<rparr>"

theorem out_of_range_ends_process_witness:
  "\<exists>p. fold_outcome (\<lambda>p ev. process_step overflow_world jval_index ev p) (process_new example_node)
     [Http_accepted True, Http_read 0 (Request huge_request) (\<lambda>_. 0), Http_accepted True] = Ok p \<and>
     p_terminated p = Some huge_number \<and> p_http p = [H_reading]"
proof -
  let ?p = "(process_new example_node)\<lparr>p_http := [H_reading]\<rparr>"
  have "process_step overflow_world jval_index (Http_accepted True) (process_new example_node) = Ok ?p"
    by (simp add: process_step_def process_new_def)
  moreover have "fold_outcome (\<lambda>p ev. process_step overflow_world jval_index ev p) ?p
      [Http_read 0 (Request huge_request) (\<lambda>_. 0), Http_accepted True] = Ok (?p\<lparr>p_terminated := Some huge_number\<rparr>)"
    by (rule out_of_range_ends_process)
      (simp_all add: process_new_def http_in_def huge_request_def overflow_world_def huge_number_def)
  ultimately show ?thesis by simp
qed

text \<open>
  An HTTP connection carries one exchange: whatever happens on the network, at most one response
  is ever written to a connection, and none before its request has been read.
\<close>

theorem one_response_per_connection:
  assumes "fold_outcome (\<lambda>p ev. process_step W index ev p) (process_new n) evs = Ok p"
  shows "length (replies_to i p) \<le> 1 \<and> (http_in i (\<lambda>ph. ph = H_reading) p \<longrightarrow> replies_to i p = [])"
proof -
  have "one_reply (process_new n)" by (simp add: one_reply_def process_new_def replies_to_def)
  then have "one_reply p" by (rule replies.run_inv) (rule assms)
  then show ?thesis unfolding one_reply_def http_in_def by blast
qed

theorem one_response_per_connection_witness:
  "\<exists>p. fold_outcome (\<lambda>p ev. process_step isolated_world jval_index ev p) (process_new example_node) crash_events =
     Ok p \<and> length (replies_to 0 p) \<le> 1"
  using crash_run one_response_per_connection [of isolated_world jval_index example_node crash_events _ 0] by blast

text \<open>
  C32. Detached threads find what they need: after any events, a thread that the node has started does
  not throw, and one that asks a peer addresses an existing peer, whose connection it leaves without
  operations in flight.
\<close>

theorem detached_threads_work:
  assumes "threads_ok n" and "fold_outcome (\<lambda>n ev. node_step W ev n) n evs = Ok n'"
    and "t \<in> set (n_threads n')"
    and "length conns = length (n_peers n')" and "list_all idle conns"
  shows "run_thread W t n' \<noteq> (Throw e, n'') \<and>
    (t = Request_latest_block k \<or> t = Request_all_blocks k \<longrightarrow>
       (\<exists>conns'. peers_send W index net k request cb conns = Ok conns' \<and> list_all idle conns'))"
proof -
  have "threads_ok n'" using assms(1,2) by (rule threads.run_inv)
  with assms(3) have ok: "thread_ok n' t" by (auto simp: threads_ok_def list_all_iff)
  have "\<exists>conns'. peers_send W index net k request cb conns = Ok conns' \<and> list_all idle conns'"
    if "t = Request_latest_block k \<or> t = Request_all_blocks k"
  proof -
    from that ok assms(4) have k: "0 < k" "k \<le> length conns" by auto
    with assms(5) have idle: "idle (conns ! (k - 1))" by (simp add: list_all_length)
    then obtain c' where c': "peer_send W index net request cb (conns ! (k - 1)) = Ok c'" "idle c'"
      by (rule peer_send_idle)
    with k assms(5) show ?thesis
      by (auto simp: peers_send_def list_all_length nth_list_update)
  qed
  with run_thread_no_throw [OF ok] show ?thesis by blast
qed

theorem detached_threads_work_witness:
  "\<exists>conns'. peers_send example_world jval_index (\<lambda>_. Completed ''?'') 1 JNull () [connection_new] = Ok conns' \<and>
     list_all idle conns'"
proof -
  let ?n = "detach (Request_latest_block 1) example_node"
  have peers: "length (n_peers example_node) = 1" by (simp add: example_node_def)
  have "threads_ok example_node" by (simp add: threads_ok_def example_node_def)
  then have "threads_ok ?n" using peers by simp
  moreover have "Request_latest_block 1 \<in> set (n_threads ?n)" by (simp add: detach_def)
  ultimately show ?thesis
    using detached_threads_work [of ?n example_world "[]" ?n "Request_latest_block 1" "[connection_new]"
        undefined undefined 1 jval_index "\<lambda>_. Completed ''?''" JNull "()"] peers
    by (simp add: connection_new_def idle_def)
qed

end
