(* ===== verification/Logging.thy ===== *)
theory Logging
  imports Prelude
begin

text \<open>
  The logger of \<open>include/log.h\<close> and \<open>src/log.cc\<close>, the wrapper of \<open>include/format.h\<close> and the abbreviated
  identifiers of \<open>include/uuid.h\<close>. The sink of the logging library is the list of records it has
  been given; formatting is a parameter.
\<close>

section \<open>Model\<close>

datatype log_level = DEBUG | INFO | WARNING | ERROR

text \<open>The severities of the logging library, in its order.\<close>

datatype severity = Sev_trace | Sev_debug | Sev_info | Sev_warning | Sev_error | Sev_fatal

definition to_boost :: "log_level \<Rightarrow> severity" where
  "to_boost level = (case level of DEBUG \<Rightarrow> Sev_debug | INFO \<Rightarrow> Sev_info | WARNING \<Rightarrow> Sev_warning
     | ERROR \<Rightarrow> Sev_error)"

fun severity_rank :: "severity \<Rightarrow> nat" where
  "severity_rank Sev_trace = 0"
| "severity_rank Sev_debug = 1"
| "severity_rank Sev_info = 2"
| "severity_rank Sev_warning = 3"
| "severity_rank Sev_error = 4"
| "severity_rank Sev_fatal = 5"

instantiation severity :: linorder
begin

definition less_eq_severity :: "severity \<Rightarrow> severity \<Rightarrow> bool" where
  "a \<le> b \<longleftrightarrow> severity_rank a \<le> severity_rank b"

definition less_severity :: "severity \<Rightarrow> severity \<Rightarrow> bool" where
  "a < b \<longleftrightarrow> severity_rank a < severity_rank b"

instance
proof
  show "a = b" if "a \<le> b" "b \<le> a" for a b :: severity
    using that by (cases a; cases b) (simp_all add: less_eq_severity_def)
qed (auto simp: less_eq_severity_def less_severity_def)

end

record log_core =
  log_filter :: severity
  log_records :: "(severity \<times> string) list"

definition log_init :: "log_level \<Rightarrow> log_core \<Rightarrow> log_core" where
  "log_init level core = core\<lparr>log_filter := to_boost level\<rparr>"

definition log_write :: "severity \<Rightarrow> string \<Rightarrow> log_core \<Rightarrow> log_core" where
  "log_write sev msg core =
     (if log_filter core \<le> sev then core\<lparr>log_records := log_records core @ [(sev, msg)]\<rparr> else core)"

definition logger_log_text :: "log_level \<Rightarrow> string \<Rightarrow> log_core \<Rightarrow> log_core" where
  "logger_log_text level msg core =
     (case level of
        DEBUG \<Rightarrow> log_write Sev_debug msg core
      | INFO \<Rightarrow> log_write Sev_info msg core
      | WARNING \<Rightarrow> log_write Sev_warning msg core
      | ERROR \<Rightarrow> log_write Sev_error msg core)"

text \<open>A message without arguments is not formatted, so braces in it are harmless.\<close>

definition logger_log ::
    "(string \<Rightarrow> string list \<Rightarrow> string outcome) \<Rightarrow> string \<Rightarrow> log_level \<Rightarrow> string \<Rightarrow> string list \<Rightarrow>
     log_core \<Rightarrow> (unit, log_core) call" where
  "logger_log vformat m_prefix level msg_fmt args core =
     then_call (if args = [] then Ok msg_fmt else vformat msg_fmt args, core) (\<lambda>msg core.
       (Ok (), logger_log_text level ((if m_prefix = [] then [] else m_prefix @ '' '') @ msg) core))"

definition logger_new ::
    "(string \<Rightarrow> string list \<Rightarrow> string outcome) \<Rightarrow> string \<Rightarrow> string list \<Rightarrow> string outcome" where
  "logger_new vformat prefix_fmt args = vformat prefix_fmt args"

text \<open>\<open>substr(0, find('-'))\<close>; without a hyphen \<open>find\<close> gives \<open>npos\<close> and the whole text is kept.\<close>

definition uuid_to_string :: "bool \<Rightarrow> string \<Rightarrow> string" where
  "uuid_to_string abbrev str = (if abbrev then takeWhile (\<lambda>c. c \<noteq> CHR 0x2D) str else str)"

section \<open>Which messages appear\<close>

lemma to_boost_le_iff:
  "to_boost a \<le> to_boost b \<longleftrightarrow> a = b \<or> a = DEBUG \<or> b = ERROR \<or> a = INFO \<and> b = WARNING"
  by (cases a; cases b) (simp_all add: to_boost_def less_eq_severity_def)

lemma logger_log_text_eq: "logger_log_text level msg core = log_write (to_boost level) msg core"
  by (cases level) (simp_all add: logger_log_text_def to_boost_def)

text \<open>
  After \<open>init (level)\<close> a message of an equal or more severe level is recorded with its prefix, any
  other leaves no trace; text that comes from outside (no arguments) is recorded verbatim.
\<close>

lemma logged_iff:
  "logger_log vformat pre level' msg [] (log_init level core) =
     (Ok (), if to_boost level \<le> to_boost level'
             then (log_init level core)\<lparr>log_records := log_records core @
               [(to_boost level', (if pre = [] then [] else pre @ '' '') @ msg)]\<rparr>
             else log_init level core)"
  by (simp add: logger_log_def logger_log_text_eq log_write_def log_init_def)

end
