(* ===== verification/Startup.thy ===== *)
theory Startup
  imports Node Logging
begin

text \<open>
  Starting a node: \<open>src/main.cc\<close> and the constructor and \<open>run\<close> of \<open>Node\<close>. The options of the command
  line, the initial chain, the configuration, the log level, the node with its two bound
  addresses, and the messages it logs before the servers take over.
\<close>

section \<open>Model: command line\<close>

text \<open>
  The command line library: the parsed options, or an exception for an unknown option or a value of
  the wrong type. \<open>po_string\<close> and \<open>po_u16\<close> give the value of an option that is present.
\<close>

record 'v po_api =
  po_parse :: "string list \<Rightarrow> 'v outcome"
  po_string :: "'v \<Rightarrow> string \<Rightarrow> string option"
  po_u16 :: "'v \<Rightarrow> string \<Rightarrow> u16 option"
  po_switch :: "'v \<Rightarrow> string \<Rightarrow> bool"

record options =
  o_name :: string
  o_websocket_host :: string
  o_websocket_port :: u16
  o_http_host :: string
  o_http_port :: u16
  o_blockchain :: string
  o_configuration :: string

definition with_default :: "'a \<Rightarrow> 'a option \<Rightarrow> 'a" where
  "with_default d v = (case v of None \<Rightarrow> d | Some x \<Rightarrow> x)"

text \<open>
  The parameter \<open>verbose\<close> is passed by value, so \<open>--verbose\<close> sets a copy that dies with the call: the
  second component is the copy, which no caller can see.
\<close>

definition parse_options :: "'v po_api \<Rightarrow> string list \<Rightarrow> (options \<times> bool) outcome" where
  "parse_options P argv =
     map_outcome_val (\<lambda>vs.
       (\<lparr>o_name = with_default ''BuenzliNode'' (po_string P vs ''name''),
         o_websocket_host = with_default ''127.0.0.1'' (po_string P vs ''websocket-host''),
         o_websocket_port = with_default 8332 (po_u16 P vs ''websocket-port''),
         o_http_host = with_default ''127.0.0.1'' (po_string P vs ''http-host''),
         o_http_port = with_default 8333 (po_u16 P vs ''http-port''),
         o_blockchain = with_default [] (po_string P vs ''blockchain''),
         o_configuration = with_default [] (po_string P vs ''config'')\<rparr>,
        po_switch P vs ''verbose'')) (po_parse P argv)"

section \<open>Model: starting\<close>

text \<open>
  What starting needs of the system: reading a file that can be opened, parsing a numeric address and
  binding it, a new identifier, formatting, and the clock. An address is a natural number.
\<close>

record system =
  s_read :: "string \<Rightarrow> string option"
  s_make_address :: "string \<Rightarrow> nat outcome"
  s_acceptor :: "nat \<Rightarrow> u16 \<Rightarrow> unit outcome"
  s_uuid :: string
  s_format :: "string \<Rightarrow> string list \<Rightarrow> string outcome"
  s_clock :: "nat \<Rightarrow> time_point"

definition node_new :: "string \<Rightarrow> u16 \<Rightarrow> transaction_list blockchain \<Rightarrow> (unit, 'j node) call" where
  "node_new host port bc = blockchain_setup
     \<lparr>n_blockchain = bc, n_unspent_outputs = [], n_unconfirmed_pool = [], n_peers = [],
      n_host = host, n_port = port, n_threads = [], n_sent = [], n_files = Map.empty\<rparr>"

text \<open>The context of a server: the host must be a numeric address, names like \<open>localhost\<close> are not resolved.\<close>

definition server_context :: "system \<Rightarrow> string \<Rightarrow> u16 \<Rightarrow> unit outcome" where
  "server_context S host port = bind_outcome (s_make_address S host) (\<lambda>address. s_acceptor S address port)"

text \<open>The constructor: the log prefix, the two servers, and the body that sets up the chain.\<close>

definition create_node ::
    "system \<Rightarrow> options \<Rightarrow> transaction_list blockchain \<Rightarrow> (string \<times> 'j node) outcome" where
  "create_node S opts bc =
     bind_outcome (logger_new (s_format S) ''[{}] [{}]'' [o_name opts, uuid_to_string True (s_uuid S)]) (\<lambda>m_prefix.
     bind_outcome (server_context S (o_websocket_host opts) (o_websocket_port opts)) (\<lambda>_.
     bind_outcome (server_context S (o_http_host opts) (o_http_port opts)) (\<lambda>_.
       case node_new (o_websocket_host opts) (o_websocket_port opts) bc of
         (Ok _, n) \<Rightarrow> Ok (m_prefix, n)
       | (Throw e, _) \<Rightarrow> Throw e
       | (Undef, _) \<Rightarrow> Undef)))"

definition set_config :: "config \<Rightarrow> 'j world \<Rightarrow> 'j world" where
  "set_config C W = W\<lparr>w_env := (w_env W)\<lparr>cfg := C\<rparr>\<rparr>"

text \<open>
  The statements of \<open>main\<close> in their order: the chain is loaded while \<open>config()\<close> still has its initial
  value, the defaults of \<open>Config\<close>. An empty file name means that the option was not given.
\<close>

definition initial_chain :: "'j world \<Rightarrow> system \<Rightarrow> string \<Rightarrow> transaction_list blockchain outcome" where
  "initial_chain W S blockchain =
     (if blockchain = [] then Ok (blockchain_init from_defaults)
      else (case s_read S blockchain of
              None \<Rightarrow> Throw (Exn Runtime_error ''failed to open blockchain file'')
            | Some content \<Rightarrow>
                bind_outcome (w_parse W content)
                  (chain_from_json transaction_list_ops (w_env (set_config from_defaults W)) (s_clock S))))"

definition initial_config :: "('t, 'k) toml_api \<Rightarrow> string \<Rightarrow> config outcome" where
  "initial_config T configuration =
     (if configuration = [] then Ok from_defaults else from_toml T configuration)"

text \<open>
  \<open>verbose\<close> is the variable of \<open>main\<close>, which nothing has initialised. The result is the world with its
  configuration, the log prefix, the node, and the logging core.
\<close>

definition main_setup ::
    "('t, 'k) toml_api \<Rightarrow> 'j world \<Rightarrow> system \<Rightarrow> options \<Rightarrow> bool \<Rightarrow> log_core \<Rightarrow>
     ('j world \<times> string \<times> 'j node \<times> log_core) outcome" where
  "main_setup T W S opts verbose core =
     bind_outcome (initial_chain W S (o_blockchain opts)) (\<lambda>bc.
     bind_outcome (initial_config T (o_configuration opts)) (\<lambda>C.
       let core = log_init (if verbose then DEBUG else INFO) core
       in map_outcome_val (\<lambda>(m_prefix, n). (set_config C W, m_prefix, n, core)) (create_node S opts bc)))"

definition run_log :: "system \<Rightarrow> options \<Rightarrow> string \<Rightarrow> log_core \<Rightarrow> (unit, log_core) call" where
  "run_log S opts m_prefix core =
     then_call (logger_log (s_format S) m_prefix INFO ''Running node'' [] core) (\<lambda>_ core.
     then_call (logger_log (s_format S) m_prefix INFO ''Websocket API reachable under {}:{}''
         [o_websocket_host opts, dec_word (o_websocket_port opts)] core) (\<lambda>_ core.
       logger_log (s_format S) m_prefix INFO ''REST API reachable under {}:{}''
         [o_http_host opts, dec_word (o_http_port opts)] core))"

text \<open>How \<open>main\<close> ends its \<open>try\<close> block: with a message and failure, or with the servers running.\<close>

datatype 'j started = Exit_failure string | Running "'j world" "'j node" log_core

definition main_program ::
    "'v po_api \<Rightarrow> ('t, 'k) toml_api \<Rightarrow> 'j world \<Rightarrow> system \<Rightarrow> string list \<Rightarrow> bool \<Rightarrow> log_core \<Rightarrow>
     'j started outcome" where
  "main_program P T W S argv verbose core =
     (case bind_outcome (parse_options P argv) (\<lambda>(opts, _).
             bind_outcome (main_setup T W S opts verbose core) (\<lambda>(W', m_prefix, n, core).
             bind_outcome (fst (run_log S opts m_prefix core)) (\<lambda>_.
               Ok (Running W' n (snd (run_log S opts m_prefix core)))))) of
        Ok r \<Rightarrow> Ok r
      | Throw e \<Rightarrow> Ok (Exit_failure (what e))
      | Undef \<Rightarrow> Undef)"

section \<open>Properties\<close>

lemma node_new_fields:
  assumes "node_new host port bc = (Ok u, n)"
  shows "n_blockchain n = bc" "n_unconfirmed_pool n = []" "synced n"
    "n_host n = host" "n_port n = port" "n_peers n = []" "n_threads n = []"
proof -
  show "n_blockchain n = bc" "n_unconfirmed_pool n = []" "n_host n = host" "n_port n = port" "n_peers n = []" "n_threads n = []"
    using assms by (auto simp: node_new_def blockchain_setup_def update_unspent_def pool_clear_def
        outcome_simps split: outcome.splits)
  show "synced n"
    using assms blockchain_setup_synced by (metis after_pair node_new_def outcome.distinct(3))
qed

lemma create_node_Ok:
  "create_node S opts bc = Ok (m_prefix, n) \<Longrightarrow>
     node_new (o_websocket_host opts) (o_websocket_port opts) bc = (Ok (), n)"
  by (auto simp: create_node_def outcome_simps case_call_Ok_iff)

lemma main_setup_Ok:
  assumes "main_setup T W S opts verbose core = Ok (W', m_prefix, n, core')"
  obtains bc C where "initial_chain W S (o_blockchain opts) = Ok bc"
    "initial_config T (o_configuration opts) = Ok C"
    "node_new (o_websocket_host opts) (o_websocket_port opts) bc = (Ok (), n)"
    "W' = set_config C W" "core' = log_init (if verbose then DEBUG else INFO) core"
  using assms that by (auto simp: main_setup_def outcome_simps Let_def dest: create_node_Ok)

lemma main_program_Running:
  assumes "main_program P T W S argv verbose core = Ok (Running W' n core')"
  obtains opts v m_prefix core1 where "parse_options P argv = Ok (opts, v)"
    "main_setup T W S opts verbose core = Ok (W', m_prefix, n, core1)"
    "run_log S opts m_prefix core1 = (Ok (), core')"
proof -
  from assms have r: "bind_outcome (parse_options P argv) (\<lambda>(opts, _).
       bind_outcome (main_setup T W S opts verbose core) (\<lambda>(W', m_prefix, n, core).
       bind_outcome (fst (run_log S opts m_prefix core)) (\<lambda>_.
         Ok (Running W' n (snd (run_log S opts m_prefix core)))))) = Ok (Running W' n core')"
    by (auto simp: main_program_def split: outcome.splits)
  then show thesis by (auto simp: outcome_simps intro!: that prod_eqI)
qed

lemma logger_log_filter:
  "logger_log F pre level msg args core = (r, core') \<Longrightarrow> log_filter core' = log_filter core"
  by (cases "if args = [] then Ok msg else F msg args")
    (auto simp: logger_log_def logger_log_text_eq log_write_def split: if_splits)

lemma run_log_filter: "run_log S opts pre core = (Ok (), core') \<Longrightarrow> log_filter core' = log_filter core"
  by (auto simp: run_log_def outcome_simps dest!: logger_log_filter)

text \<open>The option \<open>--verbose\<close> has no effect: only the uninitialised variable decides the log level.\<close>

lemma verbose_is_ignored:
  "main_program (P\<lparr>po_switch := switch\<rparr>) T W S argv verbose core = main_program P T W S argv verbose core"
  by (cases "po_parse P argv") (simp_all add: main_program_def parse_options_def)

text \<open>
  C40. What a started program is follows from its command line: the configuration is that of the file
  given with \<open>--config\<close>, or the defaults without one; the chain is the one loaded from the file given with
  \<open>--blockchain\<close>, or empty, under the default configuration in both cases, and producible by the chain
  operations; the node has the address of \<open>--websocket-host\<close> and \<open>--websocket-port\<close>, no peers and no
  threads, an empty pool and the unspent outputs of its chain; and whether debug messages are logged is
  what the uninitialised variable of \<open>main\<close> says.
\<close>

theorem startup_state:
  assumes "main_program P T W S argv verbose core = Ok (Running W' n core')"
  shows "\<exists>vs C. po_parse P argv = Ok vs \<and> W' = set_config C W \<and>
    (case po_string P vs ''config'' of
       Some (c # file) \<Rightarrow> from_toml T (c # file) = Ok C
     | _ \<Rightarrow> C = from_defaults) \<and>
    (case po_string P vs ''blockchain'' of
       Some (c # file) \<Rightarrow> (\<exists>content j. s_read S (c # file) = Some content \<and> w_parse W content = Ok j \<and>
         chain_from_json transaction_list_ops (w_env (set_config from_defaults W)) (s_clock S) j = Ok (n_blockchain n))
     | _ \<Rightarrow> n_blockchain n = blockchain_init from_defaults) \<and>
    n_host n = with_default ''127.0.0.1'' (po_string P vs ''websocket-host'') \<and>
    n_port n = with_default 8332 (po_u16 P vs ''websocket-port'') \<and>
    n_peers n = [] \<and> n_threads n = [] \<and> n_unconfirmed_pool n = [] \<and> synced n \<and>
    chain_reachable transaction_list_ops (w_env (set_config from_defaults W)) (n_blockchain n) \<and>
    log_filter core' = to_boost (if verbose then DEBUG else INFO)"
proof -
  let ?E = "w_env (set_config from_defaults W)"
  from assms obtain opts v m_prefix core1 where opts: "parse_options P argv = Ok (opts, v)"
    and m: "main_setup T W S opts verbose core = Ok (W', m_prefix, n, core1)"
    and log: "run_log S opts m_prefix core1 = (Ok (), core')" by (rule main_program_Running)
  from opts obtain vs where vs: "po_parse P argv = Ok vs"
    and o: "o_configuration opts = with_default [] (po_string P vs ''config'')"
      "o_blockchain opts = with_default [] (po_string P vs ''blockchain'')"
      "o_websocket_host opts = with_default ''127.0.0.1'' (po_string P vs ''websocket-host'')"
      "o_websocket_port opts = with_default 8332 (po_u16 P vs ''websocket-port'')"
    by (auto simp: parse_options_def map_outcome_val_Ok_iff)
  from m obtain bc C where bc: "initial_chain W S (o_blockchain opts) = Ok bc"
    and C: "initial_config T (o_configuration opts) = Ok C"
    and n: "node_new (o_websocket_host opts) (o_websocket_port opts) bc = (Ok (), n)"
    and W': "W' = set_config C W" and core1: "core1 = log_init (if verbose then DEBUG else INFO) core"
    by (rule main_setup_Ok)
  from bc have "chain_reachable transaction_list_ops ?E bc"
    using chain_reachable.start [of transaction_list_ops ?E]
    by (auto simp: initial_chain_def set_config_def outcome_simps intro: chain_from_json_reachable
        split: if_splits option.splits)
  moreover have "case po_string P vs ''config'' of Some (c # file) \<Rightarrow> from_toml T (c # file) = Ok C | _ \<Rightarrow> C = from_defaults"
    using C o(1) by (auto simp: initial_config_def with_default_def split: option.splits list.splits if_splits)
  moreover have "case po_string P vs ''blockchain'' of
       Some (c # file) \<Rightarrow> (\<exists>content j. s_read S (c # file) = Some content \<and> w_parse W content = Ok j \<and>
         chain_from_json transaction_list_ops ?E (s_clock S) j = Ok (n_blockchain n))
     | _ \<Rightarrow> n_blockchain n = blockchain_init from_defaults"
    using bc o(2) unfolding node_new_fields(1) [OF n]
    by (auto simp: initial_chain_def with_default_def outcome_simps split: option.splits list.splits if_splits)
  ultimately show ?thesis
    using vs W' o(3,4) node_new_fields(2-) [OF n] node_new_fields(1) [OF n, symmetric] run_log_filter [OF log] core1
    by (intro exI [of _ vs] exI [of _ C]) (simp add: log_init_def)
qed

text \<open>
  A TOML document that sets the initial difficulty to 8 and nothing else, a command line with
  \<open>--config\<close> and \<open>--verbose\<close>, and a system on which every address is free.
\<close>

definition example_toml :: "(nat, nat) toml_api" where
  "example_toml = \<lparr>toml_parse_file = (\<lambda>_. Ok 0),
     toml_contains = (\<lambda>t k. t = 0 \<and> k = ''blockgen'' \<or> t = 1 \<and> k = ''difficulty_init''),
     toml_index = (\<lambda>t k. t + 1), toml_as_table = (\<lambda>v. if v = 1 then Some 1 else None),
     toml_value_rep = (\<lambda>_. None), toml_value_double = (\<lambda>v. if v = 2 then Some (Fin 8) else None),
     toml_value_size = (\<lambda>_. None)\<rparr>"

definition example_po :: "unit po_api" where
  "example_po = \<lparr>po_parse = (\<lambda>_. Ok ()), po_string = (\<lambda>_. [''config'' \<mapsto> ''node.toml'']),
     po_u16 = (\<lambda>_. Map.empty), po_switch = (\<lambda>_ k. k = ''verbose'')\<rparr>"

definition example_system :: system where
  "example_system = \<lparr>s_read = (\<lambda>_. None), s_make_address = (\<lambda>_. Ok 0), s_acceptor = (\<lambda>_ _. Ok ()), s_uuid = ''12ab-34'',
     s_format = (\<lambda>f args. Ok (f @ concat args)), s_clock = (\<lambda>_. 0)\<rparr>"

definition quiet_core :: log_core where
  "quiet_core = \<lparr>log_filter = Sev_trace, log_records = []\<rparr>"

definition example_options :: options where
  "example_options = \<lparr>o_name = ''BuenzliNode'', o_websocket_host = ''127.0.0.1'', o_websocket_port = 8332,
     o_http_host = ''127.0.0.1'', o_http_port = 8333, o_blockchain = [], o_configuration = ''node.toml''\<rparr>"

lemma example_toml_config:
  "from_toml example_toml f = Ok (from_defaults\<lparr>blockgen_difficulty_init := Fin 8\<rparr>)"
  by (simp add: from_toml_def example_toml_def toml_for_table_def toml_blockgen_def toml_assign_def
      comp_def)

lemma example_parse: "parse_options example_po argv = Ok (example_options, True)"
  by (simp add: parse_options_def example_po_def with_default_def example_options_def)

lemma example_setup:
  "\<exists>pre n. main_setup example_toml example_world example_system example_options verbose quiet_core =
     Ok (set_config (from_defaults\<lparr>blockgen_difficulty_init := Fin 8\<rparr>) example_world, pre, n,
         log_init (if verbose then DEBUG else INFO) quiet_core)"
  by (simp add: main_setup_def initial_chain_def initial_config_def example_toml_config create_node_def server_context_def
      node_new_def blockchain_setup_def update_unspent_def unspent_update_all_def unspent_clear_def
      example_system_def logger_new_def example_options_def)

lemma example_startup:
  "\<exists>n core. main_program example_po example_toml example_world example_system argv verbose quiet_core =
     Ok (Running (set_config (from_defaults\<lparr>blockgen_difficulty_init := Fin 8\<rparr>) example_world) n core)"
proof -
  obtain pre n where m: "main_setup example_toml example_world example_system example_options verbose
      quiet_core = Ok (set_config (from_defaults\<lparr>blockgen_difficulty_init := Fin 8\<rparr>) example_world, pre, n,
        log_init (if verbose then DEBUG else INFO) quiet_core)"
    using example_setup by blast
  have "fst (run_log example_system example_options pre core) = Ok ()" for core
    by (simp add: run_log_def logger_log_def example_system_def)
  with m show ?thesis by (simp add: main_program_def example_parse)
qed

theorem startup_state_witness:
  "\<exists>(n :: jval node) core'. main_program example_po example_toml example_world example_system
       [''--config'', ''node.toml'', ''--verbose''] False quiet_core =
       Ok (Running (set_config (from_defaults\<lparr>blockgen_difficulty_init := Fin 8\<rparr>) example_world) n core') \<and>
     n_blockchain n = blockchain_init from_defaults \<and> n_host n = ''127.0.0.1'' \<and> synced n \<and> log_filter core' = Sev_info"
proof -
  obtain n core' where *: "main_program example_po example_toml example_world example_system
       [''--config'', ''node.toml'', ''--verbose''] False quiet_core =
       Ok (Running (set_config (from_defaults\<lparr>blockgen_difficulty_init := Fin 8\<rparr>) example_world) n core')"
    using example_startup by blast
  have "n_blockchain n = blockchain_init from_defaults \<and> n_host n = ''127.0.0.1'' \<and> synced n \<and> log_filter core' = Sev_info"
    using startup_state [OF *] by (auto simp: to_boost_def example_po_def with_default_def)
  with * show ?thesis by blast
qed

text \<open>
  A node started without a chain file mines and accepts its first blocks with the default
  difficulty whatever initial difficulty its configuration file sets, because the chain is
  created before the configuration is read.
\<close>

theorem configured_difficulty_is_ignored:
  assumes "main_setup T W S opts verbose core = Ok (W', m_prefix, n, core')" and "o_blockchain opts = []"
  shows "m_difficulty (m_difficulty_adjuster (n_blockchain n)) = Fin 2 \<and>
    initial_config T (o_configuration opts) = Ok (cfg (w_env W'))"
proof -
  from assms(1) obtain bc C where "initial_chain W S (o_blockchain opts) = Ok bc"
    and C: "initial_config T (o_configuration opts) = Ok C"
    and n: "node_new (o_websocket_host opts) (o_websocket_port opts) bc = (Ok (), n)"
    and W': "W' = set_config C W" by (rule main_setup_Ok)
  then have "bc = blockchain_init from_defaults" using assms(2) by (simp add: initial_chain_def)
  with C W' node_new_fields [OF n] show ?thesis
    by (simp add: blockchain_init_def adjuster_init_def set_config_def)
qed

theorem configured_difficulty_is_ignored_witness:
  "\<exists>(W' :: jval world) n :: jval node. blockgen_difficulty_init (cfg (w_env W')) = Fin 8 \<and>
     m_difficulty (m_difficulty_adjuster (n_blockchain n)) = Fin 2"
proof -
  let ?W = "set_config (from_defaults\<lparr>blockgen_difficulty_init := Fin 8\<rparr>) example_world"
  obtain pre n where "main_setup example_toml example_world example_system example_options False
      quiet_core = Ok (?W, pre, n, log_init INFO quiet_core)"
    using example_setup [of False] by auto
  from configured_difficulty_is_ignored [OF this] show ?thesis
    by (intro exI [of _ ?W] exI [of _ n]) (simp add: set_config_def example_options_def)
qed

end
