(* ===== verification/Network.thy ===== *)
theory Network
  imports Servers Startup
begin

text \<open>
  Two nodes: a transaction posted at one reaches the pool of the other, a block mined by one is accepted
  by the other, what happens there when its transactions were pooled, and a node that has fallen behind
  takes over the chain of another.
\<close>

section \<open>From one node to another\<close>

lemma construct_next_block_valid:
  "construct_next_block D E clk data c = Some (Ok u, c') \<Longrightarrow>
     block_valid D E (clk 1) (next_block D E (clk 0) data c) = Ok (True, [])"
proof -
  assume "construct_next_block D E clk data c = Some (Ok u, c')"
  then obtain err where "block_valid D E (clk 1) (next_block D E (clk 0) data c) = Ok (True, err)"
    by (auto simp: construct_next_block_def [folded next_block_def] Let_def
        split: outcome.splits bool.splits prod.splits)
  then show ?thesis by (simp add: block_valid_iff)
qed

text \<open>What a successful request to mine has done.\<close>

lemma handle_blocks_post_Ok:
  assumes "\<not> proof_of_work (w_env W)" and "handle_blocks_post W clk data n = Some (Ok r, n')"
  obtains address ts b where
    "bind_outcome (json_at (w_api W) data ''address'') (json_get_string (w_api W)) = Ok address"
    "ts = reward (w_env W) address (chain_length (n_blockchain n)) #
       take (unat (transaction_num_per_block (cfg (w_env W)))) (n_unconfirmed_pool n)"
    "b = next_block transaction_list_ops (w_env W) (clk 0) ts (n_blockchain n)"
    "block_valid transaction_list_ops (w_env W) (clk 1) b = Ok (True, [])"
    "m_blocks (n_blockchain n') = m_blocks (n_blockchain n) @ [b]"
    "unspent_update_all (n_unspent_outputs n) ts = Ok (n_unspent_outputs n')"
proof -
  let ?k = "unat (transaction_num_per_block (cfg (w_env W)))"
  let ?n = "n\<lparr>n_unconfirmed_pool := drop ?k (n_unconfirmed_pool n)\<rparr>"
  let ?ts = "\<lambda>address. reward (w_env W) address (chain_length (n_blockchain n)) # take ?k (n_unconfirmed_pool n)"
  from assms(2) obtain address where addr:
      "bind_outcome (json_at (w_api W) data ''address'') (json_get_string (w_api W)) = Ok address"
    by (cases "bind_outcome (json_at (w_api W) data ''address'') (json_get_string (w_api W))")
      (auto simp: handle_blocks_post_def)
  with assms(2) obtain q c where con: "construct_next_block transaction_list_ops (w_env W) clk
      (?ts address) (n_blockchain n) = Some (q, c)"
    and r: "then_call (rethrow (HTTPError status_bad_request) (malformed ''POST /blocks'' W data)
        (then_call (q, ?n\<lparr>n_blockchain := c\<rparr>) (\<lambda>_ n. then_call (update_unspent (?ts address) n) (\<lambda>_ n. prune_pool n))))
      (\<lambda>_ n. (Ok (status_ok, json_null (w_api W)), detach Broadcast_latest_block n)) = (Ok r, n')"
    by (auto simp: handle_blocks_post_def mine_on_node_def construct_on_node_def
        drain_pool_take_drop Let_def)
  have rethrow_Ok: "rethrow k msg m = (Ok x, s) \<longleftrightarrow> m = (Ok x, s)" for k msg and m :: "(unit, 'a node) call" and x s
    by (induction k msg m rule: rethrow.induct) auto
  from r obtain n1 n2 where q: "q = Ok ()"
    and u: "update_unspent (?ts address) (?n\<lparr>n_blockchain := c\<rparr>) = (Ok (), n1)"
    and p: "prune_pool n1 = (Ok (), n2)" and n': "n' = detach Broadcast_latest_block n2"
    by (auto simp: outcome_simps rethrow_Ok)
  from con q obtain b where b: "m_blocks c = m_blocks (n_blockchain n) @ [b]"
      "b = next_block transaction_list_ops (w_env W) (clk 0) (?ts address) (n_blockchain n)"
    using assms(1) by (auto elim: construct_next_block_Ok)
  from u pool_calls_keep(2) [OF p] n' have "n_blockchain n' = c"
      "unspent_update_all (n_unspent_outputs n) (?ts address) = Ok (n_unspent_outputs n')"
    by (auto simp: update_unspent_def detach_def split: outcome.splits)
  with b con q addr construct_next_block_valid show thesis by (intro that [of address "?ts address" b]) auto
qed

text \<open>A request to mine succeeds when the pooled transactions are valid in the next block.\<close>

lemma mining_succeeds:
  assumes "\<not> proof_of_work (w_env W)" and "node_inv W n"
    and "bind_outcome (json_at (w_api W) data ''address'') (json_get_string (w_api W)) = Ok m"
    and ts: "ts = reward (w_env W) m (chain_length (n_blockchain n)) # n_unconfirmed_pool n"
    and "length (n_unconfirmed_pool n) \<le> unat (transaction_num_per_block (cfg (w_env W)))"
    and "fst (transaction_list_valid (w_env W) ts (chain_length (n_blockchain n)))"
    and "not_ahead (w_env W) (clk 0) (clk 1)"
    and "unspent_update_all (n_unspent_outputs n) ts = Ok us"
  obtains n' where "handle_blocks_post W clk data n = Some (Ok (status_ok, json_null (w_api W)), n')"
    "n_unspent_outputs n' = us" "n_unconfirmed_pool n' = []"
proof -
  let ?c = "n_blockchain n" and ?E = "w_env W"
  let ?b = "next_block transaction_list_ops ?E (clk 0) ts ?c"
  have "b_index ?b = chain_length ?c" using next_block_index assms(2) by (auto simp: node_inv_def)
  then have "block_valid transaction_list_ops ?E (clk 1) ?b = Ok (True, [])"
    using assms(6,7) by (simp add: block_valid_iff)
  then have "construct_next_block transaction_list_ops ?E clk ts ?c = Some (Ok (), ?c\<lparr>m_blocks := m_blocks ?c @ [?b]\<rparr>)"
    using assms(1) by (simp add: construct_next_block_def flip: next_block_def)
  then have "mine_on_node W clk m n = Some (Ok (), n\<lparr>n_blockchain := ?c\<lparr>m_blocks := m_blocks ?c @ [?b]\<rparr>,
      n_unspent_outputs := us, n_unconfirmed_pool := []\<rparr>)"
    using assms(5,8) by (simp add: mine_on_node_def construct_on_node_def drain_pool_take_drop Let_def
        update_unspent_def prune_pool_def update_pool_def flip: ts)
  then show thesis
    using assms(3) by (intro that [of "detach Broadcast_latest_block (n\<lparr>n_blockchain := ?c\<lparr>m_blocks := m_blocks ?c @ [?b]\<rparr>,
      n_unspent_outputs := us, n_unconfirmed_pool := []\<rparr>)"]) (simp_all add: handle_blocks_post_def detach_def)
qed

text \<open>Transactions that were linked to the same unspent outputs keep their validity.\<close>

lemma transaction_list_valid_linked:
  assumes "fst (transaction_list_valid E (reward E a i # ts) i)"
    and "\<And>t. t \<in> set ts \<Longrightarrow> t_unspent_outputs t = us"
  shows "fst (transaction_list_valid E (map (update_unspent_outputs us) (reward E a i # ts)) i)"
proof -
  have "map (update_unspent_outputs us) ts = ts"
    using assms(2) by (induction ts) (auto simp: update_unspent_outputs_def)
  with assms(1) show ?thesis
    by (simp add: transaction_list_valid_iff All_less_Suc2 link_reward)
qed

lemma link_strip_block:
  "link_block us (strip_block (map (update_unspent_outputs us')) b) = link_block us b"
  by (simp add: link_block_def strip_block_def update_unspent_outputs_def)

lemma remove_from_empty_pool:
  "n_unconfirmed_pool n = [] \<Longrightarrow> remove_from_pool ts n = (Ok (), n)"
proof (induction ts arbitrary: n)
  case (Cons t ts)
  then have "update_pool (\<lambda>pool. pool_remove pool t) n = (Ok (), n)"
    by (simp add: update_pool_def pool_remove_def)
  with Cons show ?case by simp
qed simp

text \<open>A block that extends the chain of a node is appended.\<close>

lemma receive_block_next:
  assumes "\<not> proof_of_work (w_env W)"
    and parsed: "bind_outcome (json_at (w_api W) data ''block'')
      (block_from_json transaction_list_ops (w_api W)) = Ok b0"
    and lb: "lb = link_block (n_unspent_outputs n) b0"
    and valid: "block_valid transaction_list_ops (w_env W) (clk 0) lb = Ok (True, [])"
    and link: "linked transaction_list_ops (w_env W) (last_block (m_blocks (n_blockchain n))) lb"
    and index: "b_index lb = chain_length (n_blockchain n)"
    and time: "not_ahead (w_env W) (b_timestamp lb) (clk 1)"
    and prev: "m_blocks (n_blockchain n) = [] \<or>
      not_ahead (w_env W) (b_timestamp (last (m_blocks (n_blockchain n)))) (b_timestamp lb)"
  shows "receive_block W clk data n = (Ok (Some lb),
    n\<lparr>n_blockchain := (n_blockchain n)\<lparr>m_blocks := m_blocks (n_blockchain n) @ [lb]\<rparr>\<rparr>)"
proof -
  let ?n1 = "n\<lparr>n_blockchain := (n_blockchain n)\<lparr>m_blocks := m_blocks (n_blockchain n) @ [lb]\<rparr>\<rparr>"
  have "append_next_block transaction_list_ops (w_env W) (clk 1) lb (n_blockchain n) =
      (Ok (), (n_blockchain n)\<lparr>m_blocks := m_blocks (n_blockchain n) @ [lb]\<rparr>)"
    using assms(1) link time by (simp add: append_next_block_Ok_iff)
  then have "append_on_node W (clk 1) lb n = (Ok (), ?n1)" by (simp add: append_on_node_def)
  moreover have "m_blocks (n_blockchain n) = [] \<Longrightarrow> is_genesis lb"
    "m_blocks (n_blockchain n) \<noteq> [] \<Longrightarrow>
       is_successor_of (w_env W) lb (last (m_blocks (n_blockchain n))) = Ok True"
    using link prev by (auto simp: is_genesis_def is_successor_of_iff linked_def last_block_def)
  ultimately have "place_block W (clk 1) data lb n = (Ok (Some lb), ?n1)"
    using index by (simp add: place_block_def)
  with parsed valid lb show ?thesis by (simp add: receive_block_def Let_def)
qed

text \<open>
  A block that one node has mined is appended by another with the same chain and unspent outputs, and its
  transactions lead to the same unspent outputs.
\<close>

lemma mined_block_received:
  assumes "json_library (w_api W)" and "\<not> proof_of_work (w_env W)" and "node_inv W a"
    and "n_blockchain b = n_blockchain a" and "n_unspent_outputs b = n_unspent_outputs a"
    and "\<forall>t \<in> set (n_unconfirmed_pool a). t_unspent_outputs t = n_unspent_outputs a"
    and "handle_blocks_post W clk data a = Some (Ok r, a')"
    and "handle_request_latest_block W a' = (Ok msg, a')"
    and "sint (clk 1) \<le> sint (clk' 0)" and "sint (clk 1) \<le> sint (clk' 1)"
    and "m_blocks (n_blockchain a) = [] \<or>
      not_ahead (w_env W) (b_timestamp (last (m_blocks (n_blockchain a)))) (clk 0)"
  obtains address lb where
    "bind_outcome (json_at (w_api W) data ''address'') (json_get_string (w_api W)) = Ok address"
    "receive_block W clk' msg b = (Ok (Some lb),
      b\<lparr>n_blockchain := (n_blockchain b)\<lparr>m_blocks := m_blocks (n_blockchain b) @ [lb]\<rparr>\<rparr>)"
    "map b_hash (m_blocks (n_blockchain a) @ [lb]) = map b_hash (m_blocks (n_blockchain a'))"
    "unspent_update_all (n_unspent_outputs a) (b_data lb) = Ok (n_unspent_outputs a')"
    "map t_hash (b_data lb) = map t_hash (reward (w_env W) address (chain_length (n_blockchain a)) #
       take (unat (transaction_num_per_block (cfg (w_env W)))) (n_unconfirmed_pool a))"
proof -
  let ?c = "n_blockchain a" and ?us = "n_unspent_outputs a" and ?E = "w_env W"
  from assms(7) obtain address ts blk where
    address: "bind_outcome (json_at (w_api W) data ''address'') (json_get_string (w_api W)) = Ok address"
    and ts: "ts = reward ?E address (chain_length ?c) #
        take (unat (transaction_num_per_block (cfg ?E))) (n_unconfirmed_pool a)"
    and blk: "blk = next_block transaction_list_ops ?E (clk 0) ts ?c"
    and valid: "block_valid transaction_list_ops ?E (clk 1) blk = Ok (True, [])"
    and blocks: "m_blocks (n_blockchain a') = m_blocks ?c @ [blk]"
    and us: "unspent_update_all ?us ts = Ok (n_unspent_outputs a')"
    by (rule handle_blocks_post_Ok [OF assms(2)])
  let ?lb = "link_block ?us blk"
  have parsed: "bind_outcome (json_at (w_api W) msg ''block'')
      (block_from_json transaction_list_ops (w_api W)) =
      Ok (strip_block (map (update_unspent_outputs [])) blk)"
    using assms(8) blocks json_library.at_object_lookup [OF assms(1)]
      json_library.transactions_block_roundtrip [OF assms(1)]
    by (auto simp: handle_request_latest_block_def)
  have index: "b_index blk = chain_length ?c"
    using next_block_index assms(3) by (auto simp: blk node_inv_def)
  have data: "fst (transaction_list_valid ?E (map (update_unspent_outputs ?us) ts) (chain_length ?c))"
    using valid assms(6) index unfolding ts
    by (intro transaction_list_valid_linked) (auto simp: block_valid_iff blk ts dest: in_set_takeD)
  then have link: "linked transaction_list_ops ?E (last_block (m_blocks ?c)) ?lb"
    using index valid by (simp add: linked_def block_valid_iff blk)
  have "not_ahead ?E (clk 0) (clk 1)" using valid by (simp add: block_valid_iff blk)
  then have time: "not_ahead ?E (b_timestamp ?lb) (clk' 0)" "not_ahead ?E (b_timestamp ?lb) (clk' 1)"
    using assms(9,10) by (auto simp: blk intro: not_ahead_mono)
  have "receive_block W clk' msg b = (Ok (Some ?lb),
      b\<lparr>n_blockchain := (n_blockchain b)\<lparr>m_blocks := m_blocks (n_blockchain b) @ [?lb]\<rparr>\<rparr>)"
    using receive_block_next [OF assms(2) parsed, of ?lb b clk'] assms(4,5,11) data link time index
    by (auto simp: link_strip_block block_valid_iff blk linked_def)
  moreover have "b_data ?lb = map (update_unspent_outputs ?us) ts" by (simp add: blk)
  then have "map t_hash (b_data ?lb) = map t_hash ts" "unspent_update_all ?us (b_data ?lb) = Ok (n_unspent_outputs a')"
    using us by (simp_all add: update_unspent_linked)
  moreover have "map b_hash (m_blocks ?c @ [?lb]) = map b_hash (m_blocks (n_blockchain a'))" using blocks by simp
  ultimately show thesis using address ts by (intro that [of address ?lb]) simp_all
qed

text \<open>
  C4. A block mined by one node reaches another: when both have the same chain and unspent
  outputs, the second has no unconfirmed transactions of its own, the pooled transactions of the
  miner are linked to its current unspent outputs, and the clock of the receiver is not behind,
  then the receiver accepts the miner's answer to a request for its latest block and afterwards
  has the same block hashes and the same unspent outputs (build without proof of work).
\<close>

theorem mined_block_propagates:
  assumes "json_library (w_api W)" and "\<not> proof_of_work (w_env W)" and "node_inv W a"
    and "n_blockchain b = n_blockchain a" and "n_unspent_outputs b = n_unspent_outputs a"
    and "n_unconfirmed_pool b = []"
    and "\<forall>t \<in> set (n_unconfirmed_pool a). t_unspent_outputs t = n_unspent_outputs a"
    and "handle_blocks_post W clk data a = Some (Ok r, a')"
    and "handle_request_latest_block W a' = (Ok msg, a')"
    and "sint (clk 1) \<le> sint (clk' 0)" and "sint (clk 1) \<le> sint (clk' 1)"
    and "m_blocks (n_blockchain a) = [] \<or>
      not_ahead (w_env W) (b_timestamp (last (m_blocks (n_blockchain a)))) (clk 0)"
  shows "\<exists>b'. handle_receive_latest_block W clk' msg b = (Ok (json_null (w_api W)), b') \<and>
    map b_hash (m_blocks (n_blockchain b')) = map b_hash (m_blocks (n_blockchain a')) \<and>
    n_unspent_outputs b' = n_unspent_outputs a'"
proof -
  let ?c = "n_blockchain a"
  obtain address lb where
      "bind_outcome (json_at (w_api W) data ''address'') (json_get_string (w_api W)) = Ok address"
    and received: "receive_block W clk' msg b = (Ok (Some lb),
      b\<lparr>n_blockchain := (n_blockchain b)\<lparr>m_blocks := m_blocks (n_blockchain b) @ [lb]\<rparr>\<rparr>)"
    and hashes: "map b_hash (m_blocks ?c @ [lb]) = map b_hash (m_blocks (n_blockchain a'))"
    and us: "unspent_update_all (n_unspent_outputs a) (b_data lb) = Ok (n_unspent_outputs a')"
    and "map t_hash (b_data lb) = map t_hash (reward (w_env W) address (chain_length ?c) #
      take (unat (transaction_num_per_block (cfg (w_env W)))) (n_unconfirmed_pool a))"
    by (rule mined_block_received [OF assms(1-5) assms(7-12)])
  have "handle_receive_latest_block W clk' msg b = (Ok (json_null (w_api W)),
      b\<lparr>n_blockchain := ?c\<lparr>m_blocks := m_blocks ?c @ [lb]\<rparr>, n_unspent_outputs := n_unspent_outputs a'\<rparr>)"
    using received us assms(4-6) by (simp add: handle_receive_latest_block_def update_unspent_def
        remove_from_empty_pool prune_pool_def update_pool_def)
  with hashes show ?thesis by simp
qed

definition fresh_node :: "jval node" where
  "fresh_node = example_node\<lparr>n_unspent_outputs := []\<rparr>"

lemma fresh_node_mines:
  "\<exists>a'. handle_blocks_post example_world (\<lambda>_. 1000) (JObject [(''address'', JString ''alice'')]) fresh_node =
     Some (Ok (status_ok, JNull), a') \<and> m_blocks (n_blockchain a') = [example_genesis]"
proof -
  let ?c = "blockchain_init from_defaults :: transaction_list blockchain"
  have "block_valid transaction_list_ops (example_env False) 1000 example_genesis = Ok (True, [])"
    using example_genesis_linked example_not_ahead [of False]
    by (auto simp: block_valid_iff linked_def)
  then have "construct_next_block transaction_list_ops (example_env False) (\<lambda>_. 1000)
      [reward (example_env False) ''alice'' 0] ?c = Some (Ok (), ?c\<lparr>m_blocks := [example_genesis]\<rparr>)"
    by (simp add: construct_next_block_def flip: example_genesis_def)
  then obtain us where "mine_on_node example_world (\<lambda>_. 1000) ''alice'' fresh_node = Some (Ok (),
      fresh_node\<lparr>n_blockchain := ?c\<lparr>m_blocks := [example_genesis]\<rparr>, n_unspent_outputs := us\<rparr>)"
    by (simp add: mine_on_node_def construct_on_node_def drain_pool_take_drop
        fresh_node_def example_node_def chain_length_def update_unspent_def unspent_update_all_def
        unspent_update_def prune_pool_def update_pool_def Let_def)
  moreover have "bind_outcome (json_at jval_api (JObject [(''address'', JString ''alice'')]) ''address'')
      (json_get_string jval_api) = Ok ''alice''" "json_null jval_api = JNull"
    by (simp_all add: jval_api_def)
  ultimately show ?thesis by (simp add: handle_blocks_post_def detach_def)
qed

theorem mined_block_propagates_witness:
  "\<exists>a' msg b'.
     handle_blocks_post example_world (\<lambda>_. 1000) (JObject [(''address'', JString ''alice'')]) fresh_node =
       Some (Ok (status_ok, JNull), a') \<and>
     handle_request_latest_block example_world a' = (Ok msg, a') \<and>
     handle_receive_latest_block example_world (\<lambda>_. 2000) msg fresh_node = (Ok JNull, b') \<and>
     map b_hash (m_blocks (n_blockchain b')) = map b_hash (m_blocks (n_blockchain a'))"
proof -
  obtain a' where a': "handle_blocks_post example_world (\<lambda>_. 1000)
      (JObject [(''address'', JString ''alice'')]) fresh_node = Some (Ok (status_ok, JNull), a')"
    "m_blocks (n_blockchain a') = [example_genesis]"
    using fresh_node_mines by blast
  then obtain msg where msg: "handle_request_latest_block example_world a' = (Ok msg, a')"
    by (simp add: handle_request_latest_block_def)
  have "\<exists>b'. handle_receive_latest_block example_world (\<lambda>_. 2000) msg fresh_node =
        (Ok (json_null (w_api example_world)), b') \<and>
      map b_hash (m_blocks (n_blockchain b')) = map b_hash (m_blocks (n_blockchain a')) \<and>
      n_unspent_outputs b' = n_unspent_outputs a'"
  proof (rule mined_block_propagates [OF _ _ _ _ _ _ _ a'(1) msg])
    show "json_library (w_api example_world)" using jval.json_library_axioms by simp
    show "node_inv example_world fresh_node" using example_node_inv by (simp add: fresh_node_def)
  qed (simp_all add: fresh_node_def example_node_def)
  with a'(1) msg show ?thesis by (auto simp: jval_api_def)
qed

text \<open>
  A transaction that a client posts reaches the peers: what \<open>broadcast_transaction\<close> sends is accepted by a
  node with the same unspent outputs and pool, which then has the same pool again.
\<close>

theorem posted_transaction_propagates:
  assumes "json_library (w_api W)" and "handle_transactions_post W data a = (Ok r, a')" and "n_peers a \<noteq> []"
    and "n_unspent_outputs b = n_unspent_outputs a" and "n_unconfirmed_pool b = n_unconfirmed_pool a"
  shows "\<exists>t. length (n_unconfirmed_pool a') = Suc (length (n_unconfirmed_pool a)) \<and>
    json_at (w_api W) (snd (last (n_sent a'))) ''data'' = Ok (transaction_to_json (w_api W) t) \<and>
    handle_receive_transaction W (transaction_to_json (w_api W) t) b =
      (Ok (json_null (w_api W)), b\<lparr>n_unconfirmed_pool := n_unconfirmed_pool a'\<rparr>)"
proof -
  let ?link = "update_unspent_outputs (n_unspent_outputs a)"
  have rethrow_Ok: "rethrow k msg m = (Ok x, s) \<longleftrightarrow> m = (Ok x, s)" for k msg and m :: "(unit, 'a node) call" and x s
    by (induction k msg m rule: rethrow.induct) auto
  from assms(2) obtain t n1 where parsed: "transaction_from_json (w_api W) data = Ok t"
    and added: "update_pool (\<lambda>pool. pool_add (w_env W) pool (?link t)) a = (Ok (), n1)"
    and a': "a' = broadcast_transaction W (?link t) n1"
    by (auto simp: handle_transactions_post_def rethrow_Ok outcome_simps Let_def)
  from added have n1: "n1 = a\<lparr>n_unconfirmed_pool := n_unconfirmed_pool n1\<rparr>"
    and pool: "pool_add (w_env W) (n_unconfirmed_pool a) (?link t) = Ok (n_unconfirmed_pool a')"
    by (auto simp: a' update_pool_def broadcast_transaction_def send_to_peers_def split: outcome.splits)
  have peers: "n_peers n1 \<noteq> []" using assms(3) by (subst n1) simp
  have "snd (last (n_sent a')) = json_object (w_api W)
      [(''target'', json_of_string (w_api W) ''/receive-transaction''), (''data'', transaction_to_json (w_api W) (?link t))]"
    using peers by (simp add: a' broadcast_transaction_def send_to_peers_def last_map Suc_le_eq)
  then have "json_at (w_api W) (snd (last (n_sent a'))) ''data'' = Ok (transaction_to_json (w_api W) (?link t))"
    by (simp add: json_library.at_object_lookup [OF assms(1)])
  moreover have "handle_receive_transaction W (transaction_to_json (w_api W) (?link t)) b =
      (Ok (json_null (w_api W)), b\<lparr>n_unconfirmed_pool := n_unconfirmed_pool a'\<rparr>)"
    using pool assms(4,5) json_library.transaction_roundtrip [OF assms(1), of "?link t"]
    by (simp add: handle_receive_transaction_def update_pool_def Let_def update_unspent_outputs_def)
  moreover have "length (n_unconfirmed_pool a') = Suc (length (n_unconfirmed_pool a))"
    using pool by (auto simp: pool_add_Ok_iff)
  ultimately show ?thesis by (intro exI [of _ "?link t"] conjI)
qed

text \<open>
  The loop that removes the transactions of a block from the pool: when it reaches the last transaction
  that is left there, \<open>TransactionUnconfirmedPool::remove\<close> passes the end of the list.
\<close>

lemma remove_whole_pool:
  assumes "map t_hash ts = map t_hash (n_unconfirmed_pool n)" "distinct (map t_hash ts)" "ts \<noteq> []"
  shows "fst (remove_from_pool ts n) = Undef"
  using assms
proof (induction ts arbitrary: n)
  case (Cons t ts)
  then obtain p ps where pool: "n_unconfirmed_pool n = p # ps" "t_hash p = t_hash t" "map t_hash ps = map t_hash ts"
    by auto
  have "t_hash t \<notin> set (map t_hash ps)" "distinct (map t_hash ps)"
    unfolding pool(3) using Cons.prems(2) by simp_all
  then have dist: "distinct (map t_hash (p # ps))" and rest: "\<forall>q \<in> set ps. t_hash q \<noteq> t_hash t"
    using pool(2) by (simp, metis imageI set_map)
  have "pool_remove (p # ps) t = (if ps = [] then Undef else Ok ps)"
    using erase_loop_unique [OF dist, of "\<lambda>q. t_hash q = t_hash t" "t_hash t"] pool(2) rest last_in_set [of ps]
    by (auto simp: pool_remove_def filter_id_conv simp del: erase_loop.simps last_in_set)
  moreover have "ps = [] \<longleftrightarrow> ts = []" using pool(3) by (metis map_is_Nil_conv)
  ultimately show ?case
    using Cons.IH [of "n\<lparr>n_unconfirmed_pool := ps\<rparr>"] Cons.prems(2) pool by (auto simp: update_pool_def)
qed simp

lemma remove_absent:
  "t_hash t \<notin> t_hash ` set (n_unconfirmed_pool n) \<Longrightarrow> remove_from_pool (t # ts) n = remove_from_pool ts n"
proof -
  assume "t_hash t \<notin> t_hash ` set (n_unconfirmed_pool n)"
  then have "pool_remove (n_unconfirmed_pool n) t = Ok (n_unconfirmed_pool n)"
    unfolding pool_remove_def by (intro erase_loop_none) (metis imageI)
  then show ?thesis by (simp add: update_pool_def)
qed

text \<open>
  C7. The normal course of a payment is undefined at the peers: when a miner puts its pool into a block and
  a node with the same chain, unspent outputs and pool, to which the transactions were broadcast, receives
  this block, then it appends the block, so that its chain has the block hashes of the miner, and applies
  its transactions, so that it has the unspent outputs of the miner, and what is undefined is the loop that
  then removes the confirmed transactions from its pool (build without proof of work, pooled transactions
  with distinct hashes, linked to the current unspent outputs, clocks not behind).
\<close>

theorem confirmed_pool_is_undefined:
  assumes "json_library (w_api W)" and "\<not> proof_of_work (w_env W)" and "node_inv W a"
    and "n_blockchain b = n_blockchain a" and "n_unspent_outputs b = n_unspent_outputs a"
    and "n_unconfirmed_pool b = n_unconfirmed_pool a" and "n_unconfirmed_pool a \<noteq> []"
    and "\<forall>t \<in> set (n_unconfirmed_pool a). t_unspent_outputs t = n_unspent_outputs a"
    and "bind_outcome (json_at (w_api W) data ''address'') (json_get_string (w_api W)) = Ok miner"
    and "distinct (map t_hash (reward (w_env W) miner (chain_length (n_blockchain a)) # n_unconfirmed_pool a))"
    and "handle_blocks_post W clk data a = Some (Ok r, a')"
    and "handle_request_latest_block W a' = (Ok msg, a')"
    and "sint (clk 1) \<le> sint (clk' 0)" and "sint (clk 1) \<le> sint (clk' 1)"
    and "m_blocks (n_blockchain a) = [] \<or>
      not_ahead (w_env W) (b_timestamp (last (m_blocks (n_blockchain a)))) (clk 0)"
  shows "\<exists>lb b1. receive_block W clk' msg b = (Ok (Some lb),
      b\<lparr>n_blockchain := (n_blockchain b)\<lparr>m_blocks := m_blocks (n_blockchain b) @ [lb]\<rparr>\<rparr>) \<and>
    update_unspent (b_data lb)
      (b\<lparr>n_blockchain := (n_blockchain b)\<lparr>m_blocks := m_blocks (n_blockchain b) @ [lb]\<rparr>\<rparr>) = (Ok (), b1) \<and>
    map b_hash (m_blocks (n_blockchain b1)) = map b_hash (m_blocks (n_blockchain a')) \<and>
    n_unspent_outputs b1 = n_unspent_outputs a' \<and> n_unconfirmed_pool b1 = n_unconfirmed_pool b \<and>
    fst (remove_from_pool (b_data lb) b1) = Undef \<and>
    fst (handle_receive_latest_block W clk' msg b) = Undef"
proof -
  obtain lb where received: "receive_block W clk' msg b = (Ok (Some lb),
      b\<lparr>n_blockchain := (n_blockchain b)\<lparr>m_blocks := m_blocks (n_blockchain b) @ [lb]\<rparr>\<rparr>)"
    and us: "unspent_update_all (n_unspent_outputs a) (b_data lb) = Ok (n_unspent_outputs a')"
    and blocks: "map b_hash (m_blocks (n_blockchain a) @ [lb]) = map b_hash (m_blocks (n_blockchain a'))"
    and hashes: "map t_hash (b_data lb) = map t_hash (reward (w_env W) miner (chain_length (n_blockchain a)) #
      take (unat (transaction_num_per_block (cfg (w_env W)))) (n_unconfirmed_pool a))"
    using mined_block_received [OF assms(1-5,8,11-15)] assms(9) by (metis outcome.inject(1))
  have "length (n_unconfirmed_pool a) \<le> unat (transaction_num_per_block (cfg (w_env W)))"
    using assms(3) by (simp add: node_inv_def pool_inv_def)
  with hashes obtain t ts where data: "b_data lb = t # ts"
    and t: "t_hash t = t_hash (reward (w_env W) miner (chain_length (n_blockchain a)))"
    and ts: "map t_hash ts = map t_hash (n_unconfirmed_pool a)" by auto
  let ?n = "b\<lparr>n_blockchain := (n_blockchain b)\<lparr>m_blocks := m_blocks (n_blockchain b) @ [lb]\<rparr>,
    n_unspent_outputs := n_unspent_outputs a'\<rparr>"
  have "ts \<noteq> []" using ts assms(7) by (metis map_is_Nil_conv)
  then have undef: "fst (remove_from_pool (b_data lb) ?n) = Undef"
    unfolding data
    using remove_absent [of t ?n ts] remove_whole_pool [of ts ?n] t ts assms(6,7,10) by (auto simp del: remove_from_pool.simps)
  have update: "update_unspent (b_data lb)
      (b\<lparr>n_blockchain := (n_blockchain b)\<lparr>m_blocks := m_blocks (n_blockchain b) @ [lb]\<rparr>\<rparr>) = (Ok (), ?n)"
    using us assms(5) by (simp add: update_unspent_def)
  moreover have "fst (handle_receive_latest_block W clk' msg b) = Undef"
    using received update undef
    by (cases "remove_from_pool (b_data lb) ?n") (auto simp: handle_receive_latest_block_def simp del: remove_from_pool.simps)
  ultimately show ?thesis
    using received undef blocks assms(4) by (intro exI [of _ lb] exI [of _ ?n]) simp
qed

text \<open>A node whose pool holds the example payment, and what it mines.\<close>

definition paying_node :: "transaction_list blockchain \<Rightarrow> jval node" where
  "paying_node c = example_node\<lparr>n_blockchain := c, n_unconfirmed_pool := [example_spend]\<rparr>"

lemma paying_node_mines:
  "\<exists>c a'. m_blocks c = [example_genesis] \<and> node_inv example_world (paying_node c) \<and>
     handle_blocks_post example_world (\<lambda>_. 1000) (JObject [(''address'', JString ''alice'')]) (paying_node c) =
       Some (Ok (status_ok, JNull), a')"
proof -
  obtain a where a: "handle_blocks_post example_world (\<lambda>_. 1000) (JObject [(''address'', JString ''alice'')]) fresh_node =
      Some (Ok (status_ok, JNull), a)" and blocks: "m_blocks (n_blockchain a) = [example_genesis]"
    using fresh_node_mines by blast
  let ?c = "n_blockchain a"
  have "node_inv example_world fresh_node" using example_node_inv by (simp add: fresh_node_def)
  from handle_blocks_post_inv [OF this a] have inv: "node_inv example_world (paying_node ?c)"
    using example_spend_valid by (simp add: node_inv_def paying_node_def pool_inv_def from_defaults_def)
  have "is_Ok (unspent_update_all [example_utxo] [reward (example_env False) ''alice'' 1, example_spend])" by code_simp
  then obtain us where us: "unspent_update_all [example_utxo] [reward (example_env False) ''alice'' 1, example_spend] = Ok us"
    by (auto simp: is_Ok_iff)
  have valid: "fst (transaction_list_valid (example_env False) [reward (example_env False) ''alice'' 1, example_spend] 1)"
    using example_spending_linked by (simp add: linked_def example_spending_block_def block_after_def Let_def
        example_genesis_def block_first_def)
  have len: "chain_length ?c = 1" by (simp add: chain_length_def blocks)
  obtain a' where "handle_blocks_post example_world (\<lambda>_. 1000) (JObject [(''address'', JString ''alice'')]) (paying_node ?c) =
      Some (Ok (status_ok, json_null (w_api example_world)), a')"
    by (rule mining_succeeds [of example_world "paying_node ?c" "JObject [(''address'', JString ''alice'')]" "''alice''" _ _ us])
      (use inv us valid len example_not_ahead in \<open>simp_all add: paying_node_def example_node_def jval_api_def from_defaults_def\<close>)
  with inv blocks show ?thesis by (intro exI [of _ ?c] exI [of _ a']) (simp add: jval_api_def)
qed

theorem confirmed_pool_is_undefined_witness:
  "\<exists>c a' msg. handle_blocks_post example_world (\<lambda>_. 1000) (JObject [(''address'', JString ''alice'')]) (paying_node c) =
       Some (Ok (status_ok, JNull), a') \<and>
     handle_request_latest_block example_world a' = (Ok msg, a') \<and>
     fst (handle_receive_latest_block example_world (\<lambda>_. 2000) msg (paying_node c)) = Undef"
proof -
  obtain c a' where c: "m_blocks c = [example_genesis]" "node_inv example_world (paying_node c)"
    and a': "handle_blocks_post example_world (\<lambda>_. 1000) (JObject [(''address'', JString ''alice'')]) (paying_node c) =
       Some (Ok (status_ok, JNull), a')" using paying_node_mines by blast
  obtain address ts b where "m_blocks (n_blockchain a') = m_blocks (n_blockchain (paying_node c)) @ [b]"
    by (rule handle_blocks_post_Ok [OF _ a']) simp_all
  then obtain msg where msg: "handle_request_latest_block example_world a' = (Ok msg, a')"
    by (simp add: handle_request_latest_block_def)
  have hashes: "t_hash (reward (example_env False) ''alice'' 1) \<noteq> t_hash example_spend" by code_simp
  let ?b = "paying_node c" and ?clk = "\<lambda>_. 2000 :: time_point"
  have "\<exists>lb b1. receive_block example_world ?clk msg ?b = (Ok (Some lb),
      ?b\<lparr>n_blockchain := (n_blockchain ?b)\<lparr>m_blocks := m_blocks (n_blockchain ?b) @ [lb]\<rparr>\<rparr>) \<and>
    update_unspent (b_data lb)
      (?b\<lparr>n_blockchain := (n_blockchain ?b)\<lparr>m_blocks := m_blocks (n_blockchain ?b) @ [lb]\<rparr>\<rparr>) = (Ok (), b1) \<and>
    map b_hash (m_blocks (n_blockchain b1)) = map b_hash (m_blocks (n_blockchain a')) \<and>
    n_unspent_outputs b1 = n_unspent_outputs a' \<and> n_unconfirmed_pool b1 = n_unconfirmed_pool ?b \<and>
    fst (remove_from_pool (b_data lb) b1) = Undef \<and>
    fst (handle_receive_latest_block example_world ?clk msg ?b) = Undef"
  proof (rule confirmed_pool_is_undefined [OF _ _ c(2) refl refl refl _ _ _ _ a' msg])
    show "json_library (w_api example_world)" using jval.json_library_axioms by simp
    show "bind_outcome (json_at (w_api example_world) (JObject [(''address'', JString ''alice'')]) ''address'')
        (json_get_string (w_api example_world)) = Ok ''alice''" by (simp add: jval_api_def)
    show "\<forall>t \<in> set (n_unconfirmed_pool (paying_node c)). t_unspent_outputs t = n_unspent_outputs (paying_node c)"
      by (simp add: paying_node_def example_node_def example_spend_def spend_def Let_def)
  qed (use hashes c example_genesis_linked(2) example_not_ahead in \<open>simp_all add: paying_node_def example_node_def chain_length_def\<close>)
  with a' msg show ?thesis by blast
qed

text \<open>The chain without the parts that are not transmitted.\<close>

abbreviation transmitted :: "transaction_list block \<Rightarrow> transaction_list block" where
  "transmitted \<equiv> strip_block (map (update_unspent_outputs []))"

lemma linked_from_transmitted:
  assumes "json_library (api E)" and "linked_from transaction_list_ops E p bs"
    and "\<forall>b \<in> set bs. \<forall>t \<in> set (b_data b). t_inputs t = []"
  shows "linked_from transaction_list_ops E (map_option transmitted p) (map transmitted bs)"
  using assms(2,3)
proof (induction bs arbitrary: p)
  case (Cons b bs)
  then have link: "linked transaction_list_ops E p b" by simp
  have "fst (transaction_list_valid E (b_data b) (b_index b))"
    using linked_from_data [OF Cons.prems(1), of b] by simp
  with Cons.prems(2) have "fst (transaction_list_valid E (map (update_unspent_outputs []) (b_data b)) (b_index b))"
    by (simp add: transaction_list_valid_unlinked)
  with json_library.linked_transmitted [OF assms(1) refl link]
  have "linked transaction_list_ops E (map_option transmitted p) (transmitted b)" by simp
  with Cons.IH [of "Some b"] Cons.prems show ?case by simp
qed simp

text \<open>A chain without inputs whose timestamps pass is received as its transmitted blocks.\<close>

lemma receive_chain_transmitted:
  assumes "json_library (w_api W)" and "\<not> proof_of_work (w_env W)"
    and "json_at (w_api W) msg ''blockchain'' = Ok (chain_to_json transaction_list_ops (w_api W) c)"
    and "well_formed transaction_list_ops (w_env W) c" and "m_blocks c \<noteq> []"
    and "\<forall>b \<in> set (m_blocks c). \<forall>t \<in> set (b_data b). t_inputs t = []"
    and "\<And>k. k < length (m_blocks c) \<Longrightarrow> not_ahead (w_env W) (b_timestamp (m_blocks c ! k)) (clk k) \<and>
      not_ahead (w_env W) (b_timestamp (m_blocks c ! k)) (clk' k)"
    and "\<And>k. Suc k < length (m_blocks c) \<Longrightarrow>
      not_ahead (w_env W) (b_timestamp (m_blocks c ! k)) (b_timestamp (m_blocks c ! Suc k))"
  shows "receive_chain W clk clk' msg =
    Ok ((blockchain_init (cfg (w_env W)))\<lparr>m_blocks := map transmitted (m_blocks c)\<rparr>)"
proof -
  let ?bc = "(blockchain_init (cfg (w_env W)))\<lparr>m_blocks := map transmitted (m_blocks c)\<rparr> :: transaction_list blockchain"
  have link: "linked_from transaction_list_ops (w_env W) None (map transmitted (m_blocks c))"
    using linked_from_transmitted [OF assms(1), of None "m_blocks c"] assms(4,6) by (simp add: well_formed_def)
  then have "append_blocks transaction_list_ops (w_env W) clk 0 (map transmitted (m_blocks c))
      (blockchain_init (cfg (w_env W))) = Ok ?bc"
    using assms(7) by (simp add: append_blocks_iff [OF assms(2)] last_block_def)
  then have "chain_from_json transaction_list_ops (w_env W) clk
      (chain_to_json transaction_list_ops (w_api W) c) = Ok ?bc"
    using json_library.load_transaction_chain [OF assms(1) refl] by simp
  moreover have "chain_valid transaction_list_ops (w_env W) clk' ?bc = Ok (True, [])"
    using link assms(5,7,8) by (simp add: chain_valid_well_formed well_formed_def)
  ultimately show ?thesis using assms(3) by (simp add: receive_chain_def)
qed

lemma confirmed_transmitted:
  "unspent_update_all us (concat (map (b_data \<circ> transmitted) bs)) = unspent_update_all us (concat (map b_data bs))"
proof -
  have "concat (map (b_data \<circ> transmitted) bs) = map (update_unspent_outputs []) (concat (map b_data bs))"
    by (induction bs) simp_all
  then show ?thesis by (simp add: update_unspent_linked)
qed

text \<open>
  C5. A node that has fallen behind catches up: when a node with a longer chain of blocks that spend
  nothing answers its request for all blocks, and the timestamps pass the checks at the receiver's
  clock, the receiver takes over the chain whatever state it was in, and has the same block hashes
  and unspent outputs and an empty pool (build without proof of work).
\<close>

theorem node_catches_up:
  assumes "json_library (w_api W)" and "\<not> proof_of_work (w_env W)" and "node_inv W a" and "synced a"
    and "\<forall>b \<in> set (m_blocks (n_blockchain a)). \<forall>t \<in> set (b_data b). t_inputs t = []"
    and "length (m_blocks (n_blockchain b)) < length (m_blocks (n_blockchain a))"
    and "\<And>k. k < length (m_blocks (n_blockchain a)) \<Longrightarrow>
      not_ahead (w_env W) (b_timestamp (m_blocks (n_blockchain a) ! k)) (clk k) \<and>
      not_ahead (w_env W) (b_timestamp (m_blocks (n_blockchain a) ! k)) (clk' k)"
    and "\<And>k. Suc k < length (m_blocks (n_blockchain a)) \<Longrightarrow>
      not_ahead (w_env W) (b_timestamp (m_blocks (n_blockchain a) ! k)) (b_timestamp (m_blocks (n_blockchain a) ! Suc k))"
    and "handle_request_all_blocks W a = (Ok msg, a)"
  shows "\<exists>b'. handle_receive_all_blocks W clk clk' msg b = (Ok (json_null (w_api W)), b') \<and>
    map b_hash (m_blocks (n_blockchain b')) = map b_hash (m_blocks (n_blockchain a)) \<and>
    n_unspent_outputs b' = n_unspent_outputs a \<and> n_unconfirmed_pool b' = [] \<and> synced b'"
proof -
  let ?c = "n_blockchain a"
  let ?bc = "(blockchain_init (cfg (w_env W)))\<lparr>m_blocks := map transmitted (m_blocks ?c)\<rparr> :: transaction_list blockchain"
  have "json_at (w_api W) msg ''blockchain'' = Ok (chain_to_json transaction_list_ops (w_api W) ?c)"
    using assms(9) json_library.at_object_lookup [OF assms(1)] by (auto simp: handle_request_all_blocks_def)
  moreover have "well_formed transaction_list_ops (w_env W) ?c"
    using assms(3) chain_reachable_well_formed by (auto simp: node_inv_def)
  ultimately have received: "receive_chain W clk clk' msg = Ok ?bc"
    using assms(6) by (intro receive_chain_transmitted [OF assms(1,2)] assms(5,7,8)) auto
  have greater: "chain_greater (w_env W) ?bc (n_blockchain b) = Ok True"
    using assms(2,6) by (simp add: chain_greater_def)
  have "unspent_update_all [] (concat (map (b_data \<circ> transmitted) (m_blocks ?c))) = Ok (n_unspent_outputs a)"
    using assms(4) by (simp add: confirmed_transmitted synced_def confirmed_def)
  then have "blockchain_setup (b\<lparr>n_blockchain := ?bc\<rparr>) = (Ok (),
      b\<lparr>n_blockchain := ?bc, n_unspent_outputs := n_unspent_outputs a, n_unconfirmed_pool := []\<rparr>)"
    by (simp add: blockchain_setup_def update_unspent_def unspent_clear_def pool_clear_def)
  with received greater have "handle_receive_all_blocks W clk clk' msg b = (Ok (json_null (w_api W)),
      b\<lparr>n_blockchain := ?bc, n_unspent_outputs := n_unspent_outputs a, n_unconfirmed_pool := []\<rparr>)"
    by (simp add: handle_receive_all_blocks_def)
  then show ?thesis
    using assms(4) by (simp add: synced_def confirmed_def confirmed_transmitted)
qed

theorem node_catches_up_witness:
  "\<exists>a msg b'. m_blocks (n_blockchain a) = [example_genesis] \<and>
     handle_request_all_blocks example_world a = (Ok msg, a) \<and>
     handle_receive_all_blocks example_world (\<lambda>_. 1000) (\<lambda>_. 1000) msg fresh_node = (Ok JNull, b') \<and>
     map b_hash (m_blocks (n_blockchain b')) = [b_hash example_genesis] \<and>
     n_unspent_outputs b' = n_unspent_outputs a"
proof -
  obtain a where a: "handle_blocks_post example_world (\<lambda>_. 1000)
      (JObject [(''address'', JString ''alice'')]) fresh_node = Some (Ok (status_ok, JNull), a)"
    and blocks: "m_blocks (n_blockchain a) = [example_genesis]"
    using fresh_node_mines by blast
  have "node_inv example_world fresh_node" using example_node_inv by (simp add: fresh_node_def)
  from handle_blocks_post_inv [OF this a] have inv: "node_inv example_world a" by simp
  have "synced fresh_node"
    by (simp add: synced_def confirmed_def fresh_node_def example_node_def unspent_update_all_def)
  from handle_blocks_post_synced [OF this a] have synced: "synced a" by simp
  obtain msg where msg: "handle_request_all_blocks example_world a = (Ok msg, a)"
    by (simp add: handle_request_all_blocks_def)
  have "\<exists>b'. handle_receive_all_blocks example_world (\<lambda>_. 1000) (\<lambda>_. 1000) msg fresh_node =
        (Ok (json_null (w_api example_world)), b') \<and>
      map b_hash (m_blocks (n_blockchain b')) = map b_hash (m_blocks (n_blockchain a)) \<and>
      n_unspent_outputs b' = n_unspent_outputs a \<and> n_unconfirmed_pool b' = [] \<and> synced b'"
  proof (rule node_catches_up [OF _ _ inv synced _ _ _ _ msg])
    show "json_library (w_api example_world)" using jval.json_library_axioms by simp
    show "\<forall>b \<in> set (m_blocks (n_blockchain a)). \<forall>t \<in> set (b_data b). t_inputs t = []"
      by (simp add: blocks example_genesis_def block_first_def Let_def)
  qed (auto simp: blocks fresh_node_def example_node_def example_genesis_linked(2) example_not_ahead)
  with blocks msg show ?thesis by (auto simp: jval_api_def)
qed

end
