(* ===== verification/Concurrency.thy ===== *)
theory Concurrency
  imports Node
begin

text \<open>
  Handlers that overlap. The HTTP server, the WebSocket server, detached threads and callbacks run on
  threads of their own and share one node. Here each handler of \<open>src/node.cc\<close> is a program of
  atomic calls on the members of the node, with its local variables in between, and a schedule
  decides which thread makes the next call. The chain and the peer list lock themselves during a
  call; the unspent outputs and the pool do not, so calls on them that really overlap are data
  races and outside this model.
\<close>

section \<open>Programs of atomic calls\<close>

datatype ('a, 's) prog = Return "'a outcome" | Atomic "'s \<Rightarrow> ('a, 's) prog \<times> 's"

primrec exec :: "('a, 's) prog \<Rightarrow> 's \<Rightarrow> ('a, 's) call" where
  "exec (Return r) = (\<lambda>s. (r, s))"
| "exec (Atomic f) = (\<lambda>s. case (map_prod exec id \<circ> f) s of (h, s') \<Rightarrow> h s')"

primrec bind_prog :: "('a \<Rightarrow> ('b, 's) prog) \<Rightarrow> ('a, 's) prog \<Rightarrow> ('b, 's) prog" where
  "bind_prog g (Return r) = (case r of Ok x \<Rightarrow> g x | Throw e \<Rightarrow> Return (Throw e) | Undef \<Rightarrow> Return Undef)"
| "bind_prog g (Atomic f) = Atomic (map_prod (bind_prog g) id \<circ> f)"

primrec map_result :: "('a outcome \<Rightarrow> 'b outcome) \<Rightarrow> ('a, 's) prog \<Rightarrow> ('b, 's) prog" where
  "map_result h (Return r) = Return (h r)"
| "map_result h (Atomic f) = Atomic (map_prod (map_result h) id \<circ> f)"

text \<open>First \<open>p\<close>, then \<open>g\<close> with its result.\<close>

definition then_prog :: "('a, 's) prog \<Rightarrow> ('a \<Rightarrow> ('b, 's) prog) \<Rightarrow> ('b, 's) prog" where
  "then_prog p g = bind_prog g p"

text \<open>One call, and reading or writing a part of the state.\<close>

definition call_prog :: "('s \<Rightarrow> ('a, 's) call) \<Rightarrow> ('a, 's) prog" where
  "call_prog m = Atomic (\<lambda>s. case m s of (r, s') \<Rightarrow> (Return r, s'))"

definition read_prog :: "('s \<Rightarrow> 'a) \<Rightarrow> ('a, 's) prog" where
  "read_prog g = call_prog (\<lambda>s. (Ok (g s), s))"

definition write_prog :: "('s \<Rightarrow> 's) \<Rightarrow> (unit, 's) prog" where
  "write_prog g = call_prog (\<lambda>s. (Ok (), g s))"

primrec each_prog :: "('b \<Rightarrow> (unit, 's) prog) \<Rightarrow> 'b list \<Rightarrow> (unit, 's) prog" where
  "each_prog c [] = Return (Ok ())"
| "each_prog c (x # xs) = then_prog (c x) (\<lambda>_. each_prog c xs)"

text \<open>The two kinds of \<open>catch\<close> clauses.\<close>

fun rethrow_result :: "exn_kind \<Rightarrow> (exn \<Rightarrow> string) \<Rightarrow> 'a outcome \<Rightarrow> 'a outcome" where
  "rethrow_result k msg (Ok x) = Ok x"
| "rethrow_result k msg (Throw e) = Throw (Exn k (msg e))"
| "rethrow_result k msg Undef = Undef"

fun swallow_result :: "'a outcome \<Rightarrow> unit outcome" where
  "swallow_result Undef = Undef"
| "swallow_result _ = Ok ()"

section \<open>Running a program alone\<close>

lemma exec_Atomic [simp]: "exec (Atomic f) s = (case f s of (p, s') \<Rightarrow> exec p s')"
  by (simp split: prod.split)

declare exec.simps(2) [simp del]

lemma exec_call [simp]: "exec (call_prog m) s = m s"
  by (simp add: call_prog_def split: prod.split)

lemma exec_read [simp]: "exec (read_prog g) s = (Ok (g s), s)"
  by (simp add: read_prog_def)

lemma exec_write [simp]: "exec (write_prog g) s = (Ok (), g s)"
  by (simp add: write_prog_def)

lemma exec_bind [simp]: "exec (bind_prog g p) s = then_call (exec p s) (\<lambda>x. exec (g x))"
proof (induction p arbitrary: s)
  case (Return r)
  then show ?case by (cases r) simp_all
next
  case (Atomic f)
  obtain p s' where "f s = (p, s')" by (cases "f s")
  with Atomic [of "f s" p s'] rangeI [of f s] show ?case by (simp add: fsts.simps)
qed

lemma exec_then [simp]: "exec (then_prog p g) s = then_call (exec p s) (\<lambda>x. exec (g x))"
  by (simp add: then_prog_def)

lemma exec_map_result [simp]: "exec (map_result h p) s = (case exec p s of (r, s') \<Rightarrow> (h r, s'))"
proof (induction p arbitrary: s)
  case (Atomic f)
  obtain p s' where "f s = (p, s')" by (cases "f s")
  with Atomic [of "f s" p s'] rangeI [of f s] show ?case by (simp add: fsts.simps)
qed simp

lemma rethrow_result: "(case m of (r, s) \<Rightarrow> (rethrow_result k msg r, s)) = rethrow k msg m"
  by (induction k msg m rule: rethrow.induct) simp_all

lemma rethrow_result_pair: "(rethrow_result k msg r, s) = rethrow k msg (r, s)"
  by (cases r) simp_all

lemma then_call_eqI: "a = b \<Longrightarrow> (\<And>x s. f x s = g x s) \<Longrightarrow> then_call a f = then_call b g"
  by (cases b; cases "fst b") auto

lemma swallow_result: "(case m of (r, s) \<Rightarrow> (swallow_result r, s)) = swallow m"
  by (induction m rule: swallow.induct) simp_all

section \<open>Model: handlers as programs\<close>

text \<open>Applying the transactions of a block, one call per transaction.\<close>

definition update_prog :: "transaction list \<Rightarrow> (unit, 'j node) prog" where
  "update_prog = each_prog (\<lambda>t. call_prog (update_unspent [t]))"

definition remove_prog :: "transaction list \<Rightarrow> (unit, 'j node) prog" where
  "remove_prog = each_prog (\<lambda>t. call_prog (update_pool (\<lambda>pool. pool_remove pool t)))"

text \<open>The loop of \<open>POST /blocks\<close>: \<open>empty\<close> and \<open>next\<close> are separate calls.\<close>

primrec pop_prog :: "nat \<Rightarrow> (transaction list, 'j node) prog" where
  "pop_prog 0 = Return (Ok [])"
| "pop_prog (Suc k) =
     then_prog (read_prog (\<lambda>n. n_unconfirmed_pool n = [])) (\<lambda>empty.
       if empty then Return (Ok [])
       else then_prog (call_prog (\<lambda>n. case pool_next (n_unconfirmed_pool n) of
                 Ok (t, pool) \<Rightarrow> (Ok t, n\<lparr>n_unconfirmed_pool := pool\<rparr>)
               | Throw e \<Rightarrow> (Throw e, n)
               | Undef \<Rightarrow> (Undef, n))) (\<lambda>t.
            then_prog (pop_prog k) (\<lambda>ts. Return (Ok (t # ts)))))"

text \<open>Mining that never ends is a call without a result.\<close>

definition construct_call ::
    "'j world \<Rightarrow> (nat \<Rightarrow> time_point) \<Rightarrow> transaction list \<Rightarrow> 'j node \<Rightarrow> (unit, 'j node) call" where
  "construct_call W clk ts n = (case construct_on_node W clk ts n of None \<Rightarrow> (Undef, n) | Some r \<Rightarrow> r)"

text \<open>The rest of the handler once the block is assembled, and once it is in the chain.\<close>

definition apply_prog :: "transaction list \<Rightarrow> (unit, 'j node) prog" where
  "apply_prog ts = then_prog (update_prog ts) (\<lambda>_. call_prog prune_pool)"

definition construct_prog ::
    "'j world \<Rightarrow> (nat \<Rightarrow> time_point) \<Rightarrow> transaction list \<Rightarrow> (unit, 'j node) prog" where
  "construct_prog W clk ts = then_prog (call_prog (construct_call W clk ts)) (\<lambda>_. apply_prog ts)"

definition mine_prog :: "'j world \<Rightarrow> (nat \<Rightarrow> time_point) \<Rightarrow> string \<Rightarrow> (unit, 'j node) prog" where
  "mine_prog W clk reward_address =
     then_prog (read_prog (\<lambda>n. chain_length (n_blockchain n))) (\<lambda>len.
     then_prog (pop_prog (unat (transaction_num_per_block (cfg (w_env W))))) (\<lambda>popped.
       construct_prog W clk (reward (w_env W) reward_address len # popped)))"

text \<open>The \<open>try\<close> block of \<open>POST /blocks\<close> around a program, and what follows it.\<close>

definition in_blocks_post :: "'j world \<Rightarrow> 'j \<Rightarrow> (unit, 'j node) prog \<Rightarrow> (unit, 'j node) prog" where
  "in_blocks_post W data p =
     then_prog (map_result (rethrow_result (HTTPError status_bad_request) (malformed ''POST /blocks'' W data)) p)
       (\<lambda>_. write_prog (detach Broadcast_latest_block))"

definition blocks_post_prog :: "'j world \<Rightarrow> (nat \<Rightarrow> time_point) \<Rightarrow> 'j \<Rightarrow> (unit, 'j node) prog" where
  "blocks_post_prog W clk data = in_blocks_post W data
     (then_prog (Return (bind_outcome (json_at (w_api W) data ''address'') (json_get_string (w_api W))))
       (mine_prog W clk))"

definition peers_post_prog :: "'j world \<Rightarrow> 'j \<Rightarrow> (unit, 'j node) prog" where
  "peers_post_prog W data =
     then_prog (map_result (rethrow_result (HTTPError status_bad_request) (malformed ''POST /peers'' W data))
         (Return (peer_address (w_api W) data))) (\<lambda>(host, port).
     then_prog (call_prog (add_peer W host port)) (\<lambda>peer_id.
       write_prog (detach (Request_latest_block peer_id))))"

definition transactions_post_prog :: "'j world \<Rightarrow> 'j \<Rightarrow> (unit, 'j node) prog" where
  "transactions_post_prog W data =
     map_result (rethrow_result (HTTPError status_bad_request)
         (malformed ''POST /transactions/unconfirmed'' W data))
       (then_prog (Return (transaction_from_json (w_api W) data)) (\<lambda>t.
        then_prog (read_prog n_unspent_outputs) (\<lambda>us.
          let t = update_unspent_outputs us t
          in then_prog (call_prog (update_pool (\<lambda>pool. pool_add (w_env W) pool t))) (\<lambda>_.
               write_prog (broadcast_transaction W t)))))"

text \<open>
  Is the block the next one? \<open>(empty() && is_genesis()) || (!empty() && is_successor_of(latest_block()))\<close>.
  \<open>latest_block\<close> returns a reference into the vector of blocks, which is used when the lock is no longer
  held: \<open>deref_latest W bs\<close> is what a reference to the last of the blocks \<open>bs\<close> refers to in a later state.
  A chain that has been replaced, or has grown into new memory, leaves it dangling.
\<close>

definition deref_latest :: "'j world \<Rightarrow> transaction_list block list \<Rightarrow> 'j node \<Rightarrow> transaction_list block outcome" where
  "deref_latest W bs n =
     (let now = m_blocks (n_blockchain n)
      in if now = bs \<or> prefix bs now \<and> w_in_place W (length bs) (length now) then latest_block ((n_blockchain n)\<lparr>m_blocks := bs\<rparr>)
         else Undef)"

definition is_next_prog :: "'j world \<Rightarrow> transaction_list block \<Rightarrow> (bool, 'j node) prog" where
  "is_next_prog W b =
     then_prog (read_prog (\<lambda>n. m_blocks (n_blockchain n) = [])) (\<lambda>empty.
       if empty \<and> is_genesis b then Return (Ok True)
       else then_prog (read_prog (\<lambda>n. m_blocks (n_blockchain n) = [])) (\<lambda>empty.
              if empty then Return (Ok False)
              else then_prog (call_prog (\<lambda>n. (map_outcome_val (\<lambda>_. m_blocks (n_blockchain n))
                       (latest_block (n_blockchain n)), n))) (\<lambda>blocks.
                   call_prog (\<lambda>n. (bind_outcome (deref_latest W blocks n) (is_successor_of (w_env W) b), n)))))"

definition ask_origin_prog :: "'j world \<Rightarrow> 'j \<Rightarrow> (unit, 'j node) prog" where
  "ask_origin_prog W data =
     then_prog (map_result (rethrow_result WebSocketError (\<lambda>e. ''Malformed '' @ apos ''receive_latest_block'' @
           '' request: '' @ apos (json_dump (w_api W) data) @ what e))
         (Return (bind_outcome (json_at (w_api W) data ''origin'') (peer_address (w_api W))))) (\<lambda>(host, port).
     then_prog (read_prog (\<lambda>n. peers_find host port (n_peers n))) (\<lambda>peer_id.
     then_prog (if peer_id = 0 then call_prog (add_peer W host port) else Return (Ok peer_id)) (\<lambda>peer_id.
       write_prog (detach (Request_all_blocks peer_id)))))"

definition place_prog ::
    "'j world \<Rightarrow> time_point \<Rightarrow> 'j \<Rightarrow> transaction_list block \<Rightarrow> (transaction_list block option, 'j node) prog" where
  "place_prog W now data b =
     then_prog (read_prog (\<lambda>n. chain_length (n_blockchain n))) (\<lambda>len.
       if len < b_index b then then_prog (ask_origin_prog W data) (\<lambda>_. Return (Ok (Some b)))
       else then_prog (read_prog (\<lambda>n. chain_length (n_blockchain n))) (\<lambda>len.
              if b_index b = len
              then then_prog (is_next_prog W b) (\<lambda>next.
                     if next
                     then then_prog (call_prog (append_on_node W now b)) (\<lambda>_. Return (Ok (Some b)))
                     else Return (Ok None))
              else Return (Ok None)))"

text \<open>Linking the transactions of a block: one call on the unspent outputs per transaction.\<close>

primrec link_prog :: "transaction list \<Rightarrow> (transaction list, 'j node) prog" where
  "link_prog [] = Return (Ok [])"
| "link_prog (t # ts) =
     then_prog (read_prog n_unspent_outputs) (\<lambda>us.
     then_prog (link_prog ts) (\<lambda>ts. Return (Ok (update_unspent_outputs us t # ts))))"

definition receive_block_prog ::
    "'j world \<Rightarrow> (nat \<Rightarrow> time_point) \<Rightarrow> 'j \<Rightarrow> (transaction_list block option, 'j node) prog" where
  "receive_block_prog W clk data =
     then_prog (Return (bind_outcome (json_at (w_api W) data ''block'')
         (block_from_json transaction_list_ops (w_api W)))) (\<lambda>b.
     then_prog (link_prog (b_data b)) (\<lambda>ts.
       let b = b\<lparr>b_data := ts\<rparr>
       in then_prog (Return (block_valid transaction_list_ops (w_env W) (clk 0) b)) (\<lambda>(b_valid, b_error).
          if \<not> b_valid
          then Return (Throw (Exn WebSocketError (''Invalid block: '' @
            apos (json_dump (w_api W) (block_to_json transaction_list_ops (w_api W) b)) @ '': '' @ b_error)))
          else place_prog W (clk 1) data b)))"

definition receive_latest_prog ::
    "'j world \<Rightarrow> (nat \<Rightarrow> time_point) \<Rightarrow> 'j \<Rightarrow> (unit, 'j node) prog" where
  "receive_latest_prog W clk data =
     then_prog (map_result (rethrow_result WebSocketError (malformed ''receive_latest_block'' W data))
         (receive_block_prog W clk data)) (\<lambda>received.
       case received of
         None \<Rightarrow> Return (Ok ())
       | Some b \<Rightarrow> then_prog (update_prog (b_data b)) (\<lambda>_.
           then_prog (remove_prog (b_data b)) (\<lambda>_. call_prog prune_pool)))"

text \<open>Comparing the chains, replacing the own one and replaying it are separate calls.\<close>

definition setup_prog :: "(unit, 'j node) prog" where
  "setup_prog =
     then_prog (write_prog (\<lambda>n. n\<lparr>n_unspent_outputs := unspent_clear (n_unspent_outputs n)\<rparr>)) (\<lambda>_.
     then_prog (read_prog (\<lambda>n. m_blocks (n_blockchain n))) (\<lambda>blocks.
     then_prog (update_prog (concat (map b_data blocks))) (\<lambda>_.
       write_prog (\<lambda>n. n\<lparr>n_unconfirmed_pool := pool_clear (n_unconfirmed_pool n)\<rparr>))))"

definition replace_prog :: "transaction_list blockchain \<Rightarrow> (unit, 'j node) prog" where
  "replace_prog bc = then_prog (write_prog (\<lambda>n. n\<lparr>n_blockchain := bc\<rparr>)) (\<lambda>_. setup_prog)"

definition compare_prog :: "'j world \<Rightarrow> transaction_list blockchain \<Rightarrow> (unit, 'j node) prog" where
  "compare_prog W bc =
     then_prog (call_prog (\<lambda>n. (chain_greater (w_env W) bc (n_blockchain n), n))) (\<lambda>greater.
       if greater then replace_prog bc else Return (Ok ()))"

definition receive_all_prog ::
    "'j world \<Rightarrow> (nat \<Rightarrow> time_point) \<Rightarrow> (nat \<Rightarrow> time_point) \<Rightarrow> 'j \<Rightarrow> (unit, 'j node) prog" where
  "receive_all_prog W clk clk' data =
     then_prog (map_result (rethrow_result WebSocketError (malformed ''receive_all_blocks'' W data))
         (Return (receive_chain W clk clk' data))) (compare_prog W)"

definition receive_transaction_prog :: "'j world \<Rightarrow> 'j \<Rightarrow> (unit, 'j node) prog" where
  "receive_transaction_prog W data =
     then_prog (map_result (rethrow_result WebSocketError (malformed ''receive_transaction'' W data))
         (Return (transaction_from_json (w_api W) data))) (\<lambda>t.
     then_prog (read_prog n_unspent_outputs) (\<lambda>us.
       map_result swallow_result
         (call_prog (update_pool (\<lambda>pool. pool_add (w_env W) pool (update_unspent_outputs us t))))))"

definition forget :: "('a, 's) call \<Rightarrow> (unit, 's) call" where
  "forget m = then_call m (\<lambda>_ s. (Ok (), s))"

fun event_prog :: "'j world \<Rightarrow> 'j event \<Rightarrow> (unit, 'j node) prog" where
  "event_prog W (Blocks_post clk data) = blocks_post_prog W clk data"
| "event_prog W (Blocks_persist_post data) = call_prog (\<lambda>n. forget (handle_blocks_persist_post W data n))"
| "event_prog W (Peers_post data) = peers_post_prog W data"
| "event_prog W (Transactions_post data) = transactions_post_prog W data"
| "event_prog W (Receive_latest_block clk data) = receive_latest_prog W clk data"
| "event_prog W (Receive_all_blocks clk clk' data) = receive_all_prog W clk clk' data"
| "event_prog W (Receive_transaction data) = receive_transaction_prog W data"
| "event_prog W (Run_thread t) = call_prog (run_thread W t)"
| "event_prog W (Latest_block_answer clk success answer) =
     (if success then map_result swallow_result
        (then_prog (Return (w_parse W answer)) (receive_latest_prog W clk))
      else Return (Ok ()))"
| "event_prog W (All_blocks_answer clk clk' success answer) =
     (if success then map_result swallow_result
        (then_prog (Return (w_parse W answer)) (receive_all_prog W clk clk'))
      else Return (Ok ()))"

section \<open>A handler alone is its program\<close>

text \<open>Calls that agree on result and state unless the behaviour is undefined.\<close>

definition agree :: "('a, 's) call \<Rightarrow> ('a, 's) call \<Rightarrow> bool" where
  "agree a b \<longleftrightarrow> fst a = fst b \<and> (fst a = Undef \<or> snd a = snd b)"

lemma agree_refl [simp, intro]: "agree a a"
  by (simp add: agree_def)

lemma agree_then:
  assumes "agree a b" and "\<And>x s. agree (f x s) (g x s)"
  shows "agree (then_call a f) (then_call b g)"
  using assms by (cases a; cases b; cases "fst a") (auto simp: agree_def)

lemma agree_rethrow: "agree a b \<Longrightarrow> agree (rethrow k msg a) (rethrow k msg b)"
  by (cases a; cases b; cases "fst a") (auto simp: agree_def)

lemma agree_swallow: "agree a b \<Longrightarrow> agree (swallow a) (swallow b)"
  by (cases a; cases b; cases "fst a") (auto simp: agree_def)

lemma agree_settle: "agree (forget a) b \<Longrightarrow> settle a = settle b"
  by (cases a; cases b; cases "fst a") (auto simp: agree_def forget_def)

lemma forget_then: "forget (then_call m f) = then_call m (\<lambda>x s. forget (f x s))"
  by (cases m; cases "fst m") (auto simp: forget_def)

lemma forget_simps [simp]:
  "forget (Ok x, s) = (Ok (), s)" "forget (Throw e, s) = (Throw e, s)" "forget (Undef, s) = (Undef, s)"
  by (simp_all add: forget_def)

lemma then_return [simp]: "then_call m (\<lambda>_. Pair (Ok ())) = m"
  by (cases m; cases "fst m") auto

lemma forget_unit [simp]: "forget (m :: (unit, 's) call) = m"
  by (simp add: forget_def)

lemma agree_trans: "agree a b \<Longrightarrow> agree b c \<Longrightarrow> agree a c"
  by (auto simp: agree_def)

lemma agree_map_result:
  "agree (exec p s) m \<Longrightarrow> agree (exec (map_result (rethrow_result k msg) p) s) (rethrow k msg m)"
  "agree (exec p s) m \<Longrightarrow> agree (exec (map_result swallow_result p) s) (swallow m)"
  by (simp_all add: rethrow_result swallow_result agree_rethrow agree_swallow)

lemma agree_exec_then:
  assumes "agree (exec p s) m" and "\<And>x s. agree (exec (g x) s) (f x s)"
  shows "agree (exec (then_prog p g) s) (then_call m f)"
  using assms by (auto intro: agree_then)

lemma unspent_update_no_throw: "unspent_update us t \<noteq> Throw e"
  using unspent_update_all_no_throw [of us "[t]"] by (simp add: unspent_update_all_def)

lemma unspent_update_Cons:
  "unspent_update_all us (t # ts) = bind_outcome (unspent_update us t) (\<lambda>us. unspent_update_all us ts)"
  "unspent_update_all us [] = Ok us"
  by (simp_all add: unspent_update_all_def)

lemma update_unspent_Cons:
  "agree (then_call (update_unspent [t] n) (\<lambda>_. update_unspent ts)) (update_unspent (t # ts) n)"
  by (cases "unspent_update (n_unspent_outputs n) t";
      cases "bind_outcome (unspent_update (n_unspent_outputs n) t) (\<lambda>us. unspent_update_all us ts)")
    (simp_all add: update_unspent_def unspent_update_Cons unspent_update_all_no_throw unspent_update_no_throw agree_def)

lemma exec_update: "agree (exec (update_prog ts) n) (update_unspent ts n)"
proof (induction ts arbitrary: n)
  case Nil
  then show ?case by (simp add: update_prog_def update_unspent_def unspent_update_all_def)
next
  case (Cons t ts)
  have "agree (exec (update_prog (t # ts)) n) (then_call (update_unspent [t] n) (\<lambda>_. update_unspent ts))"
    using Cons by (auto simp: update_prog_def intro: agree_then)
  then show ?case using update_unspent_Cons by (rule agree_trans)
qed

lemma exec_remove: "exec (remove_prog ts) n = remove_from_pool ts n"
  by (induction ts arbitrary: n) (auto simp: remove_prog_def intro!: then_call_eqI)

lemma exec_pop:
  "exec (pop_prog k) n = (Ok (take k (n_unconfirmed_pool n)),
     n\<lparr>n_unconfirmed_pool := drop k (n_unconfirmed_pool n)\<rparr>)"
proof (induction k arbitrary: n)
  case (Suc k)
  show ?case
  proof (cases "n_unconfirmed_pool n")
    case (Cons t pool)
    then show ?thesis by (simp add: Suc)
  qed simp
qed simp

text \<open>A call that may not return.\<close>

definition or_undef :: "'s \<Rightarrow> ('a, 's) call option \<Rightarrow> ('a, 's) call" where
  "or_undef s m = (case m of None \<Rightarrow> (Undef, s) | Some r \<Rightarrow> r)"

lemma exec_mine: "agree (exec (mine_prog W clk address) n) (or_undef n (mine_on_node W clk address n))"
proof -
  let ?k = "unat (transaction_num_per_block (cfg (w_env W)))"
  let ?n = "n\<lparr>n_unconfirmed_pool := drop ?k (n_unconfirmed_pool n)\<rparr>"
  let ?ts = "reward (w_env W) address (chain_length (n_blockchain n)) # take ?k (n_unconfirmed_pool n)"
  have "agree (exec (mine_prog W clk address) n)
    (then_call (construct_call W clk ?ts ?n) (\<lambda>_ n. then_call (update_unspent ?ts n) (\<lambda>_. prune_pool)))"
    by (auto simp: mine_prog_def construct_prog_def apply_prog_def exec_pop intro!: agree_then exec_update)
  moreover have "agree \<dots> (or_undef n (mine_on_node W clk address n))"
    by (cases "construct_on_node W clk ?ts ?n")
      (simp_all add: construct_call_def or_undef_def mine_on_node_def drain_pool_take_drop Let_def agree_def)
  ultimately show ?thesis by (rule agree_trans)
qed

lemma exec_blocks_post:
  "agree (exec (blocks_post_prog W clk data) n) (forget (or_undef n (handle_blocks_post W clk data n)))"
proof -
  let ?address = "bind_outcome (json_at (w_api W) data ''address'') (json_get_string (w_api W))"
  let ?rethrow = "rethrow (HTTPError status_bad_request) (malformed ''POST /blocks'' W data)"
  let ?mine = "then_call (?address, n) (\<lambda>a n. or_undef n (mine_on_node W clk a n))"
  have "agree (exec (blocks_post_prog W clk data) n)
    (then_call (?rethrow ?mine) (\<lambda>_ n. (Ok (), detach Broadcast_latest_block n)))"
    by (auto simp: blocks_post_prog_def in_blocks_post_def rethrow_result intro!: agree_then agree_rethrow exec_mine)
  moreover have "\<dots> = forget (or_undef n (handle_blocks_post W clk data n))"
    by (cases ?address) (simp_all add: handle_blocks_post_def or_undef_def forget_then split: option.split)
  ultimately show ?thesis by simp
qed

lemma exec_peers_post: "exec (peers_post_prog W data) n = forget (handle_peers_post W data n)"
  by (auto simp: peers_post_prog_def handle_peers_post_def rethrow_result rethrow_result_pair forget_then
      intro!: then_call_eqI)

lemma exec_transactions_post:
  "exec (transactions_post_prog W data) n = forget (handle_transactions_post W data n)"
  by (auto simp: transactions_post_prog_def handle_transactions_post_def rethrow_result forget_then
      Let_def forget_def [symmetric] intro!: arg_cong [of _ _ "rethrow _ _"] then_call_eqI)

lemma exec_is_next:
  "exec (is_next_prog W b) n =
     (if m_blocks (n_blockchain n) = [] then Ok (is_genesis b)
      else is_successor_of (w_env W) b (last (m_blocks (n_blockchain n))), n)"
  by (simp add: is_next_prog_def latest_block_def deref_latest_def)

lemma exec_ask_origin: "exec (ask_origin_prog W data) n = ask_origin W data n"
  by (auto simp: ask_origin_prog_def ask_origin_def rethrow_result rethrow_result_pair
      intro!: then_call_eqI)

lemma exec_place: "exec (place_prog W now data b) n = place_block W now data b n"
  by (auto simp: place_prog_def place_block_def exec_ask_origin exec_is_next
      intro!: then_call_eqI)

lemma exec_link: "exec (link_prog ts) n = (Ok (map (update_unspent_outputs (n_unspent_outputs n)) ts), n)"
  by (induction ts) simp_all

lemma exec_receive_block: "exec (receive_block_prog W clk data) n = receive_block W clk data n"
  by (auto simp: receive_block_prog_def receive_block_def Let_def exec_place exec_link link_block_def
      intro!: then_call_eqI)

lemma exec_receive_latest:
  "agree (exec (receive_latest_prog W clk data) n) (forget (handle_receive_latest_block W clk data n))"
  by (auto simp: receive_latest_prog_def handle_receive_latest_block_def rethrow_result rethrow_result_pair forget_then
      exec_receive_block exec_remove intro!: agree_then exec_update split: option.split)

lemma exec_setup: "agree (exec setup_prog n) (blockchain_setup n)"
  by (auto simp: setup_prog_def blockchain_setup_def intro!: agree_then exec_update)

lemma exec_receive_all:
  "agree (exec (receive_all_prog W clk clk' data) n) (forget (handle_receive_all_blocks W clk clk' data n))"
  by (auto simp: receive_all_prog_def compare_prog_def replace_prog_def handle_receive_all_blocks_def rethrow_result rethrow_result_pair forget_then
      forget_def [symmetric] intro!: agree_then exec_setup)

lemma exec_receive_transaction:
  "exec (receive_transaction_prog W data) n = forget (handle_receive_transaction W data n)"
  by (auto simp: receive_transaction_prog_def handle_receive_transaction_def rethrow_result rethrow_result_pair forget_then
      swallow_result intro!: then_call_eqI split: prod.split outcome.split)

lemma swallow_forget [simp]: "swallow (forget m) = swallow m"
  by (cases m; cases "fst m") auto

lemma agree_swallow_then:
  assumes "\<And>x s. agree (f x s) (forget (g x s))"
  shows "agree (swallow (then_call m f)) (swallow (then_call m g))"
proof (cases m)
  case (Pair r s)
  show ?thesis
  proof (cases r)
    case (Ok x)
    with Pair agree_swallow [OF assms [of x s]] show ?thesis by simp
  qed (simp_all add: Pair)
qed

lemma exec_answers:
  "agree (exec (event_prog W (Latest_block_answer clk success answer)) n)
     (on_latest_block_answer W clk success answer n)"
  "agree (exec (event_prog W (All_blocks_answer clk clk' success answer)) n)
     (on_all_blocks_answer W clk clk' success answer n)"
  by (auto simp: on_latest_block_answer_def on_all_blocks_answer_def swallow_result
      intro!: agree_swallow_then exec_receive_latest exec_receive_all)

lemma settle_forget [simp]: "settle (forget m) = settle m"
  by (cases m; cases "fst m") auto

lemma settle_eqI: "agree p (forget m) \<Longrightarrow> settle m = settle p"
  by (cases p; cases m; cases "fst m") (auto simp: agree_def)

lemma settle_or_undef: "settle (or_undef n m) = (case m of None \<Rightarrow> Undef | Some r \<Rightarrow> settle r)"
  by (simp add: or_undef_def split: option.split)

lemma node_step_exec: "node_step W ev n = settle (exec (event_prog W ev) n)"
proof (cases ev)
  case (Blocks_post clk data)
  with settle_eqI [OF exec_blocks_post] show ?thesis by (simp add: settle_or_undef)
next
  case (Receive_latest_block clk data)
  with settle_eqI [OF exec_receive_latest] show ?thesis by simp
next
  case (Receive_all_blocks clk clk' data)
  with settle_eqI [OF exec_receive_all] show ?thesis by simp
next
  case (Latest_block_answer clk success answer)
  show ?thesis unfolding Latest_block_answer node_step.simps
    by (rule settle_eqI) (simp only: forget_unit exec_answers)
next
  case (All_blocks_answer clk clk' success answer)
  show ?thesis unfolding All_blocks_answer node_step.simps
    by (rule settle_eqI) (simp only: forget_unit exec_answers)
qed (simp_all add: exec_peers_post exec_transactions_post exec_receive_transaction)

section \<open>Schedules\<close>

text \<open>
  A state of the process: the programs of the threads and the node they share. A schedule starts
  handlers and lets threads make their next call; there is no state after a thread has run into
  undefined behaviour.
\<close>

type_synonym 'j process_state = "(unit, 'j node) prog list \<times> 'j node"

datatype 'j choice = Spawn "'j event" | Run nat

fun step_prog :: "('a, 's) prog \<Rightarrow> 's \<Rightarrow> ('a, 's) prog \<times> 's" where
  "step_prog (Return r) s = (Return r, s)"
| "step_prog (Atomic f) s = f s"

fun unless_undef :: "('a, 's) prog \<Rightarrow> 'b \<Rightarrow> 'b outcome" where
  "unless_undef (Return Undef) x = Undef"
| "unless_undef _ x = Ok x"

fun schedule_step :: "'j world \<Rightarrow> 'j choice \<Rightarrow> 'j process_state \<Rightarrow> 'j process_state outcome" where
  "schedule_step W (Spawn ev) (ps, n) = unless_undef (event_prog W ev) (ps @ [event_prog W ev], n)"
| "schedule_step W (Run i) (ps, n) =
     (if i < length ps then (case step_prog (ps ! i) n of (p, n') \<Rightarrow> unless_undef p (ps[i := p], n'))
      else Ok (ps, n))"

abbreviation run_schedule :: "'j world \<Rightarrow> 'j process_state \<Rightarrow> 'j choice list \<Rightarrow> 'j process_state outcome" where
  "run_schedule W s cs \<equiv> fold_outcome (\<lambda>s c. schedule_step W c s) s cs"

lemma unless_undef_Ok_iff [simp]: "unless_undef p x = Ok y \<longleftrightarrow> p \<noteq> Return Undef \<and> x = y"
  by (induction p x rule: unless_undef.induct) auto

section \<open>Invariants of interleaved handlers\<close>

text \<open>Every call of the program keeps the property, whatever happens in between.\<close>

inductive safe :: "('s \<Rightarrow> bool) \<Rightarrow> ('a, 's) prog \<Rightarrow> bool" for I where
  safe_Return [simp, intro]: "safe I (Return r)"
| safe_Atomic: "(\<And>s. I s \<Longrightarrow> fst (f s) \<noteq> Return Undef \<Longrightarrow> I (snd (f s))) \<Longrightarrow>
    (\<And>s. I s \<Longrightarrow> fst (f s) \<noteq> Return Undef \<Longrightarrow> safe I (fst (f s))) \<Longrightarrow> safe I (Atomic f)"

inductive_cases safe_AtomicE: "safe I (Atomic f)"

named_theorems safe_intros \<open>rules that establish that the calls of a program keep a property\<close>

lemma safe_step: "safe I p \<Longrightarrow> I s \<Longrightarrow> step_prog p s = (p', s') \<Longrightarrow> p' \<noteq> Return Undef \<Longrightarrow> I s' \<and> safe I p'"
  by (cases p) (auto elim!: safe_AtomicE)

lemma safe_then [safe_intros]:
  assumes "safe I p" and "\<And>x. safe I (g x)"
  shows "safe I (then_prog p g)"
  unfolding then_prog_def using assms(1)
proof induction
  case (safe_Return r)
  then show ?case using assms(2) by (cases r) auto
next
  case (safe_Atomic f)
  then have "fst (f s) \<noteq> Return Undef" if "bind_prog g (fst (f s)) \<noteq> Return Undef" for s
    using that by auto
  with safe_Atomic show ?case by (auto intro!: safe.safe_Atomic)
qed

lemma safe_map_result [safe_intros]:
  assumes "safe I p" and "h Undef = Undef"
  shows "safe I (map_result h p)"
  using assms(1)
proof induction
  case (safe_Atomic f)
  then have "fst (f s) \<noteq> Return Undef" if "map_result h (fst (f s)) \<noteq> Return Undef" for s
    using that assms(2) by auto
  with safe_Atomic show ?case by (auto intro!: safe.safe_Atomic)
qed simp

lemma safe_call [safe_intros]: "(\<And>s. I s \<Longrightarrow> after I (m s)) \<Longrightarrow> safe I (call_prog m)"
  by (fastforce simp: call_prog_def after_def case_prod_beta intro!: safe.safe_Atomic)

lemma safe_read [safe_intros]: "safe I (read_prog g)"
  by (simp add: read_prog_def safe_call)

lemma safe_write [safe_intros]: "(\<And>s. I s \<Longrightarrow> I (g s)) \<Longrightarrow> safe I (write_prog g)"
  by (simp add: write_prog_def safe_call)

lemma safe_each [safe_intros]: "(\<And>x. safe I (c x)) \<Longrightarrow> safe I (each_prog c xs)"
  by (induction xs) (auto intro: safe_intros)

lemma safe_update [safe_intros]: "safe (node_inv W) (update_prog ts)"
  unfolding update_prog_def by (auto intro!: safe_intros update_unspent_inv)

lemma safe_remove [safe_intros]: "safe (node_inv W) (remove_prog ts)"
  unfolding remove_prog_def by (auto intro!: safe_intros pool_calls_inv)

lemma pop_inv:
  "node_inv W n \<Longrightarrow> pool_next (n_unconfirmed_pool n) = Ok (t, pool) \<Longrightarrow> node_inv W (n\<lparr>n_unconfirmed_pool := pool\<rparr>)"
  using pool_inv_subseq [OF _ suffix_imp_subseq [of pool "n_unconfirmed_pool n"]]
  by (cases "n_unconfirmed_pool n") (auto simp: node_inv_def suffix_Cons)

lemma safe_pop [safe_intros]: "safe (node_inv W) (pop_prog k)"
  by (induction k) (auto intro!: safe_intros pop_inv split: outcome.split)

lemma construct_call_inv: "node_inv W n \<Longrightarrow> after (node_inv W) (construct_call W clk ts n)"
  using construct_on_node_inv [of W n clk ts] by (cases "construct_on_node W clk ts n") (simp_all add: construct_call_def)

lemma safe_mine [safe_intros]: "safe (node_inv W) (mine_prog W clk address)"
  unfolding mine_prog_def construct_prog_def apply_prog_def
  by (intro safe_intros construct_call_inv pool_calls_inv)

lemma safe_link [safe_intros]: "safe I (link_prog ts)"
  by (induction ts) (auto intro!: safe_intros)

lemma safe_receive_latest [safe_intros]: "safe (node_inv W) (receive_latest_prog W clk data)"
  unfolding receive_latest_prog_def receive_block_prog_def place_prog_def ask_origin_prog_def is_next_prog_def Let_def
  by (auto intro!: safe_intros append_on_node_inv add_peer_inv pool_calls_inv split: option.split)

lemma safe_replace:
  "chain_reachable transaction_list_ops (w_env W) bc \<Longrightarrow> safe (node_inv W) (replace_prog bc)"
  unfolding replace_prog_def setup_prog_def by (auto simp: node_inv_def pool_clear_def intro!: safe_intros)

lemma safe_receive_all [safe_intros]: "safe (node_inv W) (receive_all_prog W clk clk' data)"
proof (cases "receive_chain W clk clk' data")
  case (Ok bc)
  then have "safe (node_inv W) (replace_prog bc)" by (intro safe_replace receive_chain_reachable)
  then have "safe (node_inv W) (compare_prog W bc)"
    unfolding compare_prog_def by (auto intro!: safe_intros)
  with Ok show ?thesis by (simp add: receive_all_prog_def then_prog_def)
qed (simp_all add: receive_all_prog_def then_prog_def)

lemma after_forget [simp]: "after P (forget m) \<longleftrightarrow> after P m"
  by (cases m; cases "fst m") simp_all

text \<open>Every call that any handler makes keeps the invariant of the node.\<close>

lemma safe_event: "safe (node_inv W) (event_prog W ev)"
  by (cases ev)
    (auto simp: blocks_post_prog_def in_blocks_post_def peers_post_prog_def transactions_post_prog_def
      receive_transaction_prog_def Let_def
      intro!: safe_intros pool_calls_inv add_peer_inv run_thread_inv handle_blocks_persist_post_inv)

definition process_inv :: "'j world \<Rightarrow> 'j process_state \<Rightarrow> bool" where
  "process_inv W s \<longleftrightarrow> (\<forall>p \<in> set (fst s). safe (node_inv W) p) \<and> node_inv W (snd s)"

lemma schedule_step_inv:
  assumes "process_inv W (ps, n)" and "schedule_step W c (ps, n) = Ok (ps', n')"
  shows "process_inv W (ps', n')"
proof (cases c)
  case (Spawn ev)
  with assms show ?thesis by (auto simp: process_inv_def safe_event)
next
  case (Run i)
  show ?thesis
  proof (cases "i < length ps")
    case True
    obtain p n1 where step: "step_prog (ps ! i) n = (p, n1)" by force
    with Run True assms(2) have new: "p \<noteq> Return Undef" "ps' = ps[i := p]" "n' = n1" by auto
    have "safe (node_inv W) (ps ! i)" using assms(1) True by (simp add: process_inv_def)
    from safe_step [OF this _ step new(1)] assms(1) have "node_inv W n1 \<and> safe (node_inv W) p"
      by (simp add: process_inv_def)
    with assms(1) new set_update_subset_insert [of ps i p] show ?thesis by (auto simp: process_inv_def)
  qed (use Run assms in simp)
qed

interpretation schedule: invariant_machine "process_inv W" "schedule_step W" for W :: "'j world"
  by unfold_locales (metis schedule_step_inv surj_pair)

section \<open>Threads run to their end\<close>

text \<open>A thread that is alone from now on returns what its program computes.\<close>

lemma thread_completes:
  assumes "i < length ps" and "exec (ps ! i) n = (r, n')" and "r \<noteq> Undef"
  shows "\<exists>k. run_schedule W (ps, n) (replicate k (Run i)) = Ok (ps[i := Return r], n')"
proof -
  have "i < length ps \<Longrightarrow> ps ! i = p \<Longrightarrow> exec p n = (r, n') \<Longrightarrow> ?thesis" for p
  proof (induction p arbitrary: ps n)
    case (Return r')
    then have "ps[i := Return r] = ps" by (metis list_update_id exec.simps(1) prod.inject)
    with Return show ?case by (intro exI [of _ 0]) simp
  next
    case (Atomic f)
    obtain p n1 where step: "f n = (p, n1)" by force
    with Atomic.prems have p: "exec p n1 = (r, n')" by simp
    with assms(3) have "p \<noteq> Return Undef" by auto
    with step Atomic.prems have run: "schedule_step W (Run i) (ps, n) = Ok (ps[i := p], n1)" by simp
    obtain k where "run_schedule W (ps[i := p], n1) (replicate k (Run i)) =
        Ok (ps[i := p, i := Return r], n')"
      using Atomic.IH [of "f n" p "ps[i := p]" n1] step p Atomic.prems rangeI [of f n] by (auto simp: fsts.simps)
    with run show ?case by (intro exI [of _ "Suc k"]) simp
  qed
  then show ?thesis using assms by simp
qed

text \<open>Events one after the other are a special case of a schedule.\<close>

lemma sequential_is_schedule:
  assumes "fold_outcome (\<lambda>n ev. node_step W ev n) n evs = Ok n'"
  shows "\<exists>cs rs. run_schedule W (ps, n) cs = Ok (ps @ map Return rs, n') \<and> (\<forall>i < length ps. Run i \<notin> set cs)"
  using assms
proof (induction evs arbitrary: n ps)
  case Nil
  then show ?case by (intro exI [of _ "[]"]) simp
next
  case (Cons ev evs)
  then obtain n1 where n1: "node_step W ev n = Ok n1" "fold_outcome (\<lambda>n ev. node_step W ev n) n1 evs = Ok n'"
    by (auto simp: outcome_simps)
  obtain r where r: "exec (event_prog W ev) n = (r, n1)" "r \<noteq> Undef"
    using n1(1) by (cases "exec (event_prog W ev) n"; cases "fst (exec (event_prog W ev) n)") (auto simp: node_step_exec)
  then have "event_prog W ev \<noteq> Return Undef" by auto
  then have spawn: "schedule_step W (Spawn ev) (ps, n) = Ok (ps @ [event_prog W ev], n)" by simp
  obtain k where run: "run_schedule W (ps @ [event_prog W ev], n)
      (replicate k (Run (length ps))) = Ok (ps @ [Return r], n1)"
    using thread_completes [of "length ps" "ps @ [event_prog W ev]" n r n1] r by auto
  obtain cs rs where rest: "run_schedule W (ps @ [Return r], n1) cs =
      Ok ((ps @ [Return r]) @ map Return rs, n')" and others: "\<forall>i < length (ps @ [Return r]). Run i \<notin> set cs"
    using Cons.IH [OF n1(2)] by blast
  from spawn run rest have "run_schedule W (ps, n)
      (Spawn ev # replicate k (Run (length ps)) @ cs) = Ok (ps @ map Return (r # rs), n')"
    by (simp add: fold_outcome_append del: schedule_step.simps)
  moreover have "\<forall>i < length ps. Run i \<notin> set (Spawn ev # replicate k (Run (length ps)) @ cs)"
    using others by auto
  ultimately show ?case by blast
qed

text \<open>What the other threads do leaves a thread where it is.\<close>

lemma others_keep_thread:
  assumes "run_schedule W (ps, n) cs = Ok (ps', n')" and "Run i \<notin> set cs"
    and "i < length ps"
  shows "i < length ps' \<and> ps' ! i = ps ! i"
  using assms
proof (induction cs arbitrary: ps n)
  case (Cons c cs)
  then obtain ps1 n1 where step: "schedule_step W c (ps, n) = Ok (ps1, n1)"
    and rest: "run_schedule W (ps1, n1) cs = Ok (ps', n')"
    by (auto simp: outcome_simps)
  have "i < length ps1 \<and> ps1 ! i = ps ! i"
    using step Cons.prems(2,3) by (cases c) (auto simp: nth_append split: if_splits prod.splits)
  with Cons.IH [OF rest] Cons.prems(2) show ?case by simp
qed simp

end
