(* ===== verification/Races.thy ===== *)
theory Races
  imports Network Concurrency
begin

text \<open>
  What can and cannot go wrong when handlers overlap: the invariant of the node survives every
  schedule of calls, but a handler that acts on what it has seen before can undo or spoil what others
  have done in the meantime.
\<close>

section \<open>Steps of the handlers\<close>

lemma step_then_call:
  "step_prog (then_prog (call_prog m) g) n = (bind_prog g (Return (fst (m n))), snd (m n))"
  by (simp add: then_prog_def call_prog_def split: prod.split)

text \<open>A call inside the \<open>try\<close> block of \<open>POST /blocks\<close>.\<close>

lemma step_in_blocks_post:
  "m n = (Ok x, n') \<Longrightarrow> step_prog (in_blocks_post W data (then_prog (call_prog m) g)) n = (in_blocks_post W data (g x), n')"
  "m n = (Throw e, n') \<Longrightarrow> step_prog (in_blocks_post W data (then_prog (call_prog m) g)) n =
     (Return (Throw (Exn (HTTPError status_bad_request) (malformed ''POST /blocks'' W data e))), n')"
  by (simp_all add: in_blocks_post_def then_prog_def call_prog_def)

lemma step_compare:
  "chain_greater (w_env W) bc (n_blockchain n) = Ok g \<Longrightarrow>
     step_prog (compare_prog W bc) n = (if g then replace_prog bc else Return (Ok ()), n)"
  by (simp add: compare_prog_def step_then_call)

lemma step_replace: "step_prog (replace_prog bc) n = (setup_prog, n\<lparr>n_blockchain := bc\<rparr>)"
  by (simp add: replace_prog_def write_prog_def step_then_call)

lemma defined_programs [simp]:
  "replace_prog bc \<noteq> Return r" "setup_prog \<noteq> Return r" "compare_prog W bc \<noteq> Return r"
  by (simp_all add: compare_prog_def replace_prog_def setup_prog_def then_prog_def call_prog_def write_prog_def)

lemma update_reward:
  "update_unspent [reward (w_env W) address i] n =
     (Ok (), n\<lparr>n_unspent_outputs := n_unspent_outputs n @ new_unspent (reward (w_env W) address i)\<rparr>)"
  by (simp add: update_unspent_def unspent_update_all_def unspent_update_def)

lemma apply_reward:
  "apply_prog [t] = then_prog (call_prog (update_unspent [t])) (\<lambda>_. call_prog prune_pool)"
  by (simp add: apply_prog_def update_prog_def then_prog_def call_prog_def comp_def map_prod_def fun_eq_iff split: prod.split outcome.split)

text \<open>Mining fails when the reward carries another index than the block gets.\<close>

lemma construct_call_moved:
  assumes "node_inv W n" and "chain_length (n_blockchain n) \<noteq> i"
  shows "\<exists>msg. construct_call W clk (reward (w_env W) address i # ts) n = (Throw (Exn Logic_error msg), n)"
proof -
  let ?ts = "reward (w_env W) address i # ts"
  have "b_index (next_block transaction_list_ops (w_env W) (clk 0) ?ts (n_blockchain n)) = chain_length (n_blockchain n)"
    using assms(1) by (intro next_block_index) (simp add: node_inv_def)
  moreover have "\<not> fst (transaction_list_valid (w_env W) ?ts (chain_length (n_blockchain n)))"
    using assms(2) by (auto simp: transaction_list_valid_iff)
  ultimately obtain msg where "construct_next_block transaction_list_ops (w_env W) clk ?ts (n_blockchain n) =
      Some (Throw (Exn Logic_error msg), n_blockchain n)"
    using construct_invalid_data [of transaction_list_ops "w_env W" ?ts clk "n_blockchain n"] by auto
  then show ?thesis by (simp add: construct_call_def construct_on_node_def)
qed

section \<open>Example: a chain arrives\<close>

text \<open>The message that hands over a chain of one block.\<close>

definition genesis_message :: jval where
  "genesis_message = JObject [(''blockchain'', chain_to_json transaction_list_ops jval_api
     ((blockchain_init from_defaults)\<lparr>m_blocks := [example_genesis]\<rparr>))]"

definition genesis_chain :: "transaction_list blockchain" where
  "genesis_chain = (blockchain_init from_defaults)\<lparr>m_blocks := [transmitted example_genesis]\<rparr>"

abbreviation genesis_arrives :: "jval event" where
  "genesis_arrives \<equiv> Receive_all_blocks (\<lambda>_. 1000) (\<lambda>_. 1000) genesis_message"

abbreviation alice_mines :: "jval event" where
  "alice_mines \<equiv> Blocks_post (\<lambda>_. 1000) (JObject [(''address'', JString ''alice'')])"

lemma receive_genesis: "receive_chain example_world (\<lambda>_. 1000) (\<lambda>_. 1000) genesis_message = Ok genesis_chain"
proof -
  let ?c = "(blockchain_init from_defaults)\<lparr>m_blocks := [example_genesis]\<rparr> :: transaction_list blockchain"
  have "receive_chain example_world (\<lambda>_. 1000) (\<lambda>_. 1000) genesis_message =
      Ok ((blockchain_init (cfg (w_env example_world)))\<lparr>m_blocks := map transmitted (m_blocks ?c)\<rparr>)"
  proof (rule receive_chain_transmitted)
    show "json_library (w_api example_world)" using jval.json_library_axioms by simp
    show "json_at (w_api example_world) genesis_message ''blockchain'' =
        Ok (chain_to_json transaction_list_ops (w_api example_world) ?c)"
      by (simp add: genesis_message_def jval_api_def)
    show "well_formed transaction_list_ops (w_env example_world) ?c"
      using example_genesis_linked(1) by (simp add: well_formed_def)
    show "\<forall>b \<in> set (m_blocks ?c). \<forall>t \<in> set (b_data b). t_inputs t = []"
      by (simp add: example_genesis_def block_first_def Let_def)
  qed (auto simp: example_genesis_linked(2) example_not_ahead)
  then show ?thesis by (simp add: genesis_chain_def)
qed

lemma genesis_received:
  "\<exists>n'. handle_receive_all_blocks example_world (\<lambda>_. 1000) (\<lambda>_. 1000) genesis_message fresh_node =
     (Ok JNull, n') \<and> length (m_blocks (n_blockchain n')) = 1"
  using receive_genesis
  by (simp add: handle_receive_all_blocks_def chain_greater_def fresh_node_def example_node_def
      blockchain_setup_def update_unspent_def unspent_update_all_def unspent_clear_def unspent_update_def
      example_genesis_def block_first_def Let_def jval_api_def genesis_chain_def)

lemma genesis_arrives_prog: "event_prog example_world genesis_arrives = compare_prog example_world genesis_chain"
  by (simp add: receive_all_prog_def receive_genesis then_prog_def)

lemma fresh_node_inv: "node_inv example_world fresh_node"
  using example_node_inv by (simp add: fresh_node_def)

lemma fresh_node_empty: "n_unconfirmed_pool fresh_node = []" "m_blocks (n_blockchain fresh_node) = []"
  by (simp_all add: fresh_node_def example_node_def)

text \<open>The first two calls of the miner: the length of the chain, and whether the pool is empty.\<close>

lemma alice_assembles:
  "run_schedule example_world ([], fresh_node) [Spawn alice_mines, Run 0, Run 0] =
     Ok ([in_blocks_post example_world (JObject [(''address'', JString ''alice'')])
       (construct_prog example_world (\<lambda>_. 1000) [reward (w_env example_world) ''alice'' 0])], fresh_node)"
proof -
  have "bind_outcome (json_at (w_api example_world) (JObject [(''address'', JString ''alice'')]) ''address'')
      (json_get_string (w_api example_world)) = Ok ''alice''" by (simp add: jval_api_def)
  then show ?thesis
    using fresh_node_empty
    by (simp add: pop_prog.simps(2) [of 9, simplified] blocks_post_prog_def in_blocks_post_def mine_prog_def read_prog_def then_prog_def call_prog_def
        chain_length_def construct_prog_def)
qed

section \<open>Properties\<close>

text \<open>
  C35. Handlers may overlap in any way: whatever events start handlers and in whatever order the
  threads make their calls on the node, as long as no behaviour is undefined, the chain stays one
  that the chain operations produce and the pool stays bounded, valid and free of conflicts.
\<close>

theorem any_schedule_invariant:
  assumes "node_inv W n" and "run_schedule W ([], n) cs = Ok (ps, n')"
  shows "node_inv W n'"
  using schedule.run_inv [of W "([], n)" cs "(ps, n')"] assms by (simp add: process_inv_def)

text \<open>
  A block or chain that changes the length of the chain while \<open>POST /blocks\<close> holds an assembled
  block makes the handler fail with a bad request: the reward carries the old index. The node is left
  as it is, so the transactions that were taken from the pool are in neither the pool nor the chain.
\<close>

theorem racing_block_fails_mining:
  assumes "node_inv W n0" and "run_schedule W ([], n0) cs = Ok (ps, n)" and "i < length ps"
    and "ps ! i = in_blocks_post W data (construct_prog W clk (reward (w_env W) address len # popped))"
    and "chain_length (n_blockchain n) \<noteq> len"
  shows "\<exists>e. schedule_step W (Run i) (ps, n) =
    Ok (ps[i := Return (Throw (Exn (HTTPError status_bad_request) e))], n)"
proof -
  have "node_inv W n"
    using schedule.run_inv [of W "([], n0)" cs "(ps, n)"] assms(1,2) by (simp add: process_inv_def)
  from construct_call_moved [OF this assms(5)] obtain msg where
    "construct_call W clk (reward (w_env W) address len # popped) n = (Throw (Exn Logic_error msg), n)" by blast
  with assms(3,4) show ?thesis
    by (intro exI [of _ "malformed ''POST /blocks'' W data (Exn Logic_error msg)"])
      (simp add: construct_prog_def step_in_blocks_post(2))
qed

text \<open>
  C37. Comparing a received chain with the own one and replacing it are two calls: whatever the other
  threads do to the node in between, be it that they append a block, the own chain is replaced
  by the received one and set up anew, also when it is no longer the lesser chain.
\<close>

theorem stale_chain_replaces:
  assumes "i < length ps" and "ps ! i = compare_prog W bc"
    and "chain_greater (w_env W) bc (n_blockchain n) = Ok True"
    and "schedule_step W (Run i) (ps, n) = Ok s" and "run_schedule W s cs = Ok (ps', n')" and "Run i \<notin> set cs"
  shows "schedule_step W (Run i) (ps', n') = Ok (ps'[i := setup_prog], n'\<lparr>n_blockchain := bc\<rparr>)"
proof -
  have s: "s = (ps[i := replace_prog bc], n)" using assms(1-4) by (simp add: step_compare)
  then have "i < length ps' \<and> ps' ! i = replace_prog bc"
    using others_keep_thread [of W "ps[i := replace_prog bc]" n cs ps' n' i] assms(1,5,6) by simp
  then show ?thesis by (simp add: step_replace)
qed

text \<open>
  The unspent outputs can lose touch with the chain: when they are in step with it at the moment
  the handler applies the transactions of a block it has constructed, as after a received chain has
  replaced the one with that block, the reward is added although the chain does not change, and
  the outputs are no longer those of the chain.
\<close>

theorem late_update_breaks_sync:
  assumes "synced n" and "i < length ps"
    and "ps ! i = in_blocks_post W data (apply_prog [reward (w_env W) address len])"
  shows "\<exists>p n'. schedule_step W (Run i) (ps, n) = Ok (ps[i := p], n') \<and> n_blockchain n' = n_blockchain n \<and>
    n_unspent_outputs n' = n_unspent_outputs n @ new_unspent (reward (w_env W) address len) \<and> \<not> synced n'"
proof -
  let ?n = "n\<lparr>n_unspent_outputs := n_unspent_outputs n @ new_unspent (reward (w_env W) address len)\<rparr>"
  have "step_prog (ps ! i) n = (in_blocks_post W data (call_prog prune_pool), ?n)"
    using assms(3) by (simp add: apply_reward step_in_blocks_post(1) update_reward)
  moreover have "in_blocks_post W data (call_prog prune_pool) \<noteq> Return Undef"
    by (simp add: in_blocks_post_def then_prog_def call_prog_def)
  ultimately have "schedule_step W (Run i) (ps, n) = Ok (ps[i := in_blocks_post W data (call_prog prune_pool)], ?n)"
    using assms(2) by simp
  moreover have "new_unspent (reward (w_env W) address len) \<noteq> []" by (simp add: new_unspent_def reward_def Let_def)
  with assms(1) have "\<not> synced ?n" by (simp add: synced_def)
  ultimately show ?thesis by (intro exI [of _ "in_blocks_post W data (call_prog prune_pool)"] exI [of _ ?n]) simp
qed

section \<open>Witnesses\<close>

text \<open>A chain arrives while a block is assembled.\<close>

lemma genesis_overtakes_alice:
  "\<exists>cs rs n. run_schedule example_world ([], fresh_node) ([Spawn alice_mines, Run 0, Run 0] @ cs) =
     Ok (in_blocks_post example_world (JObject [(''address'', JString ''alice'')])
       (construct_prog example_world (\<lambda>_. 1000) [reward (w_env example_world) ''alice'' 0]) # map Return rs, n) \<and>
     length (m_blocks (n_blockchain n)) = 1 \<and> synced n"
proof -
  let ?p = "in_blocks_post example_world (JObject [(''address'', JString ''alice'')])
       (construct_prog example_world (\<lambda>_. 1000) [reward (w_env example_world) ''alice'' 0])"
  obtain n where n: "handle_receive_all_blocks example_world (\<lambda>_. 1000) (\<lambda>_. 1000) genesis_message fresh_node =
      (Ok JNull, n)" "length (m_blocks (n_blockchain n)) = 1"
    using genesis_received by blast
  have "synced fresh_node"
    by (simp add: synced_def confirmed_def fresh_node_def example_node_def unspent_update_all_def)
  from handle_receive_all_blocks_synced [OF this, of example_world "\<lambda>_. 1000" "\<lambda>_. 1000" genesis_message] n
  have "synced n" by simp
  moreover have "fold_outcome (\<lambda>n ev. node_step example_world ev n) fresh_node [genesis_arrives] = Ok n"
    using n(1) by simp
  from sequential_is_schedule [OF this, of "[?p]"] obtain cs rs
    where "run_schedule example_world ([?p], fresh_node) cs = Ok (?p # map Return rs, n)" by auto
  with alice_assembles have "run_schedule example_world ([], fresh_node) ([Spawn alice_mines, Run 0, Run 0] @ cs) =
      Ok (?p # map Return rs, n)"
    by (simp only: fold_outcome_append bind_outcome.simps)
  ultimately show ?thesis using n(2) by blast
qed

theorem any_schedule_invariant_witness:
  "\<exists>cs ps n. run_schedule example_world ([], fresh_node) ([Spawn alice_mines, Run 0, Run 0] @ cs) = Ok (ps, n) \<and>
     length (m_blocks (n_blockchain n)) = 1 \<and> node_inv example_world n"
  using genesis_overtakes_alice any_schedule_invariant [OF fresh_node_inv] by blast

theorem racing_block_fails_mining_witness:
  "\<exists>cs ps n e. run_schedule example_world ([], fresh_node) ([Spawn alice_mines, Run 0, Run 0] @ cs) = Ok (ps, n) \<and>
     schedule_step example_world (Run 0) (ps, n) =
       Ok (ps[0 := Return (Throw (Exn (HTTPError status_bad_request) e))], n)"
proof -
  obtain cs ps n where run: "run_schedule example_world ([], fresh_node) ([Spawn alice_mines, Run 0, Run 0] @ cs) =
      Ok (ps, n)"
    and thread: "0 < length ps" "ps ! 0 = in_blocks_post example_world (JObject [(''address'', JString ''alice'')])
       (construct_prog example_world (\<lambda>_. 1000) (reward (w_env example_world) ''alice'' 0 # []))"
    and moved: "chain_length (n_blockchain n) \<noteq> 0"
    using genesis_overtakes_alice by (fastforce simp: chain_length_def)
  from racing_block_fails_mining [OF fresh_node_inv run thread moved] run show ?thesis by blast
qed

theorem stale_chain_replaces_witness:
  "\<exists>cs ps n. run_schedule example_world ([compare_prog example_world genesis_chain], fresh_node) (Run 0 # cs) = Ok (ps, n) \<and>
     m_blocks (n_blockchain n) = [example_genesis] \<and>
     chain_greater (w_env example_world) genesis_chain (n_blockchain n) = Ok False \<and>
     schedule_step example_world (Run 0) (ps, n) = Ok (ps[0 := setup_prog], n\<lparr>n_blockchain := genesis_chain\<rparr>)"
proof -
  let ?compare = "compare_prog example_world genesis_chain :: (unit, jval node) prog"
  have greater: "chain_greater (w_env example_world) genesis_chain (n_blockchain fresh_node) = Ok True"
    using fresh_node_empty by (simp add: chain_greater_def genesis_chain_def)
  then have compare: "schedule_step example_world (Run 0) ([?compare], fresh_node) = Ok ([replace_prog genesis_chain], fresh_node)"
    by (simp add: step_compare)
  obtain n where n: "handle_blocks_post example_world (\<lambda>_. 1000) (JObject [(''address'', JString ''alice'')]) fresh_node =
     Some (Ok (status_ok, JNull), n)" "m_blocks (n_blockchain n) = [example_genesis]"
    using fresh_node_mines by blast
  then have "fold_outcome (\<lambda>n ev. node_step example_world ev n) fresh_node [alice_mines] = Ok n" by simp
  from sequential_is_schedule [OF this, of "[replace_prog genesis_chain]"] obtain cs ps
    where mined: "run_schedule example_world ([replace_prog genesis_chain], fresh_node) cs = Ok (ps, n)"
      and others: "Run 0 \<notin> set cs" by auto
  have "run_schedule example_world ([?compare], fresh_node) (Run 0 # cs) = Ok (ps, n)"
    using compare mined by (simp del: schedule_step.simps)
  moreover have "chain_greater (w_env example_world) genesis_chain (n_blockchain n) = Ok False"
    using n(2) by (simp add: chain_greater_def genesis_chain_def)
  moreover have "schedule_step example_world (Run 0) (ps, n) = Ok (ps[0 := setup_prog], n\<lparr>n_blockchain := genesis_chain\<rparr>)"
    by (rule stale_chain_replaces [OF _ _ greater compare mined others]) simp_all
  ultimately show ?thesis using n(2) by blast
qed

theorem late_update_breaks_sync_witness:
  "\<exists>ps p n n'. length (m_blocks (n_blockchain n)) = 1 \<and> synced n \<and>
     schedule_step example_world (Run 0) (ps, n) = Ok (ps[0 := p], n') \<and> \<not> synced n'"
proof -
  obtain n where n: "length (m_blocks (n_blockchain n)) = 1" "synced (n :: jval node)"
    using genesis_overtakes_alice by blast
  let ?ps = "[in_blocks_post example_world JNull (apply_prog [reward (w_env example_world) ''alice'' 0])]"
  have "0 < length ?ps" "?ps ! 0 = in_blocks_post example_world JNull (apply_prog [reward (w_env example_world) ''alice'' 0])"
    by simp_all
  from late_update_breaks_sync [OF n(2) this] n show ?thesis by blast
qed

end
