(* ===== verification/Lifecycle.thy ===== *)
theory Lifecycle
  imports Servers Startup
begin

text \<open>
  The life of the program after its node has been created: the signal handler of \<open>include/nix.h\<close>, \<open>run\<close>
  and \<open>stop\<close> of \<open>Node\<close> and of the two servers, the two server threads that \<open>Node::run\<close> starts and joins, and
  the end of \<open>main\<close>.
\<close>

section \<open>Model: servers\<close>

text \<open>
  What the servers use of \<open>boost::asio::io_context\<close>: a new context, \<open>stop\<close>, and \<open>stopped\<close>. A thread leaves
  \<open>run\<close> when the context is stopped, at once if it was stopped before, and also when no operation is
  pending any more, which stops the context.
\<close>

record 'c io_api =
  io_new :: 'c
  io_stop :: "'c \<Rightarrow> 'c"
  io_stopped :: "'c \<Rightarrow> bool"

text \<open>Documented: a new context is not stopped, and \<open>stop\<close> stops it.\<close>

definition io_laws :: "'c io_api \<Rightarrow> bool" where
  "io_laws A \<longleftrightarrow> \<not> io_stopped A (io_new A) \<and> (\<forall>c. io_stopped A (io_stop A c))"

datatype server_phase = Not_started | In_run | Returned

text \<open>\<open>sv_accepting\<close>: an \<open>async_accept\<close> is pending on the context.\<close>

record 'c server =
  sv_ioc :: 'c
  sv_phase :: server_phase
  sv_accepting :: bool

definition server_new :: "'c io_api \<Rightarrow> 'c server" where
  "server_new A = \<lparr>sv_ioc = io_new A, sv_phase = Not_started, sv_accepting = False\<rparr>"

text \<open>
  \<open>Connection::accept\<close> starts an accept. Its handler runs when a connection has been accepted or
  accepting has failed: it creates the connection (\<open>http_accept\<close>, \<open>ws_accept\<close>) or reports the error, and
  in both cases calls \<open>accept\<close> again.
\<close>

definition server_accept :: "'c server \<Rightarrow> 'c server" where
  "server_accept sv = sv\<lparr>sv_accepting := True\<rparr>"

definition server_on_accept :: "bool \<Rightarrow> 'c server \<Rightarrow> 'c server" where
  "server_on_accept ok sv = server_accept (sv\<lparr>sv_accepting := False\<rparr>)"

definition server_run :: "'c io_api \<Rightarrow> 'c server \<Rightarrow> 'c server" where
  "server_run A sv = (server_accept sv)\<lparr>sv_phase := (if io_stopped A (sv_ioc sv) then Returned else In_run)\<rparr>"

text \<open>
  \<open>io_context::run\<close> returns or goes on; \<open>busy\<close>: an operation of a connection is pending.
\<close>

definition server_return :: "'c io_api \<Rightarrow> bool \<Rightarrow> 'c server \<Rightarrow> 'c server" where
  "server_return A busy sv =
     (if sv_phase sv \<noteq> In_run then sv
      else if io_stopped A (sv_ioc sv) then sv\<lparr>sv_phase := Returned\<rparr>
      else if sv_accepting sv \<or> busy then sv
      else sv\<lparr>sv_ioc := io_stop A (sv_ioc sv), sv_phase := Returned\<rparr>)"

definition server_stop :: "'c io_api \<Rightarrow> 'c server \<Rightarrow> 'c server" where
  "server_stop A sv = sv\<lparr>sv_ioc := io_stop A (sv_ioc sv)\<rparr>"

definition serving :: "'c io_api \<Rightarrow> 'c server \<Rightarrow> bool" where
  "serving A sv \<longleftrightarrow> sv_phase sv = In_run \<and> \<not> io_stopped A (sv_ioc sv)"

section \<open>Model: program\<close>

text \<open>
  Where \<open>main\<close> is: the node exists, the handler is installed, it waits for the first thread, for the
  second, or it has returned. \<open>Killed\<close> is the default action of \<open>SIGTERM\<close>, \<open>Aborted\<close> an exception that left a
  thread.
\<close>

datatype main_phase = Created | Installed | Join_websocket | Join_http | Exited int | Killed | Aborted

datatype signal_action = Default | Stop_node

datatype stop_call = Stop_websocket | Stop_http

text \<open>\<open>l_handler\<close> lists the calls that a running signal handler still has to make.\<close>

record ('j, 'c) life =
  l_main :: main_phase
  l_action :: signal_action
  l_handler :: "stop_call list"
  l_websocket :: "'c server"
  l_http :: "'c server"
  l_process :: "'j process"

definition life_new :: "'c io_api \<Rightarrow> 'j node \<Rightarrow> ('j, 'c) life" where
  "life_new A n = \<lparr>l_main = Created, l_action = Default, l_handler = [], l_websocket = server_new A,
     l_http = server_new A, l_process = process_new n\<rparr>"

definition on_termination :: "('j, 'c) life \<Rightarrow> ('j, 'c) life" where
  "on_termination l = l\<lparr>l_action := Stop_node\<rparr>"

text \<open>The signal: \<open>SA_RESETHAND\<close> restores the default action before the handler runs.\<close>

definition sigterm :: "('j, 'c) life \<Rightarrow> ('j, 'c) life" where
  "sigterm l = (case l_action l of
     Default \<Rightarrow> l\<lparr>l_main := Killed\<rparr>
   | Stop_node \<Rightarrow> l\<lparr>l_action := Default, l_handler := [Stop_websocket, Stop_http]\<rparr>)"

fun node_stop_call :: "'c io_api \<Rightarrow> stop_call \<Rightarrow> ('j, 'c) life \<Rightarrow> ('j, 'c) life" where
  "node_stop_call A Stop_websocket l = l\<lparr>l_websocket := server_stop A (l_websocket l)\<rparr>"
| "node_stop_call A Stop_http l = l\<lparr>l_http := server_stop A (l_http l)\<rparr>"

definition ended :: "('j, 'c) life \<Rightarrow> bool" where
  "ended l \<longleftrightarrow> (case l_main l of Exited _ \<Rightarrow> True | Killed \<Rightarrow> True | Aborted \<Rightarrow> True | _ \<Rightarrow> False)"

definition threads_exist :: "('j, 'c) life \<Rightarrow> bool" where
  "threads_exist l \<longleftrightarrow> l_main l = Join_websocket \<or> l_main l = Join_http"

datatype life_event =
    Install | Start_threads | Websocket_runs | Http_runs | Network process_event | Sigterm | Stop_call
  | Websocket_returns | Http_returns | Joined_websocket | Joined_http

text \<open>
  Events of a connection need the server of the connection, an accepted connection a pending accept;
  detached threads run on their own.
\<close>

fun server_serves :: "'c io_api \<Rightarrow> process_event \<Rightarrow> ('j, 'c) life \<Rightarrow> bool" where
  "server_serves A (Http_accepted ok) l \<longleftrightarrow> serving A (l_http l) \<and> sv_accepting (l_http l)"
| "server_serves A (Http_read i r clk) l \<longleftrightarrow> serving A (l_http l)"
| "server_serves A (Http_written i ok) l \<longleftrightarrow> serving A (l_http l)"
| "server_serves A (Ws_accepted ok) l \<longleftrightarrow> serving A (l_websocket l) \<and> sv_accepting (l_websocket l)"
| "server_serves A (Ws_handshake i ok) l \<longleftrightarrow> serving A (l_websocket l)"
| "server_serves A (Ws_read i r clk clk') l \<longleftrightarrow> serving A (l_websocket l)"
| "server_serves A (Ws_written i ok) l \<longleftrightarrow> serving A (l_websocket l)"
| "server_serves A _ l \<longleftrightarrow> True"

fun accept_again :: "process_event \<Rightarrow> ('j, 'c) life \<Rightarrow> ('j, 'c) life" where
  "accept_again (Http_accepted ok) l = l\<lparr>l_http := server_on_accept ok (l_http l)\<rparr>"
| "accept_again (Ws_accepted ok) l = l\<lparr>l_websocket := server_on_accept ok (l_websocket l)\<rparr>"
| "accept_again _ l = l"

text \<open>The operations of connections that are pending on the context of each server.\<close>

definition http_busy :: "'j process \<Rightarrow> bool" where
  "http_busy p \<longleftrightarrow> list_ex (\<lambda>ph. ph = H_reading \<or> is_H_writing ph) (p_http p)"

definition websocket_busy :: "'j process \<Rightarrow> bool" where
  "websocket_busy p \<longleftrightarrow> list_ex (\<lambda>ph. ph \<noteq> W_gone) (p_ws p)"

definition network_event ::
    "'c io_api \<Rightarrow> 'j world \<Rightarrow> ('j \<Rightarrow> string \<Rightarrow> 'j outcome) \<Rightarrow> process_event \<Rightarrow> ('j, 'c) life \<Rightarrow> ('j, 'c) life outcome" where
  "network_event A W index ev l =
     (if server_serves A ev l
      then map_outcome_val (\<lambda>p. (if p_terminated p = None then accept_again ev l
               else l\<lparr>l_main := Aborted\<rparr>)\<lparr>l_process := p\<rparr>)
             (process_step W index ev (l_process l))
      else Ok l)"

text \<open>An event that cannot occur in a state changes nothing.\<close>

fun alive_step ::
    "'c io_api \<Rightarrow> 'j world \<Rightarrow> ('j \<Rightarrow> string \<Rightarrow> 'j outcome) \<Rightarrow> life_event \<Rightarrow> ('j, 'c) life \<Rightarrow> ('j, 'c) life outcome" where
  "alive_step A W index Install l =
     Ok (if l_main l = Created then (on_termination l)\<lparr>l_main := Installed\<rparr> else l)"
| "alive_step A W index Start_threads l =
     Ok (if l_main l = Installed then l\<lparr>l_main := Join_websocket\<rparr> else l)"
| "alive_step A W index Websocket_runs l =
     Ok (if threads_exist l \<and> sv_phase (l_websocket l) = Not_started
         then l\<lparr>l_websocket := server_run A (l_websocket l)\<rparr> else l)"
| "alive_step A W index Http_runs l =
     Ok (if threads_exist l \<and> sv_phase (l_http l) = Not_started
         then l\<lparr>l_http := server_run A (l_http l)\<rparr> else l)"
| "alive_step A W index (Network ev) l = network_event A W index ev l"
| "alive_step A W index Sigterm l = Ok (sigterm l)"
| "alive_step A W index Stop_call l =
     Ok (case l_handler l of [] \<Rightarrow> l | c # cs \<Rightarrow> (node_stop_call A c l)\<lparr>l_handler := cs\<rparr>)"
| "alive_step A W index Websocket_returns l =
     Ok (l\<lparr>l_websocket := server_return A (websocket_busy (l_process l)) (l_websocket l)\<rparr>)"
| "alive_step A W index Http_returns l =
     Ok (l\<lparr>l_http := server_return A (http_busy (l_process l)) (l_http l)\<rparr>)"
| "alive_step A W index Joined_websocket l =
     Ok (if l_main l = Join_websocket \<and> sv_phase (l_websocket l) = Returned
         then l\<lparr>l_main := Join_http\<rparr> else l)"
| "alive_step A W index Joined_http l =
     Ok (if l_main l = Join_http \<and> sv_phase (l_http l) = Returned then l\<lparr>l_main := Exited 0\<rparr> else l)"

definition life_step ::
    "'c io_api \<Rightarrow> 'j world \<Rightarrow> ('j \<Rightarrow> string \<Rightarrow> 'j outcome) \<Rightarrow> life_event \<Rightarrow> ('j, 'c) life \<Rightarrow> ('j, 'c) life outcome" where
  "life_step A W index ev l = (if ended l then Ok l else alive_step A W index ev l)"

section \<open>Invariant\<close>

definition stopped :: "'c io_api \<Rightarrow> 'c server \<Rightarrow> bool" where
  "stopped A sv \<longleftrightarrow> io_stopped A (sv_ioc sv)"

text \<open>The handler has been called, and the program is still there.\<close>

definition stopping :: "('j, 'c) life \<Rightarrow> bool" where
  "stopping l \<longleftrightarrow> l_action l = Default \<and> l_main l \<in> {Installed, Join_websocket, Join_http}"

text \<open>Each server is stopped or will be by the running handler, from the end of the list of calls.\<close>

definition stop_due :: "'c io_api \<Rightarrow> ('j, 'c) life \<Rightarrow> bool" where
  "stop_due A l \<longleftrightarrow> (l_handler l = [Stop_websocket, Stop_http] \<or>
     l_handler l = [Stop_http] \<and> stopped A (l_websocket l) \<or>
     l_handler l = [] \<and> stopped A (l_websocket l) \<and> stopped A (l_http l))"

definition life_inv :: "'c io_api \<Rightarrow> ('j, 'c) life \<Rightarrow> bool" where
  "life_inv A l \<longleftrightarrow>
     (sv_phase (l_websocket l) = In_run \<longrightarrow> sv_accepting (l_websocket l)) \<and>
     (sv_phase (l_http l) = In_run \<longrightarrow> sv_accepting (l_http l)) \<and>
     (sv_phase (l_websocket l) = Returned \<longrightarrow> stopped A (l_websocket l)) \<and>
     (sv_phase (l_http l) = Returned \<longrightarrow> stopped A (l_http l)) \<and>
     (l_main l = Created \<longrightarrow> l_action l = Default \<and> l_handler l = []) \<and>
     (l_main l \<in> {Created, Installed} \<longrightarrow>
        sv_phase (l_websocket l) = Not_started \<and> sv_phase (l_http l) = Not_started) \<and>
     (l_main l = Created \<or> l_action l = Stop_node \<longrightarrow>
        l_handler l = [] \<and> \<not> stopped A (l_websocket l) \<and> \<not> stopped A (l_http l)) \<and>
     (stopping l \<longrightarrow> stop_due A l) \<and>
     (l_main l = Join_http \<longrightarrow> sv_phase (l_websocket l) = Returned) \<and>
     (\<forall>c. l_main l = Exited c \<longrightarrow> c = 0 \<and> l_action l = Default \<and> stopped A (l_websocket l) \<and> stopped A (l_http l))"

lemmas life_defs = life_step_def life_inv_def stopping_def stop_due_def stopped_def ended_def threads_exist_def
  on_termination_def sigterm_def server_run_def server_accept_def server_stop_def

lemma life_new_inv: "io_laws A \<Longrightarrow> life_inv A (life_new A n)"
  by (simp add: life_defs io_laws_def life_new_def server_new_def)

lemma network_event_keeps:
  assumes "network_event A W index ev l = Ok l'"
  obtains "l' = l" | p where "l' = l\<lparr>l_process := p\<rparr>" | p where "l' = l\<lparr>l_main := Aborted, l_process := p\<rparr>"
proof (cases "server_serves A ev l")
  case True
  then obtain p where p: "process_step W index ev (l_process l) = Ok p"
    using assms by (cases "process_step W index ev (l_process l)") (simp_all add: network_event_def map_outcome_val_def)
  have again: "accept_again ev l = l" using True by (cases ev) (simp_all add: server_on_accept_def server_accept_def)
  from assms have l': "l' = (if p_terminated p = None then l else l\<lparr>l_main := Aborted\<rparr>)\<lparr>l_process := p\<rparr>"
    unfolding network_event_def map_outcome_val_def p again using True by simp
  show thesis
  proof (cases "p_terminated p = None")
    case True
    with l' show thesis using that(2) by simp
  next
    case False
    with l' show thesis using that(3) by simp
  qed
next
  case False
  with assms have "Ok l = Ok l'" by (simp only: network_event_def if_False)
  then have "l' = l" by (rule outcome.inject(1) [THEN iffD1, symmetric])
  then show thesis by (rule that(1))
qed

text \<open>A server that is running has an accept pending, so \<open>run\<close> returns only when the context is stopped.\<close>

lemma return_when_stopped:
  assumes "life_inv A l"
  shows "l\<lparr>l_websocket := server_return A busy (l_websocket l)\<rparr> =
      (if sv_phase (l_websocket l) = In_run \<and> io_stopped A (sv_ioc (l_websocket l))
       then l\<lparr>l_websocket := (l_websocket l)\<lparr>sv_phase := Returned\<rparr>\<rparr> else l)"
    and "l\<lparr>l_http := server_return A busy (l_http l)\<rparr> =
      (if sv_phase (l_http l) = In_run \<and> io_stopped A (sv_ioc (l_http l))
       then l\<lparr>l_http := (l_http l)\<lparr>sv_phase := Returned\<rparr>\<rparr> else l)"
  using assms by (auto simp: server_return_def life_inv_def)

lemma handler_running: "life_inv A l \<Longrightarrow> \<not> ended l \<Longrightarrow> l_handler l \<noteq> [] \<Longrightarrow> stopping l"
  by (cases "l_main l"; cases "l_action l") (simp_all add: life_inv_def ended_def stopping_def)

lemma life_inv_moves:
  assumes "life_inv A l"
  shows "l_main l = Created \<Longrightarrow> life_inv A ((on_termination l)\<lparr>l_main := Installed\<rparr>)"
    and "l_main l = Installed \<Longrightarrow> life_inv A (l\<lparr>l_main := Join_websocket\<rparr>)"
    and "threads_exist l \<and> sv_phase (l_websocket l) = Not_started \<Longrightarrow>
      life_inv A (l\<lparr>l_websocket := server_run A (l_websocket l)\<rparr>)"
    and "threads_exist l \<and> sv_phase (l_http l) = Not_started \<Longrightarrow> life_inv A (l\<lparr>l_http := server_run A (l_http l)\<rparr>)"
    and "sv_phase (l_websocket l) = In_run \<and> io_stopped A (sv_ioc (l_websocket l)) \<Longrightarrow>
      life_inv A (l\<lparr>l_websocket := (l_websocket l)\<lparr>sv_phase := Returned\<rparr>\<rparr>)"
    and "sv_phase (l_http l) = In_run \<and> io_stopped A (sv_ioc (l_http l)) \<Longrightarrow>
      life_inv A (l\<lparr>l_http := (l_http l)\<lparr>sv_phase := Returned\<rparr>\<rparr>)"
    and "l_main l = Join_websocket \<and> sv_phase (l_websocket l) = Returned \<Longrightarrow> life_inv A (l\<lparr>l_main := Join_http\<rparr>)"
    and "l_main l = Join_http \<and> sv_phase (l_http l) = Returned \<Longrightarrow> life_inv A (l\<lparr>l_main := Exited 0\<rparr>)"
  subgoal using assms by (simp add: life_defs)
  subgoal using assms by (simp add: life_defs)
  subgoal using assms by (cases "l_main l"; cases "l_action l") (auto simp: life_defs)
  subgoal using assms by (cases "l_main l"; cases "l_action l") (auto simp: life_defs)
  subgoal using assms by (cases "l_main l"; cases "l_action l") (auto simp: life_defs)
  subgoal using assms by (cases "l_main l"; cases "l_action l") (auto simp: life_defs)
  subgoal using assms by (cases "l_action l") (auto simp: life_defs)
  subgoal using assms by (cases "l_action l") (auto simp: life_defs)
  done

lemma life_step_inv:
  assumes "io_laws A" and "life_inv A l" and "life_step A W index ev l = Ok l'"
  shows "life_inv A l'"
proof (cases "ended l")
  case False
  with assms(3) have step: "alive_step A W index ev l = Ok l'" by (simp add: life_step_def)
  note moves = life_inv_moves [OF assms(2)]
  have keep: "life_inv A l'" if "Ok (if c then u else l) = Ok l'" and "c \<Longrightarrow> life_inv A u" for c u
    using that assms(2) by (cases c) simp_all
  show ?thesis
  proof (cases ev)
    case (Network e)
    then have "network_event A W index e l = Ok l'" using step by simp
    then show ?thesis using assms(2) by (cases rule: network_event_keeps) (simp_all add: life_defs)
  next
    case Stop_call
    show ?thesis
    proof (cases "l_handler l")
      case Nil
      with step Stop_call assms(2) show ?thesis by simp
    next
      case (Cons c cs)
      then have "stopping l" using handler_running [OF assms(2) False] by simp
      with assms(2) have "stop_due A l" by (simp add: life_inv_def)
      with Cons consider "c = Stop_websocket" "cs = [Stop_http]" | "c = Stop_http" "cs = []" "stopped A (l_websocket l)"
        by (auto simp: stop_due_def)
      then show ?thesis
      proof cases
        case 1
        with step Stop_call Cons have l': "l' = l\<lparr>l_websocket := server_stop A (l_websocket l), l_handler := [Stop_http]\<rparr>"
          by simp
        show ?thesis using assms(1,2) \<open>stopping l\<close> unfolding l' by (cases "l_main l") (simp_all add: life_defs io_laws_def)
      next
        case 2
        with step Stop_call Cons have l': "l' = l\<lparr>l_http := server_stop A (l_http l), l_handler := []\<rparr>"
          by simp
        show ?thesis using assms(1,2) \<open>stopping l\<close> 2(3) unfolding l' by (cases "l_main l") (simp_all add: life_defs io_laws_def)
      qed
    qed
  next
    case Sigterm
    with step have l': "l' = sigterm l" by simp
    show ?thesis using assms(2) False unfolding l'
      by (cases "l_action l"; cases "l_main l") (simp_all add: life_defs)
  next
    case Install
    show ?thesis by (rule keep [OF step [unfolded Install alive_step.simps] moves(1)])
  next
    case Start_threads
    show ?thesis by (rule keep [OF step [unfolded Start_threads alive_step.simps] moves(2)])
  next
    case Websocket_runs
    show ?thesis by (rule keep [OF step [unfolded Websocket_runs alive_step.simps] moves(3)])
  next
    case Http_runs
    show ?thesis by (rule keep [OF step [unfolded Http_runs alive_step.simps] moves(4)])
  next
    case Websocket_returns
    show ?thesis
      by (rule keep [OF step [unfolded Websocket_returns alive_step.simps return_when_stopped [OF assms(2)]] moves(5)])
  next
    case Http_returns
    show ?thesis
      by (rule keep [OF step [unfolded Http_returns alive_step.simps return_when_stopped [OF assms(2)]] moves(6)])
  next
    case Joined_websocket
    show ?thesis by (rule keep [OF step [unfolded Joined_websocket alive_step.simps] moves(7)])
  next
    case Joined_http
    show ?thesis by (rule keep [OF step [unfolded Joined_http alive_step.simps] moves(8)])
  qed
qed (use assms in \<open>simp add: life_step_def\<close>)

definition life_machine_inv :: "'c io_api \<Rightarrow> ('j, 'c) life \<Rightarrow> bool" where
  "life_machine_inv A l \<longleftrightarrow> io_laws A \<and> life_inv A l"

interpretation life: invariant_machine "life_machine_inv A" "life_step A W index"
  for A :: "'c io_api" and W :: "'j world" and index
  by unfold_locales (auto simp: life_machine_inv_def intro: life_step_inv)

lemma life_run_inv:
  "io_laws A \<Longrightarrow> fold_outcome (\<lambda>l ev. life_step A W index ev l) (life_new A n) evs = Ok l \<Longrightarrow> life_inv A l"
  using life.run_inv [of A "life_new A n" W index evs l] life_new_inv [of A n]
  by (simp add: life_machine_inv_def)

section \<open>Shutting down\<close>

text \<open>The steps of a shutdown, and how many of them are done.\<close>

definition shutdown :: "life_event list" where
  "shutdown = [Stop_call, Stop_call, Start_threads, Websocket_runs, Http_runs, Websocket_returns, Http_returns,
     Joined_websocket, Joined_http]"

definition shutdown_progress :: "('j, 'c) life \<Rightarrow> nat" where
  "shutdown_progress l =
     (if ended l then 9
      else if l_handler l \<noteq> [] then 2 - length (l_handler l)
      else if \<not> threads_exist l then 2
      else if sv_phase (l_websocket l) = Not_started then 3
      else if sv_phase (l_http l) = Not_started then 4
      else if sv_phase (l_websocket l) \<noteq> Returned then 5
      else if sv_phase (l_http l) \<noteq> Returned then 6
      else if l_main l = Join_websocket then 7 else 8)"

definition signalled :: "'c io_api \<Rightarrow> ('j, 'c) life \<Rightarrow> bool" where
  "signalled A l \<longleftrightarrow> life_inv A l \<and> (ended l \<or> stopping l)"

lemma signalled_facts:
  assumes "signalled A l" and "\<not> ended l"
  shows "l_action l = Default" "l_main l \<noteq> Created" "stop_due A l" "l_main l = Installed \<or> threads_exist l"
    "l_main l = Join_http \<Longrightarrow> sv_phase (l_websocket l) = Returned"
    "l_main l = Installed \<Longrightarrow> sv_phase (l_websocket l) = Not_started \<and> sv_phase (l_http l) = Not_started"
  using assms by (auto simp: signalled_def life_inv_def stopping_def threads_exist_def)

text \<open>The effect of one step on the progress, when the steps before it are done.\<close>

definition advances :: "nat \<Rightarrow> ('j, 'c) life \<Rightarrow> ('j, 'c) life \<Rightarrow> bool" where
  "advances k l l' \<longleftrightarrow> shutdown_progress l \<le> shutdown_progress l' \<and>
     (k \<le> shutdown_progress l \<longrightarrow> Suc k \<le> shutdown_progress l')"

lemma stop_call_progress:
  assumes "signalled A l" and "\<not> ended l" and "alive_step A W index Stop_call l = Ok l'" and "k < 2"
  shows "advances k l l'"
proof (cases "l_handler l")
  case Nil
  with assms(2-4) show ?thesis by (auto simp: advances_def shutdown_progress_def)
next
  case (Cons c cs)
  with signalled_facts(3) [OF assms(1,2)] have "length cs \<le> 1" by (auto simp: stop_due_def)
  moreover have "l_handler l' = cs" "\<not> ended l'"
    using assms(2,3) Cons by (cases c; auto simp: ended_def)+
  ultimately show ?thesis using Cons assms(2,4) by (cases cs) (auto simp: advances_def shutdown_progress_def)
qed

lemmas progress_defs = advances_def shutdown_progress_def ended_def threads_exist_def stop_due_def stopped_def server_run_def server_accept_def

lemma advances_Start_threads:
  assumes "signalled A l" and "\<not> ended l" and "alive_step A W index Start_threads l = Ok l'"
  shows "advances 2 l l'"
proof -
  have l': "l' = (if l_main l = Installed then l\<lparr>l_main := Join_websocket\<rparr> else l)" using assms(3) by simp
  show ?thesis using signalled_facts [OF assms(1,2)] assms(2) unfolding l'
    by (cases "l_main l"; cases "sv_phase (l_websocket l)"; cases "sv_phase (l_http l)"; cases "l_handler l")
      (auto simp: progress_defs)
qed

lemma advances_Websocket_runs:
  assumes "signalled A l" and "\<not> ended l" and "alive_step A W index Websocket_runs l = Ok l'"
  shows "advances 3 l l'"
proof -
  have l': "l' = (if threads_exist l \<and> sv_phase (l_websocket l) = Not_started then l\<lparr>l_websocket := server_run A (l_websocket l)\<rparr> else l)" using assms(3) by simp
  show ?thesis using signalled_facts [OF assms(1,2)] assms(2) unfolding l'
    by (cases "l_main l"; cases "sv_phase (l_websocket l)"; cases "sv_phase (l_http l)"; cases "l_handler l")
      (auto simp: progress_defs)
qed

lemma advances_Http_runs:
  assumes "signalled A l" and "\<not> ended l" and "alive_step A W index Http_runs l = Ok l'"
  shows "advances 4 l l'"
proof -
  have l': "l' = (if threads_exist l \<and> sv_phase (l_http l) = Not_started then l\<lparr>l_http := server_run A (l_http l)\<rparr> else l)" using assms(3) by simp
  show ?thesis using signalled_facts [OF assms(1,2)] assms(2) unfolding l'
    by (cases "l_main l"; cases "sv_phase (l_websocket l)"; cases "sv_phase (l_http l)"; cases "l_handler l")
      (auto simp: progress_defs)
qed

lemma advances_Websocket_returns:
  assumes "signalled A l" and "\<not> ended l" and "alive_step A W index Websocket_returns l = Ok l'"
  shows "advances 5 l l'"
proof -
  have l': "l' = (if sv_phase (l_websocket l) = In_run \<and> io_stopped A (sv_ioc (l_websocket l)) then l\<lparr>l_websocket := (l_websocket l)\<lparr>sv_phase := Returned\<rparr>\<rparr> else l)"
    using assms(1,3) return_when_stopped(1) [of A l] by (simp add: signalled_def)
  show ?thesis using signalled_facts [OF assms(1,2)] assms(2) unfolding l'
    by (cases "l_main l"; cases "sv_phase (l_websocket l)"; cases "sv_phase (l_http l)"; cases "l_handler l")
      (auto simp: progress_defs)
qed

lemma advances_Http_returns:
  assumes "signalled A l" and "\<not> ended l" and "alive_step A W index Http_returns l = Ok l'"
  shows "advances 6 l l'"
proof -
  have l': "l' = (if sv_phase (l_http l) = In_run \<and> io_stopped A (sv_ioc (l_http l)) then l\<lparr>l_http := (l_http l)\<lparr>sv_phase := Returned\<rparr>\<rparr> else l)"
    using assms(1,3) return_when_stopped(2) [of A l] by (simp add: signalled_def)
  show ?thesis using signalled_facts [OF assms(1,2)] assms(2) unfolding l'
    by (cases "l_main l"; cases "sv_phase (l_websocket l)"; cases "sv_phase (l_http l)"; cases "l_handler l")
      (auto simp: progress_defs)
qed

lemma advances_Joined_websocket:
  assumes "signalled A l" and "\<not> ended l" and "alive_step A W index Joined_websocket l = Ok l'"
  shows "advances 7 l l'"
proof -
  have l': "l' = (if l_main l = Join_websocket \<and> sv_phase (l_websocket l) = Returned then l\<lparr>l_main := Join_http\<rparr> else l)" using assms(3) by simp
  show ?thesis using signalled_facts [OF assms(1,2)] assms(2) unfolding l'
    by (cases "l_main l"; cases "sv_phase (l_websocket l)"; cases "sv_phase (l_http l)"; cases "l_handler l")
      (auto simp: progress_defs)
qed

lemma advances_Joined_http:
  assumes "signalled A l" and "\<not> ended l" and "alive_step A W index Joined_http l = Ok l'"
  shows "advances 8 l l'"
proof -
  have l': "l' = (if l_main l = Join_http \<and> sv_phase (l_http l) = Returned then l\<lparr>l_main := Exited 0\<rparr> else l)" using assms(3) by simp
  show ?thesis using signalled_facts [OF assms(1,2)] assms(2) unfolding l'
    by (cases "l_main l"; cases "sv_phase (l_websocket l)"; cases "sv_phase (l_http l)"; cases "l_handler l")
      (auto simp: progress_defs)
qed

lemma shutdown_step:
  assumes "signalled A l" and "\<not> ended l" and "alive_step A W index (shutdown ! k) l = Ok l'" and "k < 9"
  shows "advances k l l'"
proof -
  consider "k < 2" | "k = 2" | "k = 3" | "k = 4" | "k = 5" | "k = 6" | "k = 7" | "k = 8"
    using assms(4) by linarith
  then show ?thesis
  proof cases
    case 1
    then have "shutdown ! k = Stop_call" by (cases k) (auto simp: shutdown_def less_2_cases_iff)
    with assms 1 show ?thesis using stop_call_progress by metis
  next
    case 2
    with assms(3) have "alive_step A W index Start_threads l = Ok l'" by (simp add: shutdown_def)
    with 2 show ?thesis using advances_Start_threads [OF assms(1,2)] by simp
  next
    case 3
    with assms(3) have "alive_step A W index Websocket_runs l = Ok l'" by (simp add: shutdown_def)
    with 3 show ?thesis using advances_Websocket_runs [OF assms(1,2)] by simp
  next
    case 4
    with assms(3) have "alive_step A W index Http_runs l = Ok l'" by (simp add: shutdown_def)
    with 4 show ?thesis using advances_Http_runs [OF assms(1,2)] by simp
  next
    case 5
    with assms(3) have "alive_step A W index Websocket_returns l = Ok l'" by (simp add: shutdown_def)
    with 5 show ?thesis using advances_Websocket_returns [OF assms(1,2)] by simp
  next
    case 6
    with assms(3) have "alive_step A W index Http_returns l = Ok l'" by (simp add: shutdown_def)
    with 6 show ?thesis using advances_Http_returns [OF assms(1,2)] by simp
  next
    case 7
    with assms(3) have "alive_step A W index Joined_websocket l = Ok l'" by (simp add: shutdown_def)
    with 7 show ?thesis using advances_Joined_websocket [OF assms(1,2)] by simp
  next
    case 8
    with assms(3) have "alive_step A W index Joined_http l = Ok l'" by (simp add: shutdown_def)
    with 8 show ?thesis using advances_Joined_http [OF assms(1,2)] by simp
  qed
qed

lemma progress_bounds:
  "shutdown_progress l \<le> 9" "ended l \<Longrightarrow> shutdown_progress l = 9" "\<not> ended l \<Longrightarrow> shutdown_progress l \<le> 8"
  by (auto simp: shutdown_progress_def)

lemma progress_process [simp]:
  "shutdown_progress (l\<lparr>l_process := p\<rparr>) = shutdown_progress l"
  by (simp add: shutdown_progress_def ended_def threads_exist_def)

lemma length_shutdown [simp]: "length shutdown = 9"
  by (simp add: shutdown_def)

lemma stop_call_main:
  "l_main (node_stop_call A c l) = l_main l" "l_action (node_stop_call A c l) = l_action l"
  by (cases c; simp)+

text \<open>No event but another signal takes progress back.\<close>

lemma life_step_progress:
  assumes "io_laws A" and "signalled A l" and "ev \<noteq> Sigterm" and "life_step A W index ev l = Ok l'"
  shows "signalled A l' \<and> shutdown_progress l \<le> shutdown_progress l'"
proof (cases "ended l")
  case True
  with assms(2,4) show ?thesis by (simp add: life_step_def)
next
  case False
  with assms(4) have step: "alive_step A W index ev l = Ok l'" by (simp add: life_step_def)
  have "life_inv A l'" using assms by (auto simp: signalled_def intro: life_step_inv)
  moreover have "(ended l' \<or> stopping l') \<and> shutdown_progress l \<le> shutdown_progress l'"
  proof (cases "ev = Install \<or> (\<exists>e. ev = Network e)")
    case True
    then show ?thesis
    proof
      assume "ev = Install"
      with step signalled_facts(2) [OF assms(2) False] have "l' = l" by simp
      with assms(2) show ?thesis by (simp add: signalled_def)
    next
      assume "\<exists>e. ev = Network e"
      then obtain e where "network_event A W index e l = Ok l'" using step by auto
      then show ?thesis using assms(2) False
        by (cases rule: network_event_keeps)
          (auto simp: signalled_def stopping_def ended_def progress_bounds(1) progress_bounds(2)
            intro: progress_bounds(1) [THEN order_trans])
    qed
  next
    case False
    then obtain k where k: "k < 9" "ev = shutdown ! k"
      using assms(3) that [of 0] that [of 2] that [of 3] that [of 4] that [of 5] that [of 6] that [of 7] that [of 8]
      by (cases ev) (auto simp: shutdown_def)
    from shutdown_step [OF assms(2) \<open>\<not> ended l\<close> _ k(1)] step k(2)
    have "shutdown_progress l \<le> shutdown_progress l'" by (simp add: advances_def)
    moreover have "l_action l' = Default \<and> (ended l' \<or> l_main l' \<in> {Installed, Join_websocket, Join_http})"
      using step assms(2,3) \<open>\<not> ended l\<close> False
      by (cases ev) (auto simp: signalled_def stopping_def ended_def split: list.splits if_splits simp: stop_call_main)
    ultimately show ?thesis by (auto simp: stopping_def)
  qed
  ultimately show ?thesis by (simp add: signalled_def)
qed

lemma shutdown_run:
  assumes "io_laws A" and "signalled A l" and "subseq (drop k shutdown) evs" and "k \<le> shutdown_progress l" and "k \<le> 9"
    and "Sigterm \<notin> set evs" and "fold_outcome (\<lambda>l ev. life_step A W index ev l) l evs = Ok l'"
  shows "ended l'"
  using assms(2-)
proof (induction evs arbitrary: k l)
  case Nil
  then have "9 \<le> k" using list_emb_length [of "(=)" "drop k shutdown" "[]"] by simp
  with Nil have "9 \<le> shutdown_progress l" by simp
  then have "ended l" using progress_bounds(3) [of l] by linarith
  with Nil show ?case by simp
next
  case (Cons ev evs)
  note prems = Cons.prems
  from Cons obtain l1 where l1: "life_step A W index ev l = Ok l1"
    and rest: "fold_outcome (\<lambda>l ev. life_step A W index ev l) l1 evs = Ok l'"
    by (auto simp: outcome_simps)
  have progress: "signalled A l1 \<and> shutdown_progress l \<le> shutdown_progress l1"
    using life_step_progress [OF assms(1) Cons.prems(1) _ l1] Cons.prems(5) by auto
  show ?case
  proof (cases "k < 9 \<and> ev = shutdown ! k")
    case True
    then have "drop k shutdown = ev # drop (Suc k) shutdown" by (simp add: Cons_nth_drop_Suc)
    with Cons.prems(2) have "subseq (drop (Suc k) shutdown) evs" by (simp add: subseq_Cons2_iff)
    moreover have "Suc k \<le> shutdown_progress l1"
    proof (cases "ended l")
      case ended: True
      with l1 True show ?thesis by (simp add: life_step_def progress_bounds(2))
    next
      case False
      with l1 have "alive_step A W index (shutdown ! k) l = Ok l1" using True by (simp add: life_step_def)
      with shutdown_step [OF Cons.prems(1) False this] True Cons.prems(3) show ?thesis by (simp add: advances_def)
    qed
    ultimately show ?thesis using Cons.IH [of l1 "Suc k"] progress True Cons.prems(5) rest by simp
  next
    case False
    have "subseq (drop k shutdown) evs"
    proof (cases "drop k shutdown")
      case (Cons e es)
      then have "k < length shutdown" by (rule contrapos_pp) simp
      then have "k < 9" by simp
      moreover from this have "e = shutdown ! k" using Cons by (simp flip: Cons_nth_drop_Suc)
      ultimately show ?thesis using False prems(2) Cons by simp
    qed simp
    with Cons.IH [of l1 k] progress Cons.prems rest show ?thesis by simp
  qed
qed

text \<open>Only a signal kills the program, and only an uncaught exception aborts it.\<close>

lemma life_step_end:
  assumes "life_step A W index ev l = Ok l'" and "ev \<noteq> Sigterm"
    and "l_main l \<noteq> Killed" and "l_main l = Aborted \<Longrightarrow> p_terminated (l_process l) \<noteq> None"
  shows "l_main l' \<noteq> Killed \<and> (l_main l' = Aborted \<longrightarrow> p_terminated (l_process l') \<noteq> None)"
proof (cases "ended l")
  case False
  with assms(1) have step: "alive_step A W index ev l = Ok l'" by (simp add: life_step_def)
  show ?thesis
  proof (cases ev)
    case (Network e)
    have main: "l_main (accept_again e l) = l_main l" by (cases e) simp_all
    from Network step False assms(3) show ?thesis
      by (cases "process_step W index e (l_process l)")
        (auto simp: network_event_def map_outcome_val_def ended_def main split: if_splits)
  qed (use step False assms(2,3) in \<open>auto simp: ended_def stop_call_main split: list.splits if_splits\<close>)
qed (use assms in \<open>auto simp: life_step_def\<close>)

lemma life_run_end:
  assumes "fold_outcome (\<lambda>l ev. life_step A W index ev l) l evs = Ok l'" and "Sigterm \<notin> set evs"
    and "l_main l \<noteq> Killed" and "l_main l = Aborted \<Longrightarrow> p_terminated (l_process l) \<noteq> None"
  shows "l_main l' \<noteq> Killed \<and> (l_main l' = Aborted \<longrightarrow> p_terminated (l_process l') \<noteq> None)"
  using assms
proof (induction evs arbitrary: l)
  case (Cons ev evs)
  then obtain l1 where l1: "life_step A W index ev l = Ok l1"
    "fold_outcome (\<lambda>l ev. life_step A W index ev l) l1 evs = Ok l'"
    by (auto simp: outcome_simps)
  have "ev \<noteq> Sigterm" using Cons.prems(2) by auto
  from life_step_end [OF l1(1) this Cons.prems(3,4)] Cons.IH [OF l1(2)] Cons.prems(2) show ?case by simp
qed auto


section \<open>Properties\<close>

text \<open>
  C13. A signal ends the program: once the handler is installed, in whatever state the servers and
  their connections are, also before the server threads have started, a \<open>SIGTERM\<close> followed by the nine
  steps of the shutdown in their order, with any other events in between but no second signal,
  makes \<open>main\<close> return 0, unless an exception that nothing catches has aborted the process.
\<close>

theorem signal_ends_program:
  assumes "io_laws A" and "fold_outcome (\<lambda>l ev. life_step A W index ev l) (life_new A n) evs = Ok l"
    and "l_action l = Stop_node"
    and "fold_outcome (\<lambda>l ev. life_step A W index ev l) l (Sigterm # evs') = Ok l'"
    and "subseq shutdown evs'" and "Sigterm \<notin> set evs'"
    and "\<not> ended l"
  shows "l_main l' = Exited 0 \<or> l_main l' = Aborted \<and> p_terminated (l_process l') \<noteq> None"
proof -
  have inv: "life_inv A l" by (rule life_run_inv [OF assms(1,2)])
  let ?l = "sigterm l"
  have step: "life_step A W index Sigterm l = Ok ?l" using assms(7) by (simp add: life_step_def)
  with assms(4) have run: "fold_outcome (\<lambda>l ev. life_step A W index ev l) ?l evs' = Ok l'" by simp
  have "life_inv A ?l" by (rule life_step_inv [OF assms(1) inv step])
  moreover have main: "l_main ?l = l_main l" "l_action ?l = Default" using assms(3) by (simp_all add: sigterm_def)
  moreover have "l_main l \<noteq> Created" using inv assms(3) by (auto simp: life_inv_def)
  ultimately have "signalled A ?l"
    using assms(7) by (cases "l_main l") (simp_all add: signalled_def stopping_def ended_def)
  from shutdown_run [OF assms(1) this, of 0] assms(5,6) run have "ended l'" by simp
  moreover from assms(7) main have "l_main ?l \<noteq> Killed" "l_main ?l \<noteq> Aborted" by (auto simp: ended_def)
  with life_run_end [OF run assms(6)] have "l_main l' \<noteq> Killed \<and> (l_main l' = Aborted \<longrightarrow> p_terminated (l_process l') \<noteq> None)"
    by blast
  moreover have "life_machine_inv A l'"
    using life.run_inv [OF _ run] \<open>life_inv A ?l\<close> assms(1) by (simp add: life_machine_inv_def)
  ultimately show ?thesis
    by (cases "l_main l'") (auto simp: ended_def life_machine_inv_def life_inv_def)
qed


text \<open>A second signal before the end kills the process: \<open>SA_RESETHAND\<close> has removed the handler.\<close>

lemma second_signal_kills:
  assumes "stopping l"
  shows "life_step A W index Sigterm l = Ok (l\<lparr>l_main := Killed\<rparr>)"
  using assms by (auto simp: stopping_def life_step_def ended_def sigterm_def)

text \<open>A stopped server handles nothing any more, also what its clients have already sent.\<close>

lemma stopped_server_is_silent:
  assumes "\<not> server_serves A ev l"
  shows "life_step A W index (Network ev) l = Ok l"
  using assms by (simp add: life_step_def network_event_def)

section \<open>Witnesses\<close>

definition flag_io :: "bool io_api" where
  "flag_io = \<lparr>io_new = False, io_stop = (\<lambda>_. True), io_stopped = id\<rparr>"

lemma flag_io_laws: "io_laws flag_io"
  by (simp add: io_laws_def flag_io_def)

lemmas life_eval = life_step_def life_new_def server_new_def on_termination_def ended_def threads_exist_def
  server_run_def server_stop_def server_accept_def server_on_accept_def server_return_def network_event_def
  process_step_def process_new_def serving_def flag_io_def sigterm_def
  map_outcome_val_def

definition busy_life :: "(jval, bool) life" where
  "busy_life = \<lparr>l_main = Join_websocket, l_action = Stop_node, l_handler = [],
     l_websocket = \<lparr>sv_ioc = False, sv_phase = Not_started, sv_accepting = False\<rparr>,
     l_http = \<lparr>sv_ioc = False, sv_phase = In_run, sv_accepting = True\<rparr>,
     l_process = (process_new example_node)\<lparr>p_http := [H_reading]\<rparr>\<rparr>"

theorem signal_ends_program_witness:
  "\<exists>l'. fold_outcome (\<lambda>l ev. life_step flag_io example_world jval_index ev l) busy_life (Sigterm # shutdown) = Ok l' \<and>
     l_main l' = Exited 0"
proof -
  let ?evs = "[Install, Start_threads, Http_runs, Network (Http_accepted True)]"
  let ?l' = "busy_life\<lparr>l_main := Exited 0, l_action := Default,
    l_websocket := \<lparr>sv_ioc = True, sv_phase = Returned, sv_accepting = True\<rparr>,
    l_http := \<lparr>sv_ioc = True, sv_phase = Returned, sv_accepting = True\<rparr>\<rparr>"
  have before: "fold_outcome (\<lambda>l ev. life_step flag_io example_world jval_index ev l) (life_new flag_io example_node) ?evs =
      Ok busy_life"
    by (simp add: life_eval busy_life_def)
  have after: "fold_outcome (\<lambda>l ev. life_step flag_io example_world jval_index ev l) busy_life (Sigterm # shutdown) = Ok ?l'"
    by (simp add: life_eval busy_life_def shutdown_def)
  have "l_main ?l' = Exited 0 \<or> l_main ?l' = Aborted \<and> p_terminated (l_process ?l') \<noteq> None"
    by (rule signal_ends_program [OF flag_io_laws before _ after])
      (simp_all add: busy_life_def ended_def shutdown_def)
  with after show ?thesis by auto
qed


end
