(* ===== verification/Text_Node.thy ===== *)
theory Text_Node
  imports Network
begin

text \<open>
  The class \<open>Node\<close> of \<open>src/node.cc\<close> in its build without \<open>TRANSACTIONS\<close>: the blocks carry text, there are
  no unspent outputs and no pool, and the handlers for transactions are not compiled.
\<close>

section \<open>Model: state\<close>

record 'j text_node =
  x_blockchain :: "text_data blockchain"
  x_peers :: "(string \<times> u16) list"
  x_host :: string
  x_port :: u16
  x_threads :: "thread list"
  x_sent :: "(nat \<times> 'j) list"
  x_files :: "string \<rightharpoonup> string"

definition text_detach :: "thread \<Rightarrow> 'j text_node \<Rightarrow> 'j text_node" where
  "text_detach t n = n\<lparr>x_threads := x_threads n @ [t]\<rparr>"

definition text_origin_json :: "'j json_api \<Rightarrow> 'j text_node \<Rightarrow> 'j" where
  "text_origin_json J n = json_object J
     [(''host'', json_of_string J (x_host n)), (''port'', json_of_u64 J (ucast (x_port n)))]"

definition text_add_peer :: "'j world \<Rightarrow> string \<Rightarrow> u16 \<Rightarrow> 'j text_node \<Rightarrow> (nat, 'j text_node) call" where
  "text_add_peer W host port n =
     (case peers_add W host port (x_peers n) of (r, ps) \<Rightarrow> (r, n\<lparr>x_peers := ps\<rparr>))"

section \<open>Model: HTTP handlers\<close>

definition text_blocks_get :: "'j world \<Rightarrow> 'j text_node \<Rightarrow> ('j reply, 'j text_node) call" where
  "text_blocks_get W n = (Ok (status_ok, chain_to_json text_ops (w_api W) (x_blockchain n)), n)"

definition text_blocks_latest_get :: "'j world \<Rightarrow> 'j text_node \<Rightarrow> ('j reply, 'j text_node) call" where
  "text_blocks_latest_get W n =
     (if m_blocks (x_blockchain n) = [] then (Ok (status_ok, json_null (w_api W)), n)
      else (Ok (status_ok, block_to_json text_ops (w_api W) (last (m_blocks (x_blockchain n)))), n))"

text \<open>The whole request is the text of the block.\<close>

definition text_blocks_post ::
    "'j world \<Rightarrow> (nat \<Rightarrow> time_point) \<Rightarrow> 'j \<Rightarrow> 'j text_node \<Rightarrow> ('j reply, 'j text_node) call option" where
  "text_blocks_post W clk data n =
     map_option (\<lambda>r. then_call
         (rethrow (HTTPError status_bad_request) (malformed ''POST /blocks'' W data) r)
         (\<lambda>_ n. (Ok (status_ok, json_null (w_api W)), text_detach Broadcast_latest_block n)))
       (case text_from_json (w_api W) data of
          Throw e \<Rightarrow> Some (Throw e, n)
        | Undef \<Rightarrow> Some (Undef, n)
        | Ok d \<Rightarrow> map_option (\<lambda>(r, c). (r, n\<lparr>x_blockchain := c\<rparr>))
            (construct_next_block text_ops (w_env W) clk d (x_blockchain n)))"

definition text_blocks_persist_post ::
    "'j world \<Rightarrow> 'j \<Rightarrow> 'j text_node \<Rightarrow> ('j reply, 'j text_node) call" where
  "text_blocks_persist_post W data n =
     then_call (rethrow (HTTPError status_bad_request) (malformed ''POST /blocks/persist'' W data)
       (then_call (bind_outcome (json_at (w_api W) data ''file'') (json_get_string (w_api W)), n) (\<lambda>file n.
          if \<not> w_open W file then (Throw (Exn Runtime_error ''failed to open file''), n)
          else let dump = json_dump (w_api W) (chain_to_json text_ops (w_api W) (x_blockchain n)) @ [CHR 0x0A]
            in case w_write W file of
                 None \<Rightarrow> (Ok (), n\<lparr>x_files := (x_files n)(file \<mapsto> dump)\<rparr>)
               | Some k \<Rightarrow> (Throw (Exn Runtime_error ''failed to write to file''),
                   n\<lparr>x_files := (x_files n)(file \<mapsto> take k dump)\<rparr>))))
       (\<lambda>_ n. (Ok (status_ok, json_null (w_api W)), n))"

definition text_peers_get :: "'j world \<Rightarrow> 'j text_node \<Rightarrow> ('j reply, 'j text_node) call" where
  "text_peers_get W n = (Ok (status_ok, peers_to_json (w_api W) (x_peers n)), n)"

definition text_peers_post :: "'j world \<Rightarrow> 'j \<Rightarrow> 'j text_node \<Rightarrow> ('j reply, 'j text_node) call" where
  "text_peers_post W data n =
     then_call (rethrow (HTTPError status_bad_request) (malformed ''POST /peers'' W data)
       (peer_address (w_api W) data, n)) (\<lambda>(host, port) n.
     then_call (text_add_peer W host port n) (\<lambda>peer_id n.
     (Ok (status_ok, json_null (w_api W)), text_detach (Request_latest_block peer_id) n)))"

section \<open>Model: WebSocket handlers\<close>

definition text_request_latest_block :: "'j world \<Rightarrow> 'j text_node \<Rightarrow> ('j, 'j text_node) call" where
  "text_request_latest_block W n =
     (if m_blocks (x_blockchain n) = [] then (Throw (Exn WebSocketError ''Blockchain is empty''), n)
      else (Ok (json_object (w_api W)
              [(''block'', block_to_json text_ops (w_api W) (last (m_blocks (x_blockchain n)))),
               (''origin'', text_origin_json (w_api W) n)]), n))"

definition text_request_all_blocks :: "'j world \<Rightarrow> 'j text_node \<Rightarrow> ('j, 'j text_node) call" where
  "text_request_all_blocks W n =
     (Ok (json_object (w_api W)
        [(''blockchain'', chain_to_json text_ops (w_api W) (x_blockchain n)),
         (''origin'', text_origin_json (w_api W) n)]), n)"

definition text_append ::
    "'j world \<Rightarrow> time_point \<Rightarrow> text_data block \<Rightarrow> 'j text_node \<Rightarrow> (unit, 'j text_node) call" where
  "text_append W now b n =
     (case append_next_block text_ops (w_env W) now b (x_blockchain n) of
        (r, c) \<Rightarrow> (r, n\<lparr>x_blockchain := c\<rparr>))"

definition text_ask_origin :: "'j world \<Rightarrow> 'j \<Rightarrow> 'j text_node \<Rightarrow> (unit, 'j text_node) call" where
  "text_ask_origin W data n =
     then_call (rethrow WebSocketError (\<lambda>e. ''Malformed '' @ apos ''receive_latest_block'' @ '' request: '' @
           apos (json_dump (w_api W) data) @ what e)
         (bind_outcome (json_at (w_api W) data ''origin'') (peer_address (w_api W)), n)) (\<lambda>(host, port) n.
     then_call (if peers_find host port (x_peers n) = 0 then text_add_peer W host port n
                else (Ok (peers_find host port (x_peers n)), n)) (\<lambda>peer_id n.
     (Ok (), text_detach (Request_all_blocks peer_id) n)))"

definition text_place_block ::
    "'j world \<Rightarrow> time_point \<Rightarrow> 'j \<Rightarrow> text_data block \<Rightarrow> 'j text_node \<Rightarrow> (unit, 'j text_node) call" where
  "text_place_block W now data b n =
     (if chain_length (x_blockchain n) < b_index b then text_ask_origin W data n
      else if b_index b = chain_length (x_blockchain n)
      then then_call
        (if m_blocks (x_blockchain n) = [] then Ok (is_genesis b)
         else is_successor_of (w_env W) b (last (m_blocks (x_blockchain n))), n) (\<lambda>next n.
           if next then text_append W now b n else (Ok (), n))
      else (Ok (), n))"

text \<open>Without transactions nothing follows the \<open>try\<close> block.\<close>

definition text_receive_latest_block ::
    "'j world \<Rightarrow> (nat \<Rightarrow> time_point) \<Rightarrow> 'j \<Rightarrow> 'j text_node \<Rightarrow> ('j, 'j text_node) call" where
  "text_receive_latest_block W clk data n =
     then_call (rethrow WebSocketError (malformed ''receive_latest_block'' W data)
       (then_call (bind_outcome (json_at (w_api W) data ''block'') (block_from_json text_ops (w_api W)), n) (\<lambda>b n.
        then_call (block_valid text_ops (w_env W) (clk 0) b, n) (\<lambda>(b_valid, b_error) n.
          if \<not> b_valid
          then (Throw (Exn WebSocketError (''Invalid block: '' @
                  apos (json_dump (w_api W) (block_to_json text_ops (w_api W) b)) @ '': '' @ b_error)), n)
          else text_place_block W (clk 1) data b n))))
       (\<lambda>_ n. (Ok (json_null (w_api W)), n))"

definition text_receive_chain ::
    "'j world \<Rightarrow> (nat \<Rightarrow> time_point) \<Rightarrow> (nat \<Rightarrow> time_point) \<Rightarrow> 'j \<Rightarrow> text_data blockchain outcome" where
  "text_receive_chain W clk clk' data =
     bind_outcome (bind_outcome (json_at (w_api W) data ''blockchain'')
         (chain_from_json text_ops (w_env W) clk)) (\<lambda>bc.
     bind_outcome (chain_valid text_ops (w_env W) clk' bc) (\<lambda>(bc_valid, bc_error).
       if \<not> bc_valid
       then Throw (Exn WebSocketError (''Invalid blockchain: '' @
              apos (json_dump (w_api W) (chain_to_json text_ops (w_api W) bc)) @ '': '' @ bc_error))
       else Ok bc))"

text \<open>Without transactions \<open>blockchain_setup\<close> is empty.\<close>

definition text_receive_all_blocks ::
    "'j world \<Rightarrow> (nat \<Rightarrow> time_point) \<Rightarrow> (nat \<Rightarrow> time_point) \<Rightarrow> 'j \<Rightarrow> 'j text_node \<Rightarrow> ('j, 'j text_node) call" where
  "text_receive_all_blocks W clk clk' data n =
     then_call (rethrow WebSocketError (malformed ''receive_all_blocks'' W data)
       (text_receive_chain W clk clk' data, n)) (\<lambda>bc n.
     then_call (chain_greater (w_env W) bc (x_blockchain n), n) (\<lambda>greater n.
       (Ok (json_null (w_api W)), if greater then n\<lparr>x_blockchain := bc\<rparr> else n)))"

section \<open>Model: detached threads\<close>

definition text_broadcast_latest_block :: "'j world \<Rightarrow> 'j text_node \<Rightarrow> (unit, 'j text_node) call" where
  "text_broadcast_latest_block W n =
     then_call (latest_block (x_blockchain n), n) (\<lambda>b n.
       (Ok (), n\<lparr>x_sent := x_sent n @ map (\<lambda>peer_id. (peer_id, json_object (w_api W)
          [(''target'', json_of_string (w_api W) ''/receive-latest-block''),
           (''data'', json_object (w_api W)
              [(''block'', block_to_json text_ops (w_api W) b),
               (''origin'', text_origin_json (w_api W) n)])])) [1..<Suc (length (x_peers n))]\<rparr>))"

definition text_send_request :: "'j world \<Rightarrow> string \<Rightarrow> nat \<Rightarrow> 'j text_node \<Rightarrow> 'j text_node" where
  "text_send_request W target peer_id n = n\<lparr>x_sent := x_sent n @ [(peer_id, json_object (w_api W)
     [(''target'', json_of_string (w_api W) target)])]\<rparr>"

fun text_run_thread :: "'j world \<Rightarrow> thread \<Rightarrow> 'j text_node \<Rightarrow> (unit, 'j text_node) call" where
  "text_run_thread W Broadcast_latest_block n = text_broadcast_latest_block W n"
| "text_run_thread W (Request_latest_block peer_id) n =
     (Ok (), text_send_request W ''/request-latest-block'' peer_id n)"
| "text_run_thread W (Request_all_blocks peer_id) n =
     (Ok (), text_send_request W ''/request-all-blocks'' peer_id n)"

definition text_latest_block_answer ::
    "'j world \<Rightarrow> (nat \<Rightarrow> time_point) \<Rightarrow> bool \<Rightarrow> string \<Rightarrow> 'j text_node \<Rightarrow> (unit, 'j text_node) call" where
  "text_latest_block_answer W clk success answer n =
     (if success
      then swallow (then_call (w_parse W answer, n) (text_receive_latest_block W clk))
      else (Ok (), n))"

definition text_all_blocks_answer ::
    "'j world \<Rightarrow> (nat \<Rightarrow> time_point) \<Rightarrow> (nat \<Rightarrow> time_point) \<Rightarrow> bool \<Rightarrow> string \<Rightarrow> 'j text_node \<Rightarrow>
     (unit, 'j text_node) call" where
  "text_all_blocks_answer W clk clk' success answer n =
     (if success
      then swallow (then_call (w_parse W answer, n) (text_receive_all_blocks W clk clk'))
      else (Ok (), n))"

text \<open>The events of \<open>Node\<close>, without those for transactions, which this build does not have.\<close>

fun text_step :: "'j world \<Rightarrow> 'j event \<Rightarrow> 'j text_node \<Rightarrow> 'j text_node outcome" where
  "text_step W (Blocks_post clk data) n =
     (case text_blocks_post W clk data n of None \<Rightarrow> Undef | Some r \<Rightarrow> settle r)"
| "text_step W (Blocks_persist_post data) n = settle (text_blocks_persist_post W data n)"
| "text_step W (Peers_post data) n = settle (text_peers_post W data n)"
| "text_step W (Receive_latest_block clk data) n = settle (text_receive_latest_block W clk data n)"
| "text_step W (Receive_all_blocks clk clk' data) n = settle (text_receive_all_blocks W clk clk' data n)"
| "text_step W (Run_thread t) n = settle (text_run_thread W t n)"
| "text_step W (Latest_block_answer clk success answer) n =
     settle (text_latest_block_answer W clk success answer n)"
| "text_step W (All_blocks_answer clk clk' success answer) n =
     settle (text_all_blocks_answer W clk clk' success answer n)"
| "text_step W (Transactions_post data) n = Ok n"
| "text_step W (Receive_transaction data) n = Ok n"

section \<open>Model: registration of the handlers\<close>

definition text_http_setup :: "'j world \<Rightarrow> (nat \<Rightarrow> time_point) \<Rightarrow> ('j, 'j text_node) http_handlers" where
  "text_http_setup W clk =
     http_support ''/peers'' Post (\<lambda>data n. Some (text_peers_post W data n))
     (http_support ''/peers'' Get (\<lambda>_ n. Some (text_peers_get W n))
     (http_support ''/blocks/persist'' Post (\<lambda>data n. Some (text_blocks_persist_post W data n))
     (http_support ''/blocks'' Post (\<lambda>data n. text_blocks_post W clk data n)
     (http_support ''/blocks/latest'' Get (\<lambda>_ n. Some (text_blocks_latest_get W n))
     (http_support ''/blocks'' Get (\<lambda>_ n. Some (text_blocks_get W n)) Map.empty)))))"

definition text_websocket_setup ::
    "'j world \<Rightarrow> (nat \<Rightarrow> time_point) \<Rightarrow> (nat \<Rightarrow> time_point) \<Rightarrow> (string \<rightharpoonup> ('j, 'j text_node) ws_handler)" where
  "text_websocket_setup W clk clk' =
     ws_support ''/receive-all-blocks'' (text_receive_all_blocks W clk clk')
     (ws_support ''/receive-latest-block'' (text_receive_latest_block W clk)
     (ws_support ''/request-all-blocks'' (\<lambda>_. text_request_all_blocks W)
     (ws_support ''/request-latest-block'' (\<lambda>_. text_request_latest_block W) Map.empty)))"

text \<open>Every request that a server dispatches leaves the node alone or is one of its events.\<close>

lemma text_http_is_event:
  assumes "http_handle W (text_http_setup W clk) target method data n = Some r" and "settle r = Ok n'"
  shows "n' = n \<or> (\<exists>ev. text_step W ev n = Ok n')"
proof -
  have "r = (Ok (status_not_found, json_null (w_api W)), n) \<or> r = (Ok (status_bad_request, json_null (w_api W)), n) \<or>
      Some r = text_blocks_post W clk data n \<or> r = text_blocks_persist_post W data n \<or>
      r = text_peers_post W data n \<or> r = text_blocks_get W n \<or> r = text_blocks_latest_get W n \<or> r = text_peers_get W n"
    using assms(1) by (auto simp: http_handle_def text_http_setup_def http_support_def split: if_splits)
  then show ?thesis
  proof (elim disjE)
    assume "Some r = text_blocks_post W clk data n"
    with assms(2) have "text_step W (Blocks_post clk data) n = Ok n'" by (simp flip: \<open>Some r = _\<close>)
    then show ?thesis by blast
  next
    assume "r = text_blocks_persist_post W data n"
    with assms(2) have "text_step W (Blocks_persist_post data) n = Ok n'" by simp
    then show ?thesis by blast
  next
    assume "r = text_peers_post W data n"
    with assms(2) have "text_step W (Peers_post data) n = Ok n'" by simp
    then show ?thesis by blast
  qed (use assms(2) in \<open>auto simp: text_blocks_get_def text_blocks_latest_get_def text_peers_get_def split: if_splits\<close>)
qed

lemma text_ws_is_event:
  assumes "text_websocket_setup W clk clk' target = Some handler" and "settle (handler data n) = Ok n'"
  shows "n' = n \<or> (\<exists>ev. text_step W ev n = Ok n')"
proof -
  have "handler data n \<in> {text_request_latest_block W n, text_request_all_blocks W n,
      text_receive_latest_block W clk data n, text_receive_all_blocks W clk clk' data n}"
    using assms(1) by (auto simp: text_websocket_setup_def ws_support_def split: if_splits)
  then consider "handler data n = text_request_latest_block W n" | "handler data n = text_request_all_blocks W n"
    | "handler data n = text_receive_latest_block W clk data n" | "handler data n = text_receive_all_blocks W clk clk' data n"
    by blast
  then show ?thesis
  proof cases
    case 3
    with assms(2) have "text_step W (Receive_latest_block clk data) n = Ok n'" by simp
    then show ?thesis by blast
  next
    case 4
    with assms(2) have "text_step W (Receive_all_blocks clk clk' data) n = Ok n'" by simp
    then show ?thesis by blast
  qed (use assms(2) in \<open>auto simp: text_request_latest_block_def text_request_all_blocks_def split: if_splits\<close>)
qed

section \<open>Invariant\<close>

lemma after_pure:
  assumes "P n" and "\<And>x. r = Ok x \<Longrightarrow> after P (f x n)"
  shows "after P (then_call (r, n) f)"
  using assms by (cases r) auto

text \<open>A property that only looks at the chain is kept by the changes of other members.\<close>

definition on_chain :: "('j text_node \<Rightarrow> bool) \<Rightarrow> bool" where
  "on_chain P \<longleftrightarrow> (\<forall>n n'. x_blockchain n' = x_blockchain n \<longrightarrow> P n \<longrightarrow> P n')"

lemma on_chain_irrelevant:
  assumes "on_chain P" and "P n"
  shows "P (n\<lparr>x_peers := ps\<rparr>)" "P (n\<lparr>x_sent := ms\<rparr>)" "P (n\<lparr>x_files := fs\<rparr>)" "P (text_detach t n)"
    "P (text_send_request W target i n)" "after P (text_add_peer W host port n)"
  using assms
  by (auto simp: on_chain_def text_detach_def text_send_request_def text_add_peer_def split: prod.split)

lemma text_ask_origin_after: "on_chain P \<Longrightarrow> P n \<Longrightarrow> after P (text_ask_origin W data n)"
  by (auto simp: text_ask_origin_def intro!: after_then on_chain_irrelevant(6) elim: on_chain_irrelevant(4))

text \<open>The block and the chain that a message brings, in a request or in the answer to one.\<close>

definition text_message_block :: "'j world \<Rightarrow> 'j \<Rightarrow> text_data block outcome" where
  "text_message_block W data =
     bind_outcome (json_at (w_api W) data ''block'') (block_from_json text_ops (w_api W))"

fun offered_block :: "'j world \<Rightarrow> 'j event \<Rightarrow> text_data block outcome" where
  "offered_block W (Receive_latest_block clk data) = text_message_block W data"
| "offered_block W (Latest_block_answer clk success answer) =
     (if success then bind_outcome (w_parse W answer) (text_message_block W) else Undef)"
| "offered_block W _ = Undef"

fun offered_chain :: "'j world \<Rightarrow> 'j event \<Rightarrow> text_data blockchain outcome" where
  "offered_chain W (Receive_all_blocks clk clk' data) = text_receive_chain W clk clk' data"
| "offered_chain W (All_blocks_answer clk clk' success answer) =
     (if success then bind_outcome (w_parse W answer) (text_receive_chain W clk clk') else Undef)"
| "offered_chain W _ = Undef"

lemma text_append_after:
  assumes "\<And>r c. append_next_block text_ops (w_env W) now b (x_blockchain n) = (r, c) \<Longrightarrow>
    r \<noteq> Undef \<Longrightarrow> P (n\<lparr>x_blockchain := c\<rparr>)"
  shows "after P (text_append W now b n)"
  using assms by (auto simp: text_append_def split: prod.split)

lemma text_receive_latest_after:
  assumes "on_chain P" and "P n"
    and "\<And>now b r c. text_message_block W data = Ok b \<Longrightarrow>
      append_next_block text_ops (w_env W) now b (x_blockchain n) = (r, c) \<Longrightarrow> r \<noteq> Undef \<Longrightarrow> P (n\<lparr>x_blockchain := c\<rparr>)"
  shows "after P (text_receive_latest_block W clk data n)"
proof -
  have "after P (text_place_block W (clk 1) data b n)" if "text_message_block W data = Ok b" for b
    using assms(1,2) assms(3) [OF that]
    by (auto simp: text_place_block_def intro!: after_pure text_append_after text_ask_origin_after)
  then have "after P (then_call (text_message_block W data, n) (\<lambda>b n.
        then_call (block_valid text_ops (w_env W) (clk 0) b, n) (\<lambda>(b_valid, b_error) n.
          if \<not> b_valid
          then (Throw (Exn WebSocketError (''Invalid block: '' @
                  apos (json_dump (w_api W) (block_to_json text_ops (w_api W) b)) @ '': '' @ b_error)), n)
          else text_place_block W (clk 1) data b n)))"
    using assms(2) by (intro after_pure) (auto intro!: after_pure)
  then show ?thesis
    unfolding text_receive_latest_block_def text_message_block_def by (auto intro!: after_then)
qed

lemma text_receive_all_after:
  assumes "P n" and "\<And>bc. text_receive_chain W clk clk' data = Ok bc \<Longrightarrow>
    chain_greater (w_env W) bc (x_blockchain n) = Ok True \<Longrightarrow> P (n\<lparr>x_blockchain := bc\<rparr>)"
  shows "after P (text_receive_all_blocks W clk clk' data n)"
proof (cases "text_receive_chain W clk clk' data")
  case (Ok bc)
  with assms show ?thesis
    by (cases "chain_greater (w_env W) bc (x_blockchain n)") (auto simp: text_receive_all_blocks_def)
qed (use assms in \<open>simp_all add: text_receive_all_blocks_def\<close>)

text \<open>
  The chain changes in three places only: a block is constructed from a posted text, a block that the
  event brings is appended, and a chain that it brings and that compares greater takes its place.
\<close>

lemma text_step_cases:
  assumes "text_step W ev n = Ok n'" and "on_chain P" and "P n"
    and construct: "\<And>clk data d r c. ev = Blocks_post clk data \<Longrightarrow> text_from_json (w_api W) data = Ok d \<Longrightarrow>
      construct_next_block text_ops (w_env W) clk d (x_blockchain n) = Some (r, c) \<Longrightarrow>
      r \<noteq> Undef \<Longrightarrow> P (n\<lparr>x_blockchain := c\<rparr>)"
    and append: "\<And>now b r c. offered_block W ev = Ok b \<Longrightarrow>
      append_next_block text_ops (w_env W) now b (x_blockchain n) = (r, c) \<Longrightarrow>
      r \<noteq> Undef \<Longrightarrow> P (n\<lparr>x_blockchain := c\<rparr>)"
    and replace: "\<And>bc. offered_chain W ev = Ok bc \<Longrightarrow>
      chain_greater (w_env W) bc (x_blockchain n) = Ok True \<Longrightarrow> P (n\<lparr>x_blockchain := bc\<rparr>)"
  shows "P n'"
proof -
  note keep = on_chain_irrelevant [OF assms(2)]
  have post: "after P r" if "text_blocks_post W clk data n = Some r" and "ev = Blocks_post clk data" for clk data r
  proof (cases "text_from_json (w_api W) data")
    case (Ok d)
    from construct [OF that(2) Ok] that(1) show ?thesis
      by (auto simp: text_blocks_post_def Ok intro!: after_then keep(4)) blast
  qed (use that(1) assms(3) in \<open>auto simp: text_blocks_post_def intro!: after_then keep(4)\<close>)
  have other: "after P (text_blocks_persist_post W data n)" "after P (text_peers_post W data n)"
    "after P (text_run_thread W t n)" for data t
    subgoal using assms(3) by (auto simp: text_blocks_persist_post_def Let_def intro!: after_then after_pure keep split: option.split)
    subgoal using assms(3) by (auto simp: text_peers_post_def intro!: after_then keep)
    subgoal using assms(3) by (cases t) (auto simp: text_broadcast_latest_block_def intro!: after_pure keep)
    done
  show ?thesis
  proof (cases ev)
    case (Receive_latest_block clk data)
    with append have "after P (text_receive_latest_block W clk data n)"
      by (intro text_receive_latest_after assms(2,3)) simp
    then show ?thesis using assms(1) Receive_latest_block by (auto elim: after_settle)
  next
    case (Receive_all_blocks clk clk' data)
    with replace have "after P (text_receive_all_blocks W clk clk' data n)"
      by (intro text_receive_all_after assms(3)) simp
    then show ?thesis using assms(1) Receive_all_blocks by (auto elim: after_settle)
  next
    case (Latest_block_answer clk success answer)
    with append assms(2,3) have "after P (text_latest_block_answer W clk success answer n)"
      by (auto simp: text_latest_block_answer_def intro!: after_pure text_receive_latest_after)
    then show ?thesis using assms(1) Latest_block_answer by (auto elim: after_settle)
  next
    case (All_blocks_answer clk clk' success answer)
    with replace assms(3) have "after P (text_all_blocks_answer W clk clk' success answer n)"
      by (auto simp: text_all_blocks_answer_def intro!: after_pure text_receive_all_after)
    then show ?thesis using assms(1) All_blocks_answer by (auto elim: after_settle)
  qed (use assms(1,3) in \<open>auto split: option.splits intro: after_settle post other\<close>)
qed

definition text_inv :: "'j world \<Rightarrow> 'j text_node \<Rightarrow> bool" where
  "text_inv W n \<longleftrightarrow> chain_reachable text_ops (w_env W) (x_blockchain n)"

lemma text_receive_chain_reachable:
  "text_receive_chain W clk clk' data = Ok bc \<Longrightarrow> chain_reachable text_ops (w_env W) bc"
  by (auto simp: text_receive_chain_def outcome_simps split: if_splits intro: chain_from_json_reachable)

lemma offered_chain_reachable:
  "offered_chain W ev = Ok bc \<Longrightarrow> chain_reachable text_ops (w_env W) bc"
  by (cases ev) (auto simp: outcome_simps intro: text_receive_chain_reachable split: if_splits)

lemma text_step_inv: "text_inv W n \<Longrightarrow> text_step W ev n = Ok n' \<Longrightarrow> text_inv W n'"
  by (rule text_step_cases [of W ev n n' "text_inv W"])
    (auto simp: text_inv_def on_chain_def intro: chain_reachable.intros offered_chain_reachable)

interpretation text_node: invariant_machine "text_inv W" "text_step W" for W :: "'j world"
  by unfold_locales (rule text_step_inv)

section \<open>The node as a log\<close>

text \<open>
  What a client sees of a node: the list of texts. An event brings a text, a list of texts or nothing. The
  node adds the text at the end or ignores it, and takes the list or ignores it; without proof of
  work it takes a longer list only.
\<close>

datatype log_choice = Ignore | Add | Take

fun offered_text :: "'j world \<Rightarrow> 'j event \<Rightarrow> text_data outcome" where
  "offered_text W (Blocks_post clk data) = text_from_json (w_api W) data"
| "offered_text W ev = map_outcome_val b_data (offered_block W ev)"

definition offered_log :: "'j world \<Rightarrow> 'j event \<Rightarrow> text_data list outcome" where
  "offered_log W ev = map_outcome_val (\<lambda>bc. map b_data (m_blocks bc)) (offered_chain W ev)"

fun log_step :: "'j world \<Rightarrow> 'j event \<Rightarrow> log_choice \<Rightarrow> text_data list \<Rightarrow> text_data list outcome" where
  "log_step W ev Ignore l = Ok l"
| "log_step W ev Add l = map_outcome_val (\<lambda>x. l @ [x]) (offered_text W ev)"
| "log_step W ev Take l =
     bind_outcome (offered_log W ev) (\<lambda>l'. if proof_of_work (w_env W) \<or> length l < length l' then Ok l' else Undef)"

definition text_log :: "'j text_node \<Rightarrow> text_data list" where
  "text_log n = map b_data (m_blocks (x_blockchain n))"

lemma offered_block_text: "offered_block W ev = Ok b \<Longrightarrow> offered_text W ev = Ok (b_data b)"
  by (cases ev) simp_all

lemma text_step_log:
  assumes "text_step W ev n = Ok n'"
  shows "\<exists>choice. log_step W ev choice (text_log n) = Ok (text_log n')"
proof (rule text_step_cases [OF assms])
  fix clk data d r c
  assume offered: "ev = Blocks_post clk data" "text_from_json (w_api W) data = Ok d"
    and c: "construct_next_block text_ops (w_env W) clk d (x_blockchain n) = Some (r, c)"
  show "\<exists>choice. log_step W ev choice (text_log n) = Ok (text_log (n\<lparr>x_blockchain := c\<rparr>))"
  proof (cases "r = Ok ()")
    case True
    with c obtain b where "m_blocks c = m_blocks (x_blockchain n) @ [b]" "b_data b = d"
      by (auto elim: construct_next_block_Ok)
    with offered show ?thesis by (intro exI [of _ Add]) (simp add: text_log_def)
  next
    case False
    then show ?thesis
      using construct_next_block_other [OF c] by (intro exI [of _ Ignore]) (simp add: text_log_def)
  qed
next
  fix now b r c
  assume b: "offered_block W ev = Ok b"
    and "append_next_block text_ops (w_env W) now b (x_blockchain n) = (r, c)" "r \<noteq> Undef"
  then have "m_blocks c = m_blocks (x_blockchain n) \<or> m_blocks c = m_blocks (x_blockchain n) @ [b]"
    using append_next_block_blocks [of text_ops "w_env W" now b "x_blockchain n" r c] by auto
  then show "\<exists>choice. log_step W ev choice (text_log n) = Ok (text_log (n\<lparr>x_blockchain := c\<rparr>))"
  proof
    assume "m_blocks c = m_blocks (x_blockchain n)"
    then show ?thesis by (intro exI [of _ Ignore]) (simp add: text_log_def)
  next
    assume "m_blocks c = m_blocks (x_blockchain n) @ [b]"
    then show ?thesis by (intro exI [of _ Add]) (simp add: text_log_def offered_block_text [OF b])
  qed
next
  fix bc
  assume "offered_chain W ev = Ok bc" "chain_greater (w_env W) bc (x_blockchain n) = Ok True"
  moreover from this(2) have "\<not> proof_of_work (w_env W) \<Longrightarrow> length (m_blocks (x_blockchain n)) < length (m_blocks bc)"
    by (simp add: chain_greater_def)
  ultimately show "\<exists>choice. log_step W ev choice (text_log n) = Ok (text_log (n\<lparr>x_blockchain := bc\<rparr>))"
    by (intro exI [of _ Take]) (auto simp: text_log_def offered_log_def)
qed (auto simp: on_chain_def text_log_def intro: exI [of _ Ignore])

interpretation text_log: event_refinement text_log "text_step W" "log_step W" for W :: "'j world"
  by unfold_locales (rule text_step_log)

section \<open>Nodes that talk to each other\<close>

text \<open>Blocks that were appended were not ahead of the clock.\<close>

lemma append_blocks_times:
  "append_blocks D E clk i bs c = Ok c' \<Longrightarrow> k < length bs \<Longrightarrow> not_ahead E (b_timestamp (bs ! k)) (clk (i + k))"
proof (induction bs arbitrary: i c k)
  case (Cons b bs)
  then obtain c1 where "append_next_block D E (clk i) b c = (Ok (), c1)" "append_blocks D E clk (Suc i) bs c1 = Ok c'"
    by (auto simp: append_blocks_Cons_iff simp del: append_blocks.simps)
  with Cons.IH [of "Suc i" c1 "k - 1"] Cons.prems(2) show ?case
    by (cases k) (auto simp: append_next_block_Ok_iff)
qed simp

text \<open>What a successful request to add a text has done.\<close>

lemma text_blocks_post_Ok:
  assumes "\<not> proof_of_work (w_env W)" and "text_blocks_post W clk data n = Some (Ok r, n')"
  obtains d b where "text_from_json (w_api W) data = Ok d"
    "b = next_block text_ops (w_env W) (clk 0) d (x_blockchain n)"
    "block_valid text_ops (w_env W) (clk 1) b = Ok (True, [])"
    "n' = text_detach Broadcast_latest_block
       (n\<lparr>x_blockchain := (x_blockchain n)\<lparr>m_blocks := m_blocks (x_blockchain n) @ [b]\<rparr>\<rparr>)"
proof -
  have rethrow_Ok: "rethrow k msg m = (Ok x, s) \<longleftrightarrow> m = (Ok x, s)" for k msg and m :: "(unit, 'a text_node) call" and x s
    by (induction k msg m rule: rethrow.induct) auto
  from assms(2) obtain d where d: "text_from_json (w_api W) data = Ok d"
    by (cases "text_from_json (w_api W) data") (auto simp: text_blocks_post_def)
  with assms(2) obtain c where con: "construct_next_block text_ops (w_env W) clk d (x_blockchain n) = Some (Ok (), c)"
    and n': "n' = text_detach Broadcast_latest_block (n\<lparr>x_blockchain := c\<rparr>)"
    by (auto simp: text_blocks_post_def outcome_simps rethrow_Ok)
  from con obtain b where b: "m_blocks c = m_blocks (x_blockchain n) @ [b]"
      "b = next_block text_ops (w_env W) (clk 0) d (x_blockchain n)"
      "m_difficulty_adjuster c = m_difficulty_adjuster (x_blockchain n)"
    using assms(1) by (auto elim: construct_next_block_Ok)
  then have "c = (x_blockchain n)\<lparr>m_blocks := m_blocks (x_blockchain n) @ [b]\<rparr>"
    by (cases c; cases "x_blockchain n") simp
  with d b n' construct_next_block_valid [OF con] show thesis by (intro that [of d b]) auto
qed

lemma text_receive_next_block:
  assumes "\<not> proof_of_work (w_env W)"
    and parsed: "bind_outcome (json_at (w_api W) data ''block'') (block_from_json text_ops (w_api W)) = Ok b"
    and valid: "block_valid text_ops (w_env W) (clk 0) b = Ok (True, [])"
    and link: "linked text_ops (w_env W) (last_block (m_blocks (x_blockchain n))) b"
    and index: "b_index b = chain_length (x_blockchain n)"
    and time: "not_ahead (w_env W) (b_timestamp b) (clk 1)"
    and prev: "m_blocks (x_blockchain n) = [] \<or>
      not_ahead (w_env W) (b_timestamp (last (m_blocks (x_blockchain n)))) (b_timestamp b)"
  shows "text_receive_latest_block W clk data n = (Ok (json_null (w_api W)),
    n\<lparr>x_blockchain := (x_blockchain n)\<lparr>m_blocks := m_blocks (x_blockchain n) @ [b]\<rparr>\<rparr>)"
proof -
  have "append_next_block text_ops (w_env W) (clk 1) b (x_blockchain n) =
      (Ok (), (x_blockchain n)\<lparr>m_blocks := m_blocks (x_blockchain n) @ [b]\<rparr>)"
    using assms(1) link time by (simp add: append_next_block_Ok_iff)
  moreover have "m_blocks (x_blockchain n) = [] \<Longrightarrow> is_genesis b"
    "m_blocks (x_blockchain n) \<noteq> [] \<Longrightarrow> is_successor_of (w_env W) b (last (m_blocks (x_blockchain n))) = Ok True"
    using link prev by (auto simp: is_genesis_def is_successor_of_iff linked_def last_block_def)
  ultimately show ?thesis
    using parsed valid index by (simp add: text_receive_latest_block_def text_place_block_def text_append_def)
qed

section \<open>Properties\<close>

text \<open>
  C8. A node of the build without transactions refines a log of texts: whatever events it handles,
  each of them either leaves the log as it is, adds the text that this event brings at the end of the
  log, or replaces the log by the one that this event brings, without proof of work only when it
  is longer.
\<close>

theorem text_node_refines_log:
  assumes "fold_outcome (\<lambda>n ev. text_step W ev n) n evs = Ok n'"
  shows "\<exists>choices. length choices = length evs \<and>
    fold_outcome (\<lambda>l (ev, choice). log_step W ev choice l) (text_log n) (zip evs choices) = Ok (text_log n')"
  by (rule text_log.run_explained [OF assms])

text \<open>
  In the build without transactions and proof of work, a text posted at one node reaches every
  other: a node with the same chain that receives the content of the message the first node
  broadcasts has the same chain as the first node afterwards, if its clock is not behind.
\<close>

lemma posted_text_reaches_peers:
  assumes "json_library (w_api W)" and "\<not> proof_of_work (w_env W)" and "text_inv W a"
    and "x_blockchain b = x_blockchain a"
    and "text_blocks_post W clk data a = Some (Ok r, a1)"
    and "text_broadcast_latest_block W a1 = (Ok (), a2)"
    and "(peer_id, request) \<in> set (drop (length (x_sent a1)) (x_sent a2))"
    and "json_at (w_api W) request ''data'' = Ok message"
    and "sint (clk 1) \<le> sint (clk' 0)" and "sint (clk 1) \<le> sint (clk' 1)"
    and "m_blocks (x_blockchain a) = [] \<or>
      not_ahead (w_env W) (b_timestamp (last (m_blocks (x_blockchain a)))) (clk 0)"
  shows "\<exists>b'. text_receive_latest_block W clk' message b = (Ok (json_null (w_api W)), b') \<and>
    x_blockchain b' = x_blockchain a2"
proof -
  let ?E = "w_env W" and ?c = "x_blockchain a"
  from assms(5) obtain d blk where blk: "blk = next_block text_ops ?E (clk 0) d ?c"
    and valid: "block_valid text_ops ?E (clk 1) blk = Ok (True, [])"
    and a1: "a1 = text_detach Broadcast_latest_block (a\<lparr>x_blockchain := ?c\<lparr>m_blocks := m_blocks ?c @ [blk]\<rparr>\<rparr>)"
    by (rule text_blocks_post_Ok [OF assms(2)])
  have chain: "x_blockchain a1 = ?c\<lparr>m_blocks := m_blocks ?c @ [blk]\<rparr>" by (simp add: a1 text_detach_def)
  then have "message = json_object (w_api W) [(''block'', block_to_json text_ops (w_api W) blk),
      (''origin'', text_origin_json (w_api W) a1)]" and a2: "x_blockchain a2 = x_blockchain a1"
    using assms(6-8) json_library.at_object_lookup [OF assms(1)]
    by (auto simp: text_broadcast_latest_block_def latest_block_def)
  then have parsed: "bind_outcome (json_at (w_api W) message ''block'') (block_from_json text_ops (w_api W)) = Ok blk"
    using json_library.at_object_lookup [OF assms(1)] json_library.text_block_roundtrip [OF assms(1)] by simp
  have index: "b_index blk = chain_length ?c"
    using next_block_index assms(3) by (auto simp: blk text_inv_def)
  have link: "linked text_ops ?E (last_block (m_blocks ?c)) blk"
    using index valid by (simp add: linked_def block_valid_iff blk)
  have "not_ahead ?E (clk 0) (clk 1)" using valid by (simp add: block_valid_iff blk)
  then have time: "not_ahead ?E (b_timestamp blk) (clk' 0)" "not_ahead ?E (b_timestamp blk) (clk' 1)"
    using assms(9,10) by (auto simp: blk intro: not_ahead_mono)
  have valid': "block_valid text_ops ?E (clk' 0) blk = Ok (True, [])"
    using valid time(1) by (simp add: block_valid_iff)
  from text_receive_next_block [OF assms(2) parsed, of clk' b] valid' link index time(2) assms(4,11) chain a2
  show ?thesis by (auto simp: blk)
qed

text \<open>
  In the build without transactions a node that has fallen behind catches up with every chain of
  received blocks, with proof of work as well as without: when the chain that another node sends
  compares greater and its timestamps pass the checks at a clock that is not behind, the receiver has
  exactly that chain afterwards, difficulty adjuster included.
\<close>

lemma text_node_catches_up:
  assumes "json_library (w_api W)"
    and "append_blocks text_ops (w_env W) clk0 0 bs (blockchain_init (cfg (w_env W))) = Ok (x_blockchain a)"
    and "bs \<noteq> []" and "\<And>k. sint (clk0 k) \<le> sint (clk k)" and "\<And>k. sint (clk0 k) \<le> sint (clk' k)"
    and "\<And>k. Suc k < length bs \<Longrightarrow> not_ahead (w_env W) (b_timestamp (bs ! k)) (b_timestamp (bs ! Suc k))"
    and "chain_greater (w_env W) (x_blockchain a) (x_blockchain b) = Ok True"
    and "text_request_all_blocks W a = (Ok message, a)"
  shows "text_receive_all_blocks W clk clk' message b =
    (Ok (json_null (w_api W)), b\<lparr>x_blockchain := x_blockchain a\<rparr>)"
proof -
  let ?E = "w_env W" and ?c = "x_blockchain a"
  have blocks: "m_blocks ?c = bs" using append_blocks_result [OF assms(2)] by simp
  have reach: "chain_reachable text_ops ?E ?c"
    using append_blocks_reachable [OF chain_reachable.start assms(2)] .
  have times: "not_ahead ?E (b_timestamp (bs ! k)) (clk0 k)" if "k < length bs" for k
    using append_blocks_times [OF assms(2) that] by simp
  have "chain_from_json text_ops ?E clk (chain_to_json text_ops (w_api W) ?c) = Ok ?c"
    using json_library.reload_text_chain [OF assms(1) refl assms(2,4)] by simp
  moreover have "json_at (w_api W) message ''blockchain'' = Ok (chain_to_json text_ops (w_api W) ?c)"
    using assms(8) json_library.at_object_lookup [OF assms(1)] by (auto simp: text_request_all_blocks_def)
  moreover have "chain_valid text_ops ?E clk' ?c = Ok (True, [])"
    using chain_reachable_well_formed [OF reach] blocks assms(3,5,6) times
    by (auto simp: chain_valid_well_formed intro: not_ahead_mono)
  ultimately have "text_receive_chain W clk clk' message = Ok ?c" by (simp add: text_receive_chain_def)
  with assms(7) show ?thesis by (simp add: text_receive_all_blocks_def)
qed

section \<open>Witnesses\<close>

definition example_text_node :: "jval text_node" where
  "example_text_node = \<lparr>x_blockchain = blockchain_init from_defaults, x_peers = [(''10.0.0.1'', 8333)],
     x_host = ''10.0.0.2'', x_port = 8333, x_threads = [], x_sent = [], x_files = Map.empty\<rparr>"

definition example_hello :: "text_data block" where
  "example_hello = block_first text_ops (example_env False) 1000 ''hello''"

definition hello_node :: "jval text_node" where
  "hello_node = text_detach Broadcast_latest_block
     (example_text_node\<lparr>x_blockchain := (blockchain_init from_defaults)\<lparr>m_blocks := [example_hello]\<rparr>\<rparr>)"

lemma example_hello_linked:
  "linked text_ops (example_env False) None example_hello" "b_timestamp example_hello = 1000"
  by (simp_all add: example_hello_def linked_def block_first_def block_determine_hash_def block_hash_input_def
      text_ops_def text_valid_def Let_def)

lemma example_hello_posted:
  "text_blocks_post example_world (\<lambda>_. 1000) (JString ''hello'') example_text_node =
     Some (Ok (status_ok, JNull), hello_node)"
proof -
  have "block_valid text_ops (example_env False) 1000 example_hello = Ok (True, [])"
    using example_hello_linked example_not_ahead [of False] by (auto simp: block_valid_iff linked_def)
  then have "construct_next_block text_ops (example_env False) (\<lambda>_. 1000) ''hello'' (blockchain_init from_defaults) =
      Some (Ok (), (blockchain_init from_defaults)\<lparr>m_blocks := [example_hello]\<rparr>)"
    by (simp add: construct_next_block_def flip: example_hello_def)
  then show ?thesis
    by (simp add: text_blocks_post_def text_from_json_def example_text_node_def hello_node_def jval_api_def)
qed

lemma example_text_inv: "text_inv example_world example_text_node"
  using chain_reachable.start [of text_ops "example_env False"] by (simp add: text_inv_def example_text_node_def)

theorem text_node_refines_log_witness:
  "text_step example_world (Blocks_post (\<lambda>_. 1000) (JString ''hello'')) example_text_node = Ok hello_node \<and>
   (\<exists>choice. log_step example_world (Blocks_post (\<lambda>_. 1000) (JString ''hello'')) choice [] = Ok [''hello''])"
proof -
  have run: "fold_outcome (\<lambda>n ev. text_step example_world ev n) example_text_node
      [Blocks_post (\<lambda>_. 1000) (JString ''hello'')] = Ok hello_node"
    by (simp add: example_hello_posted)
  have logs: "text_log example_text_node = []" "text_log hello_node = [''hello'']"
    by (simp_all add: text_log_def example_text_node_def hello_node_def text_detach_def example_hello_def
        block_first_def Let_def)
  obtain choices where "length choices = 1"
    "fold_outcome (\<lambda>l (ev, choice). log_step example_world ev choice l) []
       (zip [Blocks_post (\<lambda>_. 1000) (JString ''hello'')] choices) = Ok [''hello'']"
    using text_node_refines_log [OF run] by (auto simp: logs)
  then have "\<exists>choice. log_step example_world (Blocks_post (\<lambda>_. 1000) (JString ''hello'')) choice [] = Ok [''hello'']"
    by (cases choices) (auto simp: outcome_simps)
  with run show ?thesis by simp
qed

end
