(* ===== verification/Json_Text.thy ===== *)
theory Json_Text
  imports Web
begin

text \<open>
  What travels between nodes is the text of JSON values. The locale \<open>json_wire\<close> states what sender and
  receiver rely on: parsing reads back what \<open>dump()\<close> has written, and \<open>operator[]\<close> finds members. A printer and
  a parser for the datatype of JSON values satisfy it.
\<close>

section \<open>What nodes rely on\<close>

text \<open>
  Documented for values whose strings are UTF-8, as those are that the program has parsed. A
  missing member of a value that is not constant is null.
\<close>

locale json_wire =
  fixes W :: "'j world" and index :: "'j \<Rightarrow> string \<Rightarrow> 'j outcome"
  assumes library: "json_library (w_api W)"
    and parse_dump: "w_parse W (json_dump (w_api W) j) = Ok j"
    and index_member: "distinct (map fst kvs) \<Longrightarrow> (k, v) \<in> set kvs \<Longrightarrow> index (json_object (w_api W) kvs) k = Ok v"
    and index_missing: "k \<notin> fst ` set kvs \<Longrightarrow> index (json_object (w_api W) kvs) k = Ok (json_null (w_api W))"

section \<open>A parser\<close>

text \<open>The rest of a string after its opening quote: the string and what follows the closing quote.\<close>

fun unescape :: "string \<Rightarrow> (string \<times> string) option" where
  "unescape [] = None"
| "unescape (c # cs) =
     (if c = CHR 0x22 then Some ([], cs)
      else if c = CHR 0x5C
      then (case cs of [] \<Rightarrow> None | d # ds \<Rightarrow> map_option (\<lambda>(s, r). (d # s, r)) (unescape ds))
      else map_option (\<lambda>(s, r). (c # s, r)) (unescape cs))"

lemma unescape_escape [simp]: "unescape (escape s @ CHR 0x22 # r) = Some (s, r)"
  by (induction s) auto

definition digits_value :: "string \<Rightarrow> nat" where
  "digits_value s = foldl (\<lambda>n c. 10 * n + (of_char c - 48)) 0 s"

lemma digits_value_dec [simp]: "digits_value (dec n) = n"
proof (induction n rule: dec.induct)
  case (1 n)
  have digit: "of_char (digit_char d) - 48 = d" if "d < 10" for d :: nat
    using that by (simp add: digit_char_def)
  show ?case
  proof (cases "n < 10")
    case True
    then show ?thesis by (simp add: dec.simps [of n] digits_value_def digit)
  next
    case False
    with 1 show ?thesis by (simp add: dec.simps [of n] digits_value_def digit)
  qed
qed

fun parse_value :: "nat \<Rightarrow> string \<Rightarrow> (jval \<times> string) option"
  and parse_items :: "nat \<Rightarrow> string \<Rightarrow> (jval list \<times> string) option"
  and parse_members :: "nat \<Rightarrow> string \<Rightarrow> ((string \<times> jval) list \<times> string) option" where
  "parse_value (Suc f) (c # cs) =
     (if c = CHR 0x22 then map_option (\<lambda>(s, r). (JString s, r)) (unescape cs)
      else if c = CHR ''['' then
        (if cs \<noteq> [] \<and> hd cs = CHR '']'' then Some (JArray [], tl cs)
         else map_option (\<lambda>(js, r). (JArray js, r)) (parse_items f cs))
      else if c = CHR ''{'' then
        (if cs \<noteq> [] \<and> hd cs = CHR ''}'' then Some (JObject [], tl cs)
         else map_option (\<lambda>(kvs, r). (JObject kvs, r)) (parse_members f cs))
      else if is_digit c
      then Some (JUnsigned (of_nat (digits_value (takeWhile is_digit (c # cs)))), dropWhile is_digit (c # cs))
      else if take 3 cs = ''ull'' then Some (JNull, drop 3 cs)
      else None)"
| "parse_value _ _ = None"
| "parse_items (Suc f) s =
     (case parse_value f s of
        Some (j, c # r) \<Rightarrow>
          if c = CHR '']'' then Some ([j], r)
          else if c = CHR '','' then map_option (\<lambda>(js, r). (j # js, r)) (parse_items f r)
          else None
      | _ \<Rightarrow> None)"
| "parse_items _ _ = None"
| "parse_members (Suc f) (q # s) =
     (case unescape s of
        Some (k, c # r) \<Rightarrow>
          if q = CHR 0x22 \<and> c = CHR '':'' then
            (case parse_value f r of
               Some (j, c # r) \<Rightarrow>
                 if c = CHR ''}'' then Some ([(k, j)], r)
                 else if c = CHR '','' then map_option (\<lambda>(kvs, r). ((k, j) # kvs, r)) (parse_members f r)
                 else None
             | _ \<Rightarrow> None)
          else None
      | _ \<Rightarrow> None)"
| "parse_members _ _ = None"

definition jval_parse :: "string \<Rightarrow> jval outcome" where
  "jval_parse s =
     (case parse_value (Suc (2 * length s)) s of
        Some (j, []) \<Rightarrow> Ok j
      | _ \<Rightarrow> json_syntax_error)"

section \<open>Round trip\<close>

definition no_digit :: "string \<Rightarrow> bool" where
  "no_digit r \<longleftrightarrow> r = [] \<or> \<not> is_digit (hd r)"

lemma jval_dump_start: "\<exists>c cs. jval_dump j = c # cs \<and> c \<noteq> CHR '']'' \<and> c \<noteq> CHR ''}''"
proof (cases j)
  case (JUnsigned n)
  obtain c cs where d: "dec_word n = c # cs" by (cases "dec_word n") auto
  with dec_digits [of c "unat n"] have "is_digit c" by simp
  with d JUnsigned show ?thesis by (auto simp: is_digit_def)
qed (simp_all add: quote_def)

lemma dec_split: "no_digit r \<Longrightarrow> takeWhile is_digit (dec n @ r) = dec n \<and> dropWhile is_digit (dec n @ r) = r"
  using dec_digits [of _ n] by (cases r) (auto simp: no_digit_def takeWhile_append dropWhile_append)

lemma parse_number:
  assumes "no_digit r"
  shows "parse_value (Suc f) (dec_word n @ r) = Some (JUnsigned n, r)"
proof -
  obtain c cs where d: "dec_word n = c # cs" by (cases "dec_word n") auto
  then have "is_digit c" using dec_digits [of c "unat n"] by simp
  then have "parse_value (Suc f) (c # (cs @ r)) =
      Some (JUnsigned (of_nat (digits_value (takeWhile is_digit (c # (cs @ r))))), dropWhile is_digit (c # (cs @ r)))"
    by (auto simp: is_digit_def simp del: takeWhile.simps dropWhile.simps)
  moreover have "c # (cs @ r) = dec_word n @ r" by (simp add: d)
  ultimately show ?thesis using dec_split [OF assms, of "unat n"] by simp
qed

lemma parse_items_dump:
  assumes "js \<noteq> []"
    and "\<And>j f r. j \<in> set js \<Longrightarrow> 2 * length (jval_dump j) \<le> f \<Longrightarrow> no_digit r \<Longrightarrow>
      parse_value (Suc f) (jval_dump j @ r) = Some (j, r)"
    and "2 * length (intercalate (map jval_dump js)) < f"
  shows "parse_items (Suc f) (intercalate (map jval_dump js) @ CHR '']'' # r) = Some (js, r)"
  using assms
proof (induction js arbitrary: f rule: list_nonempty_induct)
  case (single j)
  then obtain f' where "f = Suc f'" by (cases f) auto
  with single show ?case by (simp add: no_digit_def is_digit_def)
next
  case (cons j js)
  from cons.hyps have split: "intercalate (map jval_dump (j # js)) =
      jval_dump j @ CHR '','' # intercalate (map jval_dump js)"
    by (cases js) simp_all
  then obtain f' where f': "f = Suc f'" using cons.prems(2) by (cases f) auto
  with cons.prems(2) split have len: "2 * length (jval_dump j) \<le> f'" "2 * length (intercalate (map jval_dump js)) < f'"
    by simp_all
  have "parse_value f (jval_dump j @ CHR '','' # (intercalate (map jval_dump js) @ CHR '']'' # r)) =
      Some (j, CHR '','' # (intercalate (map jval_dump js) @ CHR '']'' # r))"
    unfolding f' using len(1) by (intro cons.prems(1)) (simp_all add: no_digit_def is_digit_def)
  moreover have "parse_items f (intercalate (map jval_dump js) @ CHR '']'' # r) = Some (js, r)"
    unfolding f' using len(2) by (intro cons.IH cons.prems(1)) auto
  ultimately show ?case unfolding split by simp
qed

abbreviation dump_member :: "string \<times> jval \<Rightarrow> string" where
  "dump_member \<equiv> \<lambda>(k, v). quote k @ '':'' @ jval_dump v"

lemma parse_members_dump:
  assumes "kvs \<noteq> []"
    and "\<And>k v f r. (k, v) \<in> set kvs \<Longrightarrow> 2 * length (jval_dump v) \<le> f \<Longrightarrow> no_digit r \<Longrightarrow>
      parse_value (Suc f) (jval_dump v @ r) = Some (v, r)"
    and "2 * length (intercalate (map dump_member kvs)) < f"
  shows "parse_members (Suc f) (intercalate (map dump_member kvs) @ CHR ''}'' # r) = Some (kvs, r)"
  using assms
proof (induction kvs arbitrary: f rule: list_nonempty_induct)
  case (single kv)
  obtain k v where kv: "kv = (k, v)" by (cases kv)
  from single obtain f' where f': "f = Suc f'" by (cases f) auto
  with single kv have "parse_value f (jval_dump v @ CHR ''}'' # r) = Some (v, CHR ''}'' # r)"
    by (simp add: no_digit_def is_digit_def quote_def)
  then show ?case by (simp add: kv quote_def)
next
  case (cons kv kvs)
  obtain k v where kv: "kv = (k, v)" by (cases kv)
  let ?rest = "intercalate (map dump_member kvs)"
  from cons.hyps have split: "intercalate (map dump_member (kv # kvs)) =
      CHR 0x22 # escape k @ CHR 0x22 # CHR '':'' # jval_dump v @ CHR '','' # ?rest"
    by (cases kvs) (simp_all add: kv quote_def)
  then obtain f' where f': "f = Suc f'" using cons.prems(2) by (cases f) auto
  with cons.prems(2) split have len: "2 * length (jval_dump v) \<le> f'" "2 * length ?rest < f'"
    by simp_all
  have "parse_value f (jval_dump v @ CHR '','' # (?rest @ CHR ''}'' # r)) = Some (v, CHR '','' # (?rest @ CHR ''}'' # r))"
    unfolding f' using len(1) by (intro cons.prems(1) [of k]) (simp_all add: kv no_digit_def is_digit_def)
  moreover have "parse_members f (?rest @ CHR ''}'' # r) = Some (kvs, r)"
    unfolding f' using len(2) by (intro cons.IH cons.prems(1)) auto
  ultimately show ?case unfolding split by (simp add: kv)
qed

lemma intercalate_start:
  "xs \<noteq> [] \<Longrightarrow> hd xs \<noteq> [] \<Longrightarrow> intercalate xs @ r \<noteq> [] \<and> hd (intercalate xs @ r) = hd (hd xs)"
  by (cases xs rule: intercalate.cases) simp_all

lemma parse_value_dump:
  "2 * length (jval_dump j) \<le> f \<Longrightarrow> no_digit r \<Longrightarrow> parse_value (Suc f) (jval_dump j @ r) = Some (j, r)"
proof (induction j arbitrary: f r)
  case JNull
  then show ?case by (simp add: is_digit_def)
next
  case (JUnsigned n)
  then show ?case by (simp add: parse_number)
next
  case (JString s)
  then show ?case by (simp add: quote_def)
next
  case (JArray js)
  show ?case
  proof (cases "js = []")
    case False
    from JArray.prems obtain f' where f': "f = Suc f'" by (cases f) auto
    have "parse_items (Suc f') (intercalate (map jval_dump js) @ CHR '']'' # r) = Some (js, r)"
      using False JArray f' by (intro parse_items_dump) auto
    moreover have "hd (intercalate (map jval_dump js) @ CHR '']'' # r) \<noteq> CHR '']''"
      using intercalate_start [of "map jval_dump js"] jval_dump_start [of "hd js"] False
      by (auto simp: hd_map)
    ultimately show ?thesis by (simp add: f')
  qed simp
next
  case (JObject kvs)
  show ?case
  proof (cases "kvs = []")
    case False
    from JObject.prems obtain f' where f': "f = Suc f'" by (cases f) auto
    have "parse_members (Suc f') (intercalate (map dump_member kvs) @ CHR ''}'' # r) = Some (kvs, r)"
      using False JObject f' by (intro parse_members_dump) auto
    moreover have "hd (intercalate (map dump_member kvs) @ CHR ''}'' # r) \<noteq> CHR ''}''"
      using intercalate_start [of "map dump_member kvs"] False
      by (cases "hd kvs") (auto simp: hd_map quote_def)
    ultimately show ?thesis by (simp add: f')
  qed simp
qed

lemma jval_parse_dump: "jval_parse (jval_dump j) = Ok j"
  using parse_value_dump [of j "2 * length (jval_dump j)" "[]"] by (simp add: jval_parse_def no_digit_def)

text \<open>A world whose JSON library prints and parses.\<close>

definition parsing_world :: "jval world" where
  "parsing_world = example_world\<lparr>w_parse := jval_parse\<rparr>"

lemma parsing_world_simps [simp]: "w_env parsing_world = example_env False"
  by (simp add: parsing_world_def)

interpretation parsing: json_wire parsing_world jval_index
proof (rule json_wire.intro)
  show "json_library (w_api parsing_world)" using jval.json_library_axioms by simp
next
  fix j
  show "w_parse parsing_world (json_dump (w_api parsing_world) j) = Ok j"
    by (simp add: parsing_world_def jval_api_def jval_parse_dump)
next
  fix kvs :: "(string \<times> jval) list" and k v
  show "distinct (map fst kvs) \<Longrightarrow> (k, v) \<in> set kvs \<Longrightarrow> jval_index (json_object (w_api parsing_world) kvs) k = Ok v"
    by (simp add: jval_api_def)
  assume "k \<notin> fst ` set kvs"
  then have "map_of kvs k = None" by (simp only: map_of_eq_None_iff) simp
  then show "jval_index (json_object (w_api parsing_world) kvs) k = Ok (json_null (w_api parsing_world))"
    by (simp add: jval_api_def)
qed

end
