(* ===== verification/Exchange.thy ===== *)
theory Exchange
  imports Text_Node Client Json_Text
begin

text \<open>
  Two nodes and the connection between them, from the bytes of a request to the chains of both: a text
  that a client posts at one node reaches the other, and a node that is told about another ends with
  its chain. The build is the one without transactions; the network loses nothing.
\<close>

section \<open>Model\<close>

text \<open>The client writes the text of a request, the server handles it, the client reads the response.\<close>

definition exchange ::
    "'j world \<Rightarrow> ('j \<Rightarrow> string \<Rightarrow> 'j outcome) \<Rightarrow> (string \<rightharpoonup> ('j, 'n) ws_handler) \<Rightarrow> 'j \<Rightarrow> 'c \<Rightarrow>
     ('j, 'c) connection \<times> 'n \<Rightarrow> (('j, 'c) connection \<times> 'n) outcome" where
  "exchange W index hs request cb s =
     (case ws_on_read W index hs (json_dump (w_api W) request) (snd s) of
        (Ok response, n) \<Rightarrow>
          map_outcome_val (\<lambda>c. (c, n))
            (peer_send W index (\<lambda>i. Completed (if i = 0 then [] else response)) request cb (fst s))
      | (Throw e, n) \<Rightarrow> Throw e
      | (Undef, n) \<Rightarrow> Undef)"

fun returned :: "('a, 's) call \<Rightarrow> ('a \<times> 's) outcome" where
  "returned (Ok x, s) = Ok (x, s)"
| "returned (Throw e, s) = Throw e"
| "returned (Undef, s) = Undef"

text \<open>
  The peers of node \<open>b\<close>: \<open>conns\<close> are its connections, one for each of its peers in their order, and
  \<open>net\<close> gives the node that serves at an address. A detached thread of \<open>b\<close> sends its request to the peer
  number it was given: the result is what its callback is called with, if it is called. On a connection
  that still holds an unsent request the new one is only queued.
\<close>

definition ask ::
    "'j world \<Rightarrow> ('j \<Rightarrow> string \<Rightarrow> 'j outcome) \<Rightarrow> (string \<rightharpoonup> ('j, 'j text_node) ws_handler) \<Rightarrow> thread \<Rightarrow> 'c \<Rightarrow>
     ('j, 'c) connection list \<Rightarrow> (string \<times> u16 \<Rightarrow> 'j text_node) \<Rightarrow> 'j text_node \<Rightarrow>
     ((bool \<times> string) option \<times> ('j, 'c) connection list \<times> (string \<times> u16 \<Rightarrow> 'j text_node) \<times> 'j text_node) outcome" where
  "ask W index hs t cb conns net b =
     bind_outcome (returned (text_run_thread W t b)) (\<lambda>(_, b).
       case last (x_sent b) of (peer_id, request) \<Rightarrow>
         if peer_id = 0 \<or> length conns < peer_id then Undef
         else let c = conns ! (peer_id - 1); address = x_peers b ! (peer_id - 1)
           in if m_send_queue c \<noteq> []
              then map_outcome_val (\<lambda>conns. (None, conns, net, b))
                     (peers_send W index (\<lambda>_. Failed) peer_id request cb conns)
              else map_outcome_val (\<lambda>(c', n). (map_option snd (find (\<lambda>_. True) (drop (length (c_called c)) (c_called c'))),
                       conns[peer_id - 1 := c'], net(address := n), b))
                     (exchange W index hs request cb (c, net address)))"

text \<open>Every new peer gets a new connection.\<close>

definition connected :: "'j text_node \<Rightarrow> ('j, 'c) connection list \<Rightarrow> ('j, 'c) connection list" where
  "connected b conns = conns @ replicate (length (x_peers b) - length conns) connection_new"

text \<open>
  Node \<open>b\<close> is told about another node with \<open>POST /peers\<close>: it asks it for the latest block, and when the answer
  makes it detach another thread, this one runs too. Clocks \<open>clk1\<close>, \<open>clk2\<close> and \<open>clk3\<close> are those of \<open>b\<close>
  in the two callbacks.
\<close>

definition join ::
    "'j world \<Rightarrow> ('j \<Rightarrow> string \<Rightarrow> 'j outcome) \<Rightarrow> (string \<rightharpoonup> ('j, 'j text_node) ws_handler) \<Rightarrow>
     (nat \<Rightarrow> time_point) \<Rightarrow> (nat \<Rightarrow> time_point) \<Rightarrow> (nat \<Rightarrow> time_point) \<Rightarrow> 'j \<Rightarrow> 'c \<Rightarrow>
     ('j, 'c) connection list \<Rightarrow> (string \<times> u16 \<Rightarrow> 'j text_node) \<Rightarrow> 'j text_node \<Rightarrow>
     (('j, 'c) connection list \<times> (string \<times> u16 \<Rightarrow> 'j text_node) \<times> 'j text_node) outcome" where
  "join W index hs clk1 clk2 clk3 data cb conns net b =
     bind_outcome (returned (text_peers_post W data b)) (\<lambda>(_, b).
     bind_outcome (ask W index hs (last (x_threads b)) cb (connected b conns) net b) (\<lambda>(answer, conns, net, b).
       case answer of
         None \<Rightarrow> Ok (conns, net, b)
       | Some (success, answer) \<Rightarrow>
           bind_outcome (returned (text_latest_block_answer W clk1 success answer b)) (\<lambda>(_, b').
             if x_threads b' = x_threads b then Ok (connected b' conns, net, b')
             else bind_outcome (ask W index hs (last (x_threads b')) cb (connected b' conns) net b')
               (\<lambda>(answer, conns, net, b).
                 case answer of
                   None \<Rightarrow> Ok (conns, net, b)
                 | Some (success, answer) \<Rightarrow>
                     map_outcome_val (\<lambda>(_, b). (conns, net, b))
                       (returned (text_all_blocks_answer W clk2 clk3 success answer b))))))"

section \<open>One request\<close>

definition ready :: "('j, 'c) connection \<Rightarrow> bool" where
  "ready c \<longleftrightarrow> idle c \<and> m_send_queue c = []"

lemma ready_new: "ready connection_new"
  by (simp add: ready_def idle_def connection_new_def)

context json_wire
begin

lemma at_member: "distinct (map fst kvs) \<Longrightarrow> map_of kvs k = Some v \<Longrightarrow> json_at (w_api W) (json_object (w_api W) kvs) k = Ok v"
  by (rule json_library.at_object_lookup [OF library])

lemma index_lookup:
  "distinct (map fst kvs) \<Longrightarrow> index (json_object (w_api W) kvs) k =
     Ok (case map_of kvs k of Some v \<Rightarrow> v | None \<Rightarrow> json_null (w_api W))"
proof (cases "map_of kvs k")
  case None
  then have "k \<notin> fst ` set kvs" by (simp only: map_of_eq_None_iff) simp
  with None show ?thesis by (simp add: index_missing)
next
  case (Some v)
  assume "distinct (map fst kvs)"
  then have "index (json_object (w_api W) kvs) k = Ok v" by (rule index_member [OF _ map_of_SomeD [OF Some]])
  with Some show ?thesis by simp
qed

text \<open>A handler that returns is answered, and the callback gets the text of its answer.\<close>

lemma exchange_answered:
  assumes "request = json_object (w_api W) ((''target'', json_of_string (w_api W) target) # kvs)"
    and "distinct (''target'' # map fst kvs)" and "hs target = Some handler"
    and "handler (case map_of kvs ''data'' of Some v \<Rightarrow> v | None \<Rightarrow> json_null (w_api W)) n = (Ok answer, n')"
    and "ready c"
  shows "exchange W index hs request cb (c, n) =
    Ok (c\<lparr>c_written := c_written c @ [request],
          c_called := c_called c @ [(cb, True, json_dump (w_api W) answer)]\<rparr>, n')"
proof -
  let ?r = "ws_response (w_api W) ''ok'' answer"
  have dist: "distinct (map fst ((''target'', json_of_string (w_api W) target) # kvs))" using assms(2) by simp
  have "ws_request W index (json_dump (w_api W) request) =
      Ok (target, case map_of kvs ''data'' of Some v \<Rightarrow> v | None \<Rightarrow> json_null (w_api W))"
    using index_lookup [OF dist] json_library.get_string [OF library]
    by (simp add: ws_request_def assms(1) parse_dump)
  then have "ws_on_read W index hs (json_dump (w_api W) request) n = (Ok (json_dump (w_api W) ?r), n')"
    using assms(3,4) by (simp add: ws_on_read_def ws_dispatch_def ws_handle_def)
  moreover have "client_on_read W index (json_dump (w_api W) ?r) = (True, json_dump (w_api W) answer)"
    using json_library.get_string [OF library] by (simp add: client_on_read_def parse_dump ws_response_def index_lookup)
  ultimately show ?thesis
    using assms(5) by (simp add: exchange_def ready_def peer_send_spec fate_def)
qed

lemma origin_address: "peer_address (w_api W) (text_origin_json (w_api W) n) = Ok (x_host n, x_port n)"
  using at_member json_library.get_string [OF library] json_library.get_u16 [OF library]
  by (simp add: peer_address_def text_origin_json_def)

lemma ask_answered:
  assumes "text_run_thread W t b = (Ok (), b')"
    and "last (x_sent b') = (i, json_object (w_api W) [(''target'', json_of_string (w_api W) target)])"
    and "0 < i" and "i \<le> length conns" and "ready (conns ! (i - 1))" and "x_peers b' ! (i - 1) = address"
    and "hs target = Some (\<lambda>_. handler)" and "handler (net address) = (Ok answer, net address)"
  obtains c' where "ask W index hs t cb conns net b =
      Ok (Some (True, json_dump (w_api W) answer), conns[i - 1 := c'], net, b')" "ready c'"
proof -
  let ?request = "json_object (w_api W) [(''target'', json_of_string (w_api W) target)]" and ?old = "conns ! (i - 1)"
  let ?c = "?old\<lparr>c_written := c_written ?old @ [?request],
    c_called := c_called ?old @ [(cb, True, json_dump (w_api W) answer)]\<rparr>"
  have "exchange W index hs ?request cb (?old, net address) = Ok (?c, net address)"
    using assms by (intro exchange_answered [where kvs = "[]" and handler = "\<lambda>_. handler"]) simp_all
  then have "ask W index hs t cb conns net b =
      Ok (Some (True, json_dump (w_api W) answer), conns[i - 1 := ?c], net, b')"
    using assms by (simp add: ask_def ready_def Let_def)
  moreover have "ready ?c" using assms(5) by (simp add: ready_def idle_def)
  ultimately show thesis by (rule that)
qed

lemma ask_latest_block:
  assumes "m_blocks (x_blockchain (net address)) \<noteq> []"
    and "0 < i" and "i \<le> length conns" and "ready (conns ! (i - 1))" and "x_peers b ! (i - 1) = address"
  obtains c' where "ask W index (text_websocket_setup W clk clk') (Request_latest_block i) cb conns net b =
      Ok (Some (True, json_dump (w_api W) (json_object (w_api W)
            [(''block'', block_to_json text_ops (w_api W) (last (m_blocks (x_blockchain (net address))))),
             (''origin'', text_origin_json (w_api W) (net address))])),
          conns[i - 1 := c'], net, text_send_request W ''/request-latest-block'' i b)"
    "ready c'"
proof -
  let ?hs = "text_websocket_setup W clk clk'" and ?b = "text_send_request W ''/request-latest-block'' i b"
  have run: "text_run_thread W (Request_latest_block i) b = (Ok (), ?b)" by simp
  have sent: "last (x_sent ?b) = (i, json_object (w_api W) [(''target'', json_of_string (w_api W) ''/request-latest-block'')])"
    by (simp add: text_send_request_def)
  have peer: "x_peers ?b ! (i - 1) = address" using assms(5) by (simp add: text_send_request_def)
  have handler: "?hs ''/request-latest-block'' = Some (\<lambda>_. text_request_latest_block W)"
    by (simp add: text_websocket_setup_def ws_support_def)
  have answer: "text_request_latest_block W (net address) = (Ok (json_object (w_api W)
      [(''block'', block_to_json text_ops (w_api W) (last (m_blocks (x_blockchain (net address))))),
       (''origin'', text_origin_json (w_api W) (net address))]), net address)"
    using assms(1) by (simp add: text_request_latest_block_def)
  show thesis
    by (rule ask_answered [where net = net and address = address and handler = "text_request_latest_block W" and cb = cb
          and hs = ?hs, OF run sent assms(2-4) peer handler answer]) (rule that)
qed

lemma ask_all_blocks:
  assumes "0 < i" and "i \<le> length conns" and "ready (conns ! (i - 1))" and "x_peers b ! (i - 1) = address"
  obtains c' where "ask W index (text_websocket_setup W clk clk') (Request_all_blocks i) cb conns net b =
      Ok (Some (True, json_dump (w_api W) (json_object (w_api W)
            [(''blockchain'', chain_to_json text_ops (w_api W) (x_blockchain (net address))),
             (''origin'', text_origin_json (w_api W) (net address))])),
          conns[i - 1 := c'], net, text_send_request W ''/request-all-blocks'' i b)"
    "ready c'"
proof -
  let ?hs = "text_websocket_setup W clk clk'" and ?b = "text_send_request W ''/request-all-blocks'' i b"
  have run: "text_run_thread W (Request_all_blocks i) b = (Ok (), ?b)" by simp
  have sent: "last (x_sent ?b) = (i, json_object (w_api W) [(''target'', json_of_string (w_api W) ''/request-all-blocks'')])"
    by (simp add: text_send_request_def)
  have peer: "x_peers ?b ! (i - 1) = address" using assms(4) by (simp add: text_send_request_def)
  have handler: "?hs ''/request-all-blocks'' = Some (\<lambda>_. text_request_all_blocks W)"
    by (simp add: text_websocket_setup_def ws_support_def)
  have answer: "text_request_all_blocks W (net address) = (Ok (json_object (w_api W)
      [(''blockchain'', chain_to_json text_ops (w_api W) (x_blockchain (net address))),
       (''origin'', text_origin_json (w_api W) (net address))]), net address)"
    using assms(1) by (simp add: text_request_all_blocks_def)
  show thesis
    by (rule ask_answered [where net = net and address = address and handler = "text_request_all_blocks W" and cb = cb
          and hs = ?hs, OF run sent assms(1-3) peer handler answer]) (rule that)
qed

text \<open>A node that learns of a block ahead of its chain asks the origin for all blocks.\<close>

lemma learns_to_be_behind:
  assumes "chain_length (x_blockchain b) < b_index blk"
    and "block_valid text_ops (w_env W) (clk 0) blk = Ok (True, [])"
    and "peers_find (x_host a) (x_port a) (x_peers b) = k" and "k \<noteq> 0"
  shows "text_latest_block_answer W clk True (json_dump (w_api W) (json_object (w_api W)
      [(''block'', block_to_json text_ops (w_api W) blk), (''origin'', text_origin_json (w_api W) a)])) b =
    (Ok (), text_detach (Request_all_blocks k) b)"
  using assms at_member json_library.text_block_roundtrip [OF library]
  by (simp add: text_latest_block_answer_def parse_dump text_receive_latest_block_def text_place_block_def
      text_ask_origin_def origin_address)

end

lemma peers_find_from_append:
  "0 < i \<Longrightarrow> peers_find_from i host port (ps @ [(host, port)]) =
     (if peers_find_from i host port ps = 0 then i + length ps else peers_find_from i host port ps)"
  by (induction ps arbitrary: i) auto

lemma peers_find_from_found:
  "peers_find_from (Suc i) host port ps = k \<Longrightarrow> k \<noteq> 0 \<Longrightarrow> i < k \<and> k \<le> i + length ps \<and> ps ! (k - Suc i) = (host, port)"
proof (induction ps arbitrary: i)
  case (Cons p ps)
  show ?case
  proof (cases "fst p = host \<and> snd p = port")
    case False
    with Cons.prems have "peers_find_from (Suc (Suc i)) host port ps = k" by (cases p) (auto split: if_splits)
    with Cons.IH [of "Suc i"] Cons.prems(2) have "Suc i < k \<and> k \<le> Suc i + length ps \<and> ps ! (k - Suc (Suc i)) = (host, port)"
      by simp
    then show ?thesis by (simp add: nth_Cons' Suc_diff_Suc)
  qed (use Cons.prems in auto)
qed simp

text \<open>The number under which an address is found once it has been added: the older entry, if there is one.\<close>

lemma peers_find_append:
  "peers_find host port (ps @ [(host, port)]) =
     (if peers_find host port ps = 0 then Suc (length ps) else peers_find host port ps)"
  by (simp add: peers_find_def peers_find_from_append)

lemma peers_find_found:
  assumes "peers_find host port ps = k" and "k \<noteq> 0"
  shows "k \<le> length ps \<and> ps ! (k - 1) = (host, port)"
  using peers_find_from_found [of 0 host port ps k] assms by (simp add: peers_find_def)

lemma latest_block_valid:
  assumes "append_blocks text_ops E clk0 0 bs (blockchain_init (cfg E)) = Ok c" and "bs \<noteq> []"
    and "\<And>k. sint (clk0 k) \<le> sint now"
  shows "m_blocks c = bs \<and> b_index (last bs) = word_of_nat (length bs - 1) \<and>
    block_valid text_ops E now (last bs) = Ok (True, [])"
proof -
  let ?k = "length bs - 1"
  have blocks: "m_blocks c = bs" using append_blocks_result [OF assms(1)] by simp
  have linked: "linked_from text_ops E None bs"
    using chain_reachable_well_formed [OF append_blocks_reachable [OF chain_reachable.start assms(1)]]
    by (simp add: well_formed_def blocks)
  have k: "?k < length bs" "bs ! ?k = last bs" using assms(2) by (simp_all add: last_conv_nth)
  have "not_ahead E (b_timestamp (last bs)) (clk0 ?k)" using append_blocks_times [OF assms(1) k(1)] k(2) by simp
  moreover have "linked text_ops E (if ?k = 0 then None else Some (bs ! (?k - 1))) (last bs)"
    using linked k unfolding linked_from_nth by metis
  ultimately show ?thesis
    using linked_from_index [OF linked k(1)] assms(3) blocks k(2)
    by (auto simp: linked_def block_valid_iff intro: not_ahead_mono)
qed

lemma http_post_text_Ok:
  fixes W :: "'j world"
  assumes "rq_target rq = ''/blocks''" and "rq_method rq = Post"
    and "handle_request W (text_http_setup W clk) rq a = Some (Ok rs, a')" and "rs_status rs = status_ok"
  obtains data r where "text_blocks_post W clk data a = Some (Ok r, a')"
proof -
  from assms(3) obtain data where body: "parse_body W rq = Ok (Inr data)"
    using assms(4) by (cases "parse_body W rq" rule: outcome.exhaust)
      (auto simp: handle_request_def parse_body_def split: sum.splits if_splits outcome.splits)
  have post: "http_handle W (text_http_setup W clk) ''/blocks'' Post data a = text_blocks_post W clk data a"
    by (simp add: http_handle_def text_http_setup_def http_support_def)
  with assms(1-3) body obtain r where r: "text_blocks_post W clk data a = Some r" "http_catch W rq r = (Ok rs, a')"
    by (auto simp: handle_request_def)
  obtain m :: "(unit, 'j text_node) call" where m: "r = then_call (rethrow (HTTPError status_bad_request) (malformed ''POST /blocks'' W data) m)
      (\<lambda>_ n. (Ok (status_ok, json_null (w_api W)), text_detach Broadcast_latest_block n))"
    using r(1) unfolding text_blocks_post_def map_option_eq_Some by blast
  obtain q where "r = (Ok q, a')"
    using r(2) assms(4) unfolding m
    by (cases m; cases "fst m") (auto simp: render_def)
  with r(1) show thesis by (intro that) simp
qed

section \<open>Being told about a node\<close>

text \<open>Node \<open>b\<close> after \<open>POST /peers\<close> and the request for the latest block, and after its answer.\<close>

definition told :: "'j world \<Rightarrow> string \<Rightarrow> u16 \<Rightarrow> 'j text_node \<Rightarrow> 'j text_node" where
  "told W host port b =
     (let i = Suc (length (x_peers b))
      in text_send_request W ''/request-latest-block'' i
           (text_detach (Request_latest_block i) (b\<lparr>x_peers := x_peers b @ [(host, port)]\<rparr>)))"

definition behind :: "'j world \<Rightarrow> string \<Rightarrow> u16 \<Rightarrow> 'j text_node \<Rightarrow> 'j text_node" where
  "behind W host port b =
     text_detach (Request_all_blocks (peers_find host port (x_peers b @ [(host, port)]))) (told W host port b)"

lemma told_simps [simp]:
  "x_peers (told W host port b) = x_peers b @ [(host, port)]" "x_blockchain (told W host port b) = x_blockchain b"
  "x_peers (behind W host port b) = x_peers b @ [(host, port)]" "x_blockchain (behind W host port b) = x_blockchain b"
  by (simp_all add: told_def behind_def text_detach_def text_send_request_def Let_def)

lemma behind_threads:
  "x_threads (behind W host port b) = x_threads (told W host port b) @
     [Request_all_blocks (peers_find host port (x_peers b @ [(host, port)]))]"
  by (simp add: behind_def text_detach_def)

text \<open>The index of the latest block of a longer chain lies beyond the end of the own one.\<close>

lemma latest_index_ahead:
  assumes "length (m_blocks c) + 1 < k" and "k < 2 ^ 64"
  shows "chain_length c < word_of_nat (k - 1)"
proof -
  have "unat (word_of_nat m :: u64) = m" if "m < k" for m
    using that assms(2) by (simp add: unat_of_nat take_bit_nat_eq_self)
  from this [of "k - 1"] this [of "length (m_blocks c)"] assms(1) show ?thesis
    by (simp add: chain_length_def word_less_nat_alt)
qed

text \<open>The first half: a node that is told about a node ahead of it asks the peer that it finds for all blocks.\<close>

lemma join_asks_all_blocks:
  assumes "json_wire W index" and "a = net (host, port)" and "x_host a = host" and "x_port a = port"
    and "w_connect W host port = Ok ()" and "peer_address (w_api W) data = Ok (host, port)"
    and "length conns = length (x_peers b)"
    and "append_blocks text_ops (w_env W) clk0 0 bs (blockchain_init (cfg (w_env W))) = Ok (x_blockchain a)"
    and "length (m_blocks (x_blockchain b)) + 1 < length bs" and "length bs < 2 ^ 64"
    and "\<And>k. sint (clk0 k) \<le> sint (clk1 0)"
  obtains c1 where "ready c1"
    "join W index (text_websocket_setup W clk clk') clk1 clk2 clk3 data cb conns net b =
       bind_outcome (ask W index (text_websocket_setup W clk clk')
           (Request_all_blocks (peers_find host port (x_peers b @ [(host, port)]))) cb (conns @ [c1]) net (behind W host port b))
         (\<lambda>(answer, conns, net, b). case answer of
            None \<Rightarrow> Ok (conns, net, b)
          | Some (success, answer) \<Rightarrow> map_outcome_val (\<lambda>(_, b). (conns, net, b))
              (returned (text_all_blocks_answer W clk2 clk3 success answer b)))"
proof -
  let ?hs = "text_websocket_setup W clk clk'" and ?J = "w_api W" and ?ps = "x_peers b @ [(host, port)]"
  let ?i = "Suc (length (x_peers b))" and ?conns = "conns @ [connection_new]"
  let ?b1 = "text_detach (Request_latest_block ?i) (b\<lparr>x_peers := ?ps\<rparr>)"
  let ?latest = "json_dump ?J (json_object ?J [(''block'', block_to_json text_ops ?J (last bs)),
      (''origin'', text_origin_json ?J a)])"
  have "bs \<noteq> []" using assms(9) by auto
  then have latest: "m_blocks (x_blockchain a) = bs" "b_index (last bs) = word_of_nat (length bs - 1)"
    "block_valid text_ops (w_env W) (clk1 0) (last bs) = Ok (True, [])"
    using latest_block_valid [OF assms(8) _ assms(11)] by simp_all
  have peers: "text_peers_post W data b = (Ok (status_ok, json_null ?J), ?b1)"
    using assms(5,6) by (simp add: text_peers_post_def text_add_peer_def peers_add_def)
  have b1: "connected ?b1 conns = ?conns" "last (x_threads ?b1) = Request_latest_block ?i"
    using assms(7) by (simp_all add: connected_def text_detach_def)
  have new: "0 < ?i" "?i \<le> length ?conns" "ready (?conns ! (?i - 1))" "x_peers ?b1 ! (?i - 1) = (host, port)"
    "m_blocks (x_blockchain (net (host, port))) \<noteq> []"
    using assms(2,7) ready_new latest(1) \<open>bs \<noteq> []\<close> by (simp_all add: text_detach_def nth_append)
  obtain c1 where "ask W index ?hs (Request_latest_block ?i) cb ?conns net ?b1 =
      Ok (Some (True, ?latest), ?conns[?i - 1 := c1], net, text_send_request W ''/request-latest-block'' ?i ?b1)"
    and c1: "ready c1"
    unfolding assms(2) latest(1) [unfolded assms(2), symmetric]
    by (rule json_wire.ask_latest_block [where net = net and address = "(host, port)" and conns = ?conns and i = ?i, OF assms(1) new(5,1-4)])
  then have ask1: "ask W index ?hs (Request_latest_block ?i) cb ?conns net ?b1 =
      Ok (Some (True, ?latest), conns @ [c1], net, told W host port b)"
    using assms(7) by (simp add: told_def Let_def list_update_append)
  have "peers_find host port ?ps \<noteq> 0" by (simp add: peers_find_append)
  then have answer1: "text_latest_block_answer W clk1 True ?latest (told W host port b) = (Ok (), behind W host port b)"
    unfolding behind_def using latest_index_ahead [OF assms(9,10)] latest(2)
    by (intro json_wire.learns_to_be_behind [where clk = clk1, OF assms(1) _ latest(3)]) (simp_all add: assms(3,4) chain_length_def)
  have conns2: "connected (behind W host port b) (conns @ [c1]) = conns @ [c1]" using assms(7) by (simp add: connected_def)
  have threads: "x_threads (behind W host port b) \<noteq> x_threads (told W host port b)"
    "last (x_threads (behind W host port b)) = Request_all_blocks (peers_find host port ?ps)"
    by (simp_all add: behind_threads)
  show thesis
    by (rule that [OF c1])
      (simp only: join_def peers returned.simps bind_outcome.simps prod.case option.case b1 ask1 answer1 threads
        if_False conns2)
qed


text \<open>
  When the address was a peer before and a write to the older connection has failed, the node finds this
  connection again, only queues its second request there and keeps its chain.
\<close>

lemma stuck_peer_is_found_again:
  assumes "json_wire W index" and "a = net (host, port)" and "x_host a = host" and "x_port a = port"
    and "w_connect W host port = Ok ()" and "peer_address (w_api W) data = Ok (host, port)"
    and "length conns = length (x_peers b)"
    and "append_blocks text_ops (w_env W) clk0 0 bs (blockchain_init (cfg (w_env W))) = Ok (x_blockchain a)"
    and "length (m_blocks (x_blockchain b)) + 1 < length bs" and "length bs < 2 ^ 64"
    and "\<And>k. sint (clk0 k) \<le> sint (clk1 0)"
    and "peers_find host port (x_peers b) = k" and "k \<noteq> 0"
    and "idle (conns ! (k - 1))" and "m_send_queue (conns ! (k - 1)) \<noteq> []"
  shows "\<exists>conns' b'. join W index (text_websocket_setup W clk clk') clk1 clk2 clk3 data cb conns net b =
      Ok (conns', net, b') \<and> x_blockchain b' = x_blockchain b"
proof -
  let ?hs = "text_websocket_setup W clk clk'" and ?b = "behind W host port b"
  have k: "peers_find host port (x_peers b @ [(host, port)]) = k" "k - 1 < length conns" "k \<le> length conns"
    using assms(7,12,13) peers_find_found [OF assms(12,13)] by (simp_all add: peers_find_append, linarith)
  obtain c1 where join: "join W index ?hs clk1 clk2 clk3 data cb conns net b =
      bind_outcome (ask W index ?hs (Request_all_blocks (peers_find host port (x_peers b @ [(host, port)]))) cb (conns @ [c1]) net ?b)
         (\<lambda>(answer, conns, net, b). case answer of
            None \<Rightarrow> Ok (conns, net, b)
          | Some (success, answer) \<Rightarrow> map_outcome_val (\<lambda>(_, b). (conns, net, b))
              (returned (text_all_blocks_answer W clk2 clk3 success answer b)))"
    by (rule join_asks_all_blocks [where a = a and net = net and ?clk0.0 = clk0 and ?clk1.0 = clk1, OF assms(1-11)])
  let ?request = "json_object (w_api W) [(''target'', json_of_string (w_api W) ''/request-all-blocks'')]"
  obtain c' where "peer_send W index (\<lambda>_. Failed) ?request cb (conns ! (k - 1)) = Ok c'"
    using peer_send_idle [OF assms(14)] by blast
  then have "\<exists>conns'. ask W index ?hs (Request_all_blocks k) cb (conns @ [c1]) net ?b =
      Ok (None, conns', net, text_send_request W ''/request-all-blocks'' k ?b)"
    using assms(13,15) k by (simp add: ask_def text_send_request_def peers_send_def nth_append Let_def)
  with join [unfolded k(1)] show ?thesis by (auto simp: text_send_request_def)
qed

section \<open>Properties\<close>

text \<open>
  C9. A text that a client posts at one node reaches the next: when \<open>POST /blocks\<close> is answered with success
  and the detached thread has run, delivering any of its messages through the connection and the
  WebSocket server of a node with the same chain gives that node the chain of the first, which is
  longer by one, and the callback is called with success.
\<close>

theorem posted_text_travels:
  assumes "json_wire W index" and "\<not> proof_of_work (w_env W)" and "text_inv W a"
    and "x_blockchain b = x_blockchain a" and "ready c"
    and "rq_target rq = ''/blocks''" and "rq_method rq = Post"
    and "handle_request W (text_http_setup W clk) rq a = Some (Ok rs, a1)" and "rs_status rs = status_ok"
    and "text_run_thread W Broadcast_latest_block a1 = (Ok (), a2)"
    and "(peer_id, request) \<in> set (drop (length (x_sent a1)) (x_sent a2))"
    and "sint (clk 1) \<le> sint (clk' 0)" and "sint (clk 1) \<le> sint (clk' 1)"
    and "m_blocks (x_blockchain a) = [] \<or>
      not_ahead (w_env W) (b_timestamp (last (m_blocks (x_blockchain a)))) (clk 0)"
  shows "\<exists>c' b'. exchange W index (text_websocket_setup W clk' clk'') request cb (c, b) = Ok (c', b') \<and>
    x_blockchain b' = x_blockchain a2 \<and> length (text_log b') = Suc (length (text_log a)) \<and>
    last (c_called c') = (cb, True, json_dump (w_api W) (json_null (w_api W))) \<and> ready c'"
proof -
  note library = json_wire.library [OF assms(1)]
  obtain data r where post: "text_blocks_post W clk data a = Some (Ok r, a1)"
    by (rule http_post_text_Ok [OF assms(6-9)])
  have cast: "text_broadcast_latest_block W a1 = (Ok (), a2)" using assms(10) by simp
  then obtain message where request: "request = json_object (w_api W)
      [(''target'', json_of_string (w_api W) ''/receive-latest-block''), (''data'', message)]"
    using assms(11) by (auto simp: text_broadcast_latest_block_def outcome_simps)
  then have "json_at (w_api W) request ''data'' = Ok message"
    by (simp add: json_library.at_object_lookup [OF library])
  from posted_text_reaches_peers [OF library assms(2-4) post cast assms(11) this assms(12-14)]
  obtain b' where b': "text_receive_latest_block W clk' message b = (Ok (json_null (w_api W)), b')"
    "x_blockchain b' = x_blockchain a2" by blast
  let ?c = "c\<lparr>c_written := c_written c @ [request],
    c_called := c_called c @ [(cb, True, json_dump (w_api W) (json_null (w_api W)))]\<rparr>"
  have "exchange W index (text_websocket_setup W clk' clk'') request cb (c, b) = Ok (?c, b')"
    using b'(1) assms(5)
    by (intro json_wire.exchange_answered [OF assms(1) request, where handler = "text_receive_latest_block W clk'"])
      (simp_all add: text_websocket_setup_def ws_support_def)
  moreover have "length (text_log b') = Suc (length (text_log a))"
  proof -
    have "length (m_blocks (x_blockchain a1)) = Suc (length (m_blocks (x_blockchain a)))"
      by (rule text_blocks_post_Ok [OF assms(2) post]) (simp add: text_detach_def)
    moreover have "x_blockchain a2 = x_blockchain a1"
      using cast by (cases "latest_block (x_blockchain a1)") (auto simp: text_broadcast_latest_block_def)
    ultimately show ?thesis by (simp add: text_log_def b'(2))
  qed
  moreover have "ready ?c" using assms(5) by (simp add: ready_def idle_def)
  ultimately show ?thesis using b'(2) by simp
qed


section \<open>Witnesses\<close>

lemma parsing_same: "text_blocks_post parsing_world = text_blocks_post example_world"
  "text_inv parsing_world = text_inv example_world"
proof -
  have "malformed what parsing_world = malformed what example_world" for what
    by (intro ext) (simp add: malformed_def)
  then show "text_blocks_post parsing_world = text_blocks_post example_world"
    unfolding text_blocks_post_def parsing_world_simps example_world_simps by (simp only:)
  show "text_inv parsing_world = text_inv example_world" by (intro ext) (simp add: text_inv_def)
qed

definition hello_request :: http_request where
  "hello_request = \<lparr>rq_target = ''/blocks'', rq_method = Post, rq_content_type = ''application/json'',
     rq_body = jval_dump (JString ''hello'')\<rparr>"

lemma hello_request_handled:
  "handle_request parsing_world (text_http_setup parsing_world (\<lambda>_. 1000)) hello_request example_text_node =
     Some (Ok \<lparr>rs_status = status_ok, rs_content_type = ''application/json'', rs_body = ''null''\<rparr>, hello_node)"
proof -
  have "parse_body parsing_world hello_request = Ok (Inr (JString ''hello''))"
    by (simp add: parse_body_def hello_request_def parsing_world_def jval_parse_dump quote_def del: jval_dump.simps)
      (simp add: quote_def)
  moreover have "http_handle parsing_world (text_http_setup parsing_world (\<lambda>_. 1000)) ''/blocks'' Post data n =
      text_blocks_post parsing_world (\<lambda>_. 1000) data n" for data n
    by (simp add: http_handle_def text_http_setup_def http_support_def)
  ultimately show ?thesis
    using example_hello_posted
    by (simp add: handle_request_def hello_request_def parsing_same render_def) (simp add: jval_api_def)
qed

theorem posted_text_travels_witness:
  "\<exists>a2 request c' b'. text_run_thread parsing_world Broadcast_latest_block hello_node = (Ok (), a2) \<and>
     exchange parsing_world jval_index (text_websocket_setup parsing_world (\<lambda>_. 2000) (\<lambda>_. 2000)) request ()
       (connection_new, example_text_node) = Ok (c', b') \<and>
     m_blocks (x_blockchain b') = [example_hello] \<and> last (c_called c') = ((), True, ''null'')"
proof -
  let ?request = "JObject [(''target'', JString ''/receive-latest-block''), (''data'',
      JObject [(''block'', block_to_json text_ops jval_api example_hello),
        (''origin'', text_origin_json jval_api hello_node)])]"
  have chain: "m_blocks (x_blockchain hello_node) = [example_hello]" "x_sent hello_node = []"
    "x_peers hello_node = [(''10.0.0.1'', 8333)]"
    by (simp_all add: hello_node_def text_detach_def example_text_node_def)
  let ?a2 = "hello_node\<lparr>x_sent := [(1, ?request)]\<rparr>"
  have cast: "text_run_thread parsing_world Broadcast_latest_block hello_node = (Ok (), ?a2)"
    by (simp add: text_broadcast_latest_block_def latest_block_def chain jval_api_def text_origin_json_def)
  have "\<exists>c' b'. exchange parsing_world jval_index (text_websocket_setup parsing_world (\<lambda>_. 2000) (\<lambda>_. 2000)) ?request ()
       (connection_new, example_text_node) = Ok (c', b') \<and> x_blockchain b' = x_blockchain ?a2 \<and>
       length (text_log b') = Suc (length (text_log example_text_node)) \<and>
       last (c_called c') = ((), True, json_dump (w_api parsing_world) (json_null (w_api parsing_world))) \<and> ready c'"
    by (rule posted_text_travels [OF parsing.json_wire_axioms _ _ refl ready_new _ _ hello_request_handled _ cast])
      (use example_text_inv in \<open>simp_all add: parsing_same hello_request_def chain\<close>, simp_all add: example_text_node_def)
  then obtain c' b' where run: "exchange parsing_world jval_index
      (text_websocket_setup parsing_world (\<lambda>_. 2000) (\<lambda>_. 2000)) ?request () (connection_new, example_text_node) = Ok (c', b')"
    and same: "x_blockchain b' = x_blockchain ?a2" and called: "last (c_called c') = ((), True, ''null'')"
    by (auto simp: jval_api_def)
  moreover have "m_blocks (x_blockchain b') = [example_hello]" using same chain(1) by simp
  ultimately show ?thesis using cast by blast
qed





end
