(* ===== verification/Dial.thy ===== *)
theory Dial
  imports Client
begin

text \<open>
  How a peer comes into being and ends: the constructors and destructors of \<open>src/web/websocket_client.cc\<close>
  (resolving, connecting, the handshake, closing), and the list of \<open>include/web/websocket_peer.h\<close> whose elements
  are such clients. The node only knows the addresses of its peers; this list refines it.
\<close>

section \<open>Model: a client\<close>

text \<open>
  The calls on the network: resolve a host and a service, connect to one of the endpoints, the
  WebSocket handshake with a user agent, a host and a target, and closing. Each may throw.
\<close>

record ('e, 's) net_api =
  nt_resolve :: "string \<Rightarrow> string \<Rightarrow> 'e outcome"
  nt_connect :: "'e \<Rightarrow> 's outcome"
  nt_handshake :: "'s \<Rightarrow> string \<Rightarrow> string \<Rightarrow> string \<Rightarrow> 's outcome"
  nt_close :: "'s \<Rightarrow> unit outcome"

record 'e client_context =
  cc_server :: 'e
  cc_server_url :: string

definition client_context_new :: "('e, 's) net_api \<Rightarrow> string \<Rightarrow> u16 \<Rightarrow> 'e client_context outcome" where
  "client_context_new N host port =
     map_outcome_val (\<lambda>server. \<lparr>cc_server = server, cc_server_url = host @ '':'' @ dec_word port\<rparr>)
       (nt_resolve N host (dec_word port))"

definition stream_new :: "('e, 's) net_api \<Rightarrow> 'e client_context \<Rightarrow> 's outcome" where
  "stream_new N ctx =
     bind_outcome (nt_connect N (cc_server ctx)) (\<lambda>m_stream.
       nt_handshake N m_stream ''BuenzliCoin/0.0.1 WebSocketClient'' (cc_server_url ctx) ''/'')"

record ('e, 's, 'j, 'c) client =
  wc_host :: string
  wc_port :: u16
  wc_context :: "'e client_context"
  wc_stream :: 's
  wc_connection :: "('j, 'c) connection"

definition client_new :: "('e, 's) net_api \<Rightarrow> string \<Rightarrow> u16 \<Rightarrow> ('e, 's, 'j, 'c) client outcome" where
  "client_new N host port =
     bind_outcome (client_context_new N host port) (\<lambda>ctx.
       map_outcome_val (\<lambda>m_stream. \<lparr>wc_host = host, wc_port = port, wc_context = ctx,
           wc_stream = m_stream, wc_connection = connection_new\<rparr>) (stream_new N ctx))"

text \<open>A destructor that throws ends the program: destructors are \<open>noexcept\<close>.\<close>

datatype destruction = Destroyed | Terminated

definition client_delete :: "('e, 's) net_api \<Rightarrow> ('e, 's, 'j, 'c) client \<Rightarrow> destruction outcome" where
  "client_delete N c =
     (case nt_close N (wc_stream c) of
        Ok _ \<Rightarrow> Ok Destroyed
      | Throw _ \<Rightarrow> Ok Terminated
      | Undef \<Rightarrow> Undef)"

section \<open>Model: the peers\<close>

definition client_address :: "('e, 's, 'j, 'c) client \<Rightarrow> string \<times> u16" where
  "client_address c = (wc_host c, wc_port c)"

definition peer_list_add ::
    "('e, 's) net_api \<Rightarrow> string \<Rightarrow> u16 \<Rightarrow> ('e, 's, 'j, 'c) client list \<Rightarrow> (nat, ('e, 's, 'j, 'c) client list) call" where
  "peer_list_add N host port m_list =
     (case client_new N host port of
        Ok c \<Rightarrow> (Ok (length (m_list @ [c])), m_list @ [c])
      | Throw e \<Rightarrow> (Throw e, m_list)
      | Undef \<Rightarrow> (Undef, m_list))"

definition peer_list_send ::
    "'j world \<Rightarrow> ('j \<Rightarrow> string \<Rightarrow> 'j outcome) \<Rightarrow> (nat \<Rightarrow> completion) \<Rightarrow> nat \<Rightarrow> 'j \<Rightarrow> 'c \<Rightarrow>
     ('e, 's, 'j, 'c) client list \<Rightarrow> ('e, 's, 'j, 'c) client list outcome" where
  "peer_list_send W index net peer_id request cb m_list =
     (if peer_id = 0 \<or> length m_list < peer_id then Undef
      else map_outcome_val (\<lambda>c. m_list[peer_id - 1 := (m_list ! (peer_id - 1))\<lparr>wc_connection := c\<rparr>])
             (peer_send W index net request cb (wc_connection (m_list ! (peer_id - 1)))))"

text \<open>When the list is destroyed, every client is, unless one of them has ended the program.\<close>

fun peer_list_delete :: "('e, 's) net_api \<Rightarrow> ('e, 's, 'j, 'c) client list \<Rightarrow> destruction outcome" where
  "peer_list_delete N [] = Ok Destroyed"
| "peer_list_delete N (c # cs) =
     bind_outcome (client_delete N c) (\<lambda>d. if d = Terminated then Ok Terminated else peer_list_delete N cs)"

section \<open>The list refines the addresses of the node\<close>

definition connects :: "('e, 's) net_api \<Rightarrow> string \<Rightarrow> u16 \<Rightarrow> unit outcome" where
  "connects N host port =
     bind_outcome (client_context_new N host port) (\<lambda>ctx. map_outcome_val (\<lambda>_. ()) (stream_new N ctx))"

lemma client_new_connects:
  fixes N :: "('a, 'b) net_api"
  shows "client_new N host port = Ok (c :: ('a, 'b, 'c, 'd) client) \<Longrightarrow> connects N host port = Ok ()"
    and "client_new N host port = (Throw e :: ('a, 'b, 'c, 'd) client outcome) \<Longrightarrow> connects N host port = Throw e"
    and "client_new N host port = (Undef :: ('a, 'b, 'c, 'd) client outcome) \<Longrightarrow> connects N host port = Undef"
proof -
  have "connects N host port = map_outcome_val (\<lambda>_. ()) (client_new N host port :: ('a, 'b, 'c, 'd) client outcome)"
  proof (cases "client_context_new N host port")
    case (Ok ctx)
    then show ?thesis by (cases "stream_new N ctx") (simp_all add: connects_def client_new_def)
  qed (simp_all add: connects_def client_new_def)
  then show "client_new N host port = Ok (c :: ('a, 'b, 'c, 'd) client) \<Longrightarrow> connects N host port = Ok ()"
    "client_new N host port = (Throw e :: ('a, 'b, 'c, 'd) client outcome) \<Longrightarrow> connects N host port = Throw e"
    "client_new N host port = (Undef :: ('a, 'b, 'c, 'd) client outcome) \<Longrightarrow> connects N host port = Undef"
    by simp_all
qed

lemma client_new_address: "client_new N host port = Ok c \<Longrightarrow> client_address c = (host, port)"
  by (auto simp: client_new_def client_address_def outcome_simps)

lemma peer_list_add_refines:
  fixes m_list :: "('e, 's, 'j, 'c) client list"
  shows "peers_add (W\<lparr>w_connect := connects N\<rparr>) host port (map client_address m_list) =
     map_prod id (map client_address) (peer_list_add N host port m_list)"
  by (cases "client_new N host port :: ('e, 's, 'j, 'c) client outcome")
    (simp_all add: peers_add_def peer_list_add_def client_new_connects client_new_address)

lemma peer_list_send_refines:
  "peers_send W index net peer_id request cb (map wc_connection m_list) =
     map_outcome_val (map wc_connection) (peer_list_send W index net peer_id request cb m_list)"
  by (cases "peer_send W index net request cb (wc_connection (m_list ! (peer_id - 1)))")
    (auto simp: peers_send_def peer_list_send_def map_outcome_val_def map_update)

lemma map_update_same: "f x = f (xs ! i) \<Longrightarrow> map f (xs[i := x]) = map f xs"
  by (cases "i < length xs") (simp_all add: map_update list_update_same_conv list_update_beyond)

lemma peer_list_send_addresses:
  "peer_list_send W index net peer_id request cb m_list = Ok m_list' \<Longrightarrow>
     map client_address m_list' = map client_address m_list"
  by (auto simp: peer_list_send_def outcome_simps client_address_def intro!: map_update_same split: if_splits)

section \<open>The peers as a machine\<close>

text \<open>The \<open>t\<close>-th call sees the network \<open>net t\<close>. A failed call leaves the list as it is.\<close>

datatype ('j, 'c) peer_op = Add_peer nat string u16 | Send_to "nat \<Rightarrow> completion" nat 'j 'c

fun peer_list_step ::
    "(nat \<Rightarrow> ('e, 's) net_api) \<Rightarrow> 'j world \<Rightarrow> ('j \<Rightarrow> string \<Rightarrow> 'j outcome) \<Rightarrow> ('j, 'c) peer_op \<Rightarrow>
     ('e, 's, 'j, 'c) client list \<Rightarrow> ('e, 's, 'j, 'c) client list outcome" where
  "peer_list_step net W index (Add_peer t host port) m_list = settle (peer_list_add (net t) host port m_list)"
| "peer_list_step net W index (Send_to answers peer_id request cb) m_list =
     peer_list_send W index answers peer_id request cb m_list"

text \<open>The stream of a client was connected to, and shook hands with, the address of the client.\<close>

definition dialled :: "(nat \<Rightarrow> ('e, 's) net_api) \<Rightarrow> string \<times> u16 \<Rightarrow> 's \<Rightarrow> bool" where
  "dialled net a s \<longleftrightarrow> (\<exists>t server s0. nt_resolve (net t) (fst a) (dec_word (snd a)) = Ok server \<and>
     nt_connect (net t) server = Ok s0 \<and>
     nt_handshake (net t) s0 ''BuenzliCoin/0.0.1 WebSocketClient'' (fst a @ '':'' @ dec_word (snd a)) ''/'' = Ok s)"

definition peer_ok :: "(nat \<Rightarrow> ('e, 's) net_api) \<Rightarrow> ('e, 's, 'j, 'c) client \<Rightarrow> bool" where
  "peer_ok net c \<longleftrightarrow> dialled net (client_address c) (wc_stream c) \<and> idle (wc_connection c)"

lemma client_new_ok: "client_new (net t) host port = Ok c \<Longrightarrow> peer_ok net c"
  unfolding peer_ok_def dialled_def
  by (rule conjI, rule exI [of _ t])
    (auto simp: client_new_def client_context_new_def stream_new_def client_address_def idle_def connection_new_def
      outcome_simps)

lemma peer_list_step_ok:
  assumes "list_all (peer_ok net) m_list" and "peer_list_step net W index op m_list = Ok m_list'"
  shows "list_all (peer_ok net) m_list'"
proof (cases op)
  case (Add_peer t host port)
  with assms show ?thesis
    by (auto simp: peer_list_add_def client_new_ok split: outcome.splits)
next
  case (Send_to answers peer_id request cb)
  let ?k = "peer_id - 1"
  from Send_to assms(2) obtain c where k: "?k < length m_list"
    and c: "peer_send W index answers request cb (wc_connection (m_list ! ?k)) = Ok c"
    and m: "m_list' = m_list[?k := (m_list ! ?k)\<lparr>wc_connection := c\<rparr>]"
    by (auto simp: peer_list_send_def outcome_simps split: if_splits)
  have ok: "peer_ok net (m_list ! ?k)" using assms(1) k by (simp add: list_all_length)
  then have "idle (wc_connection (m_list ! ?k))" by (simp add: peer_ok_def)
  from peer_send_idle [OF this] c have "idle c" by (metis outcome.inject(1))
  with ok have "peer_ok net ((m_list ! ?k)\<lparr>wc_connection := c\<rparr>)"
    by (simp add: peer_ok_def client_address_def)
  with assms(1) show ?thesis
    by (auto simp: m list_all_iff dest!: set_update_subset_insert [THEN subsetD])
qed

interpretation peer_list: invariant_machine "list_all (peer_ok net)" "peer_list_step net W index"
  for net :: "nat \<Rightarrow> ('e, 's) net_api" and W :: "'j world" and index
  by unfold_locales (rule peer_list_step_ok)

lemma peers_find_from_address:
  "peers_find_from i host port ps = k \<Longrightarrow> k \<noteq> 0 \<Longrightarrow> 0 < i \<Longrightarrow>
     i \<le> k \<and> k < i + length ps \<and> ps ! (k - i) = (host, port)"
proof (induction ps arbitrary: i)
  case (Cons p ps)
  show ?case
  proof (cases "p = (host, port)")
    case True
    with Cons.prems show ?thesis by (cases p) auto
  next
    case False
    with Cons.prems have "peers_find_from (Suc i) host port ps = k" by (cases p) (auto split: if_splits)
    with Cons.IH [of "Suc i"] Cons.prems show ?thesis by (auto simp: nth_Cons' Suc_diff_le)
  qed
qed simp

section \<open>Properties\<close>

text \<open>
  C34. A peer that is found under an address is that address: after any additions, failed ones
  included, and any requests, the client that \<open>find\<close> numbers for a host and a port exists, its stream
  was connected to this host and port and shook hands under this name, and it waits for nothing,
  so a request sent to it never starts a second operation on the stream.
\<close>

theorem found_peer_is_dialled:
  assumes "fold_outcome (\<lambda>m_list op. peer_list_step net W index op m_list) [] ops = Ok m_list"
    and "peers_find host port (map client_address m_list) = k" and "k \<noteq> 0"
  shows "k \<le> length m_list \<and> dialled net (host, port) (wc_stream (m_list ! (k - 1))) \<and>
    (\<exists>m_list'. peer_list_send W index answers k request cb m_list = Ok m_list')"
proof -
  have ok: "list_all (peer_ok net) m_list" by (rule peer_list.run_inv [OF _ assms(1)]) simp
  from assms(2,3) have k: "1 \<le> k \<and> k \<le> length m_list \<and> map client_address m_list ! (k - 1) = (host, port)"
    using peers_find_from_address [of 1 host port "map client_address m_list" k] by (simp add: peers_find_def)
  then have "k - 1 < length m_list" by linarith
  with ok have "peer_ok net (m_list ! (k - 1))" by (simp add: list_all_length)
  moreover from this obtain c where
    "peer_send W index answers request cb (wc_connection (m_list ! (k - 1))) = Ok c"
    by (auto simp: peer_ok_def elim: peer_send_idle)
  ultimately show ?thesis using k by (auto simp: peer_ok_def peer_list_send_def)
qed

text \<open>
  A peer that has gone ends the program: closing its stream fails in a destructor, so when \<open>main\<close> has
  returned and the node is destroyed, the program does not exit but is terminated.
\<close>

lemma lost_peer_terminates:
  assumes "list_all (\<lambda>c. nt_close N (wc_stream c) \<noteq> Undef) m_list"
  shows "peer_list_delete N m_list =
    Ok (if list_all (\<lambda>c. is_Ok (nt_close N (wc_stream c))) m_list then Destroyed else Terminated)"
  using assms by (induction m_list) (auto simp: client_delete_def split: outcome.split)

section \<open>Witnesses\<close>

text \<open>A network with one host, which answers from its second call on.\<close>

definition example_net :: "nat \<Rightarrow> (string, string) net_api" where
  "example_net t = \<lparr>nt_resolve = (\<lambda>host service. if host = ''peer'' then Ok (host @ ''/'' @ service)
       else Throw (Exn System_error ''Host not found'')),
     nt_connect = (\<lambda>server. if 0 < t then Ok server else Throw (Exn System_error ''Connection refused'')),
     nt_handshake = (\<lambda>s agent host target. Ok s), nt_close = (\<lambda>_. Ok ())\<rparr>"

theorem found_peer_is_dialled_witness:
  "\<exists>m_list :: (string, string, jval, unit) client list.
     fold_outcome (\<lambda>m_list op. peer_list_step example_net example_world jval_index op m_list) []
       [Add_peer 0 ''peer'' 8332, Add_peer 1 ''nobody'' 8332, Add_peer 2 ''peer'' 8332] = Ok m_list \<and>
     dialled example_net (''peer'', 8332) (wc_stream (hd m_list))"
proof -
  let ?c = "\<lparr>wc_host = ''peer'', wc_port = 8332,
    wc_context = \<lparr>cc_server = ''peer/8332'', cc_server_url = ''peer:8332''\<rparr>, wc_stream = ''peer/8332'',
    wc_connection = connection_new\<rparr> :: (string, string, jval, unit) client"
  have run: "fold_outcome (\<lambda>m_list op. peer_list_step example_net example_world jval_index op m_list) []
       [Add_peer 0 ''peer'' 8332, Add_peer 1 ''nobody'' 8332, Add_peer 2 ''peer'' 8332] = Ok [?c]"
    by (simp add: peer_list_add_def client_new_def client_context_new_def stream_new_def example_net_def
        dec.simps digit_char_def map_outcome_val_def) code_simp
  have "peers_find ''peer'' 8332 (map client_address [?c]) = 1"
    by (simp add: peers_find_def client_address_def)
  from found_peer_is_dialled [OF run this] run show ?thesis by auto
qed

end
