(* ===== verification/Python.thy ===== *)
theory Python
  imports Text_Node
begin

text \<open>
  The module \<open>bc\<close> of \<open>src/python.cc\<close> that the integration tests load: methods on blocks and chains, the
  global configuration, and hashing, signing and verifying with digests as hexadecimal strings. The
  macro \<open>TRANSACTION\<close> that would select blocks with transactions is defined nowhere (the build defines
  \<open>TRANSACTIONS\<close>), so the module always has text blocks.
\<close>

section \<open>Model: blocks and chains\<close>

definition py_block_data :: "'j json_api \<Rightarrow> text_data block \<Rightarrow> 'j" where
  "py_block_data J b = text_to_json J (b_data b)"

definition py_block_hash :: "text_data block \<Rightarrow> string" where
  "py_block_hash self = digest_to_string (b_hash self)"

definition py_block_valid :: "'j env \<Rightarrow> time_point \<Rightarrow> text_data block \<Rightarrow> bool outcome" where
  "py_block_valid E now self = map_outcome_val fst (block_valid text_ops E now self)"

definition py_block_from_json :: "'j json_api \<Rightarrow> 'j \<Rightarrow> text_data block outcome" where
  "py_block_from_json J j = block_from_json text_ops J j"

definition all_blocks :: "'d blockchain \<Rightarrow> 'd block list" where
  "all_blocks c = m_blocks c"

definition empty_chain :: "'d blockchain \<Rightarrow> bool" where
  "empty_chain c \<longleftrightarrow> m_blocks c = []"

definition py_chain_valid :: "'j env \<Rightarrow> (nat \<Rightarrow> time_point) \<Rightarrow> text_data blockchain \<Rightarrow> bool outcome" where
  "py_chain_valid E clk self = map_outcome_val fst (chain_valid text_ops E clk self)"

definition py_chain_from_json :: "'j env \<Rightarrow> (nat \<Rightarrow> time_point) \<Rightarrow> 'j \<Rightarrow> text_data blockchain outcome" where
  "py_chain_from_json E clk j = chain_from_json text_ops E clk j"

section \<open>Model: configuration\<close>

text \<open>Assignments to the attributes of \<open>bc.config()\<close>, a reference to the global configuration.\<close>

datatype config_assignment =
    Time_expected time_interval | Time_max_delta time_interval | Difficulty_init double
  | Difficulty_adjust_after u64 | Difficulty_factor_limit double | Reward_amount u64

fun py_assign :: "config_assignment \<Rightarrow> config \<Rightarrow> config" where
  "py_assign (Time_expected v) C = C\<lparr>blockgen_time_expected := v\<rparr>"
| "py_assign (Time_max_delta v) C = C\<lparr>blockgen_time_max_delta := v\<rparr>"
| "py_assign (Difficulty_init v) C = C\<lparr>blockgen_difficulty_init := v\<rparr>"
| "py_assign (Difficulty_adjust_after v) C = C\<lparr>blockgen_difficulty_adjust_after := v\<rparr>"
| "py_assign (Difficulty_factor_limit v) C = C\<lparr>blockgen_difficulty_adjust_factor_limit := v\<rparr>"
| "py_assign (Reward_amount v) C = C\<lparr>transaction_reward_amount := v\<rparr>"

section \<open>Model: keys and hashing\<close>

text \<open>The constructors keep the key in its PEM form.\<close>

definition py_sign :: "evp_api \<Rightarrow> u64 \<Rightarrow> string \<Rightarrow> string \<Rightarrow> string outcome" where
  "py_sign A garbage key hex_hash =
     bind_outcome (digest_from_string hex_hash) (\<lambda>hash.
       map_outcome_val digest_to_string (private_key_sign A garbage (private_key key) hash))"

definition py_verify :: "evp_api \<Rightarrow> string \<Rightarrow> string \<Rightarrow> string \<Rightarrow> bool outcome" where
  "py_verify A key hex_hash hex_signature =
     bind_outcome (digest_from_string hex_hash) (\<lambda>hash.
     bind_outcome (digest_from_string hex_signature) (\<lambda>signature.
       public_key_verify A (public_key key) hash signature))"

definition py_hash :: "evp_api \<Rightarrow> string \<Rightarrow> string outcome" where
  "py_hash A msg = map_outcome_val digest_to_string (hasher_hash A msg)"

section \<open>Lemmas\<close>

text \<open>A hash that Python sees identifies the digest.\<close>

lemma py_block_hash_inject: "py_block_hash b = py_block_hash b' \<longleftrightarrow> b_hash b = b_hash b'"
  by (simp add: py_block_hash_def digest_to_string_inject)

lemma py_hash_parses: "py_hash A msg = Ok s \<Longrightarrow> \<exists>d. hasher_hash A msg = Ok d \<and> digest_from_string s = Ok d"
  by (auto simp: py_hash_def outcome_simps from_to_string)

text \<open>The chain of a text node, as the tests list it: the same blocks, for a clock that is not behind.\<close>

lemma py_lists_text_chain:
  assumes "json_library (w_api W)"
    and "append_blocks text_ops (w_env W) clk 0 bs (blockchain_init (cfg (w_env W))) = Ok (x_blockchain n)"
    and "\<And>k. sint (clk k) \<le> sint (clk' k)"
    and "text_blocks_get W n = (Ok (status_ok, answer), n)"
  shows "py_chain_from_json (w_env W) clk' answer = Ok (x_blockchain n)"
  using json_library.reload_text_chain [OF assms(1) refl assms(2,3)] assms(4)
  by (simp add: py_chain_from_json_def text_blocks_get_def)

text \<open>
  Two keys belong together when the context made from the public key accepts every signature that
  the context made from the private key produces.
\<close>

definition matching_keys :: "evp_api \<Rightarrow> u64 \<Rightarrow> string \<Rightarrow> string \<Rightarrow> bool" where
  "matching_keys A garbage priv pub \<longleftrightarrow>
     (\<exists>bio skey vkey pkey sctx vctx.
        bio_new_mem_buf A priv = Some bio \<and> pem_read_bio_ec_private_key A bio priv = Some skey \<and>
        pkey_new A = Some pkey \<and> pkey_ctx_new A pkey skey = Some sctx \<and>
        read_public_key A pub = Ok (Some vkey) \<and> pkey_assign_ec_key A pkey vkey = 1 \<and>
        pkey_ctx_new A pkey vkey = Some vctx \<and> pkey_verify_init A vctx = 1 \<and>
        (\<forall>h sig. pkey_sign A sctx garbage h = (1, sig) \<longrightarrow> pkey_verify A vctx sig h = 1))"

section \<open>Properties\<close>

text \<open>
  C39. Signing and verifying from Python fit together: whenever signing the hexadecimal text of a hash
  succeeds, the text it returns verifies for the same hash under the matching public key, whatever
  the upper or lower case of the digits in the given hash.
\<close>

theorem py_sign_verifies:
  assumes "matching_keys A garbage (private_key priv) (public_key pub)"
    and "py_sign A garbage priv hex_hash = Ok hex_signature"
  shows "py_verify A pub hex_hash hex_signature = Ok True"
proof -
  from assms(2) obtain hash sig where hash: "digest_from_string hex_hash = Ok hash"
    and sign: "private_key_sign A garbage (private_key priv) hash = Ok sig"
    and printed: "hex_signature = digest_to_string sig"
    by (auto simp: py_sign_def outcome_simps)
  from assms(1) obtain bio skey vkey pkey sctx vctx where keys:
      "bio_new_mem_buf A (private_key priv) = Some bio" "pem_read_bio_ec_private_key A bio (private_key priv) = Some skey"
      "pkey_new A = Some pkey" "pkey_ctx_new A pkey skey = Some sctx"
    and vkeys: "read_public_key A (public_key pub) = Ok (Some vkey)" "pkey_assign_ec_key A pkey vkey = 1"
      "pkey_ctx_new A pkey vkey = Some vctx" "pkey_verify_init A vctx = 1"
    and law: "\<And>h sig. pkey_sign A sctx garbage h = (1, sig) \<Longrightarrow> pkey_verify A vctx sig h = 1"
    unfolding matching_keys_def by blast
  from sign keys have "pkey_sign A sctx garbage hash = (1, sig)"
    by (auto simp: private_key_sign_def read_private_key_def evp_error_def split: if_splits prod.splits)
  from law [OF this] keys(3) vkeys have "public_key_verify A (public_key pub) hash sig = Ok True"
    by (simp add: public_key_verify_def Let_def)
  with hash printed show ?thesis by (simp add: py_verify_def from_to_string)
qed

theorem py_sign_verifies_witness:
  "py_sign example_evp 0 ''key'' ''ABcd'' = Ok ''abcd'' \<and> py_verify example_evp ''key'' ''ABcd'' ''abcd'' = Ok True"
proof -
  have "matching_keys example_evp 0 (private_key ''key'') (public_key ''key'')"
    by (simp add: matching_keys_def example_evp_def read_public_key_def)
  moreover have "py_sign example_evp 0 ''key'' ''ABcd'' = Ok ''abcd''"
    by (simp add: py_sign_def private_key_sign_def read_private_key_def example_evp_def char_to_nibble_def Let_def
        push_bit_eq_mult hex_byte_def) code_simp
  ultimately show ?thesis using py_sign_verifies by blast
qed

text \<open>
  The module cannot read the chain of a node that is built with transactions: when the JSON library
  does not take an array for a string, loading any chain but the empty one fails.
\<close>

theorem py_rejects_transaction_chain:
  assumes "json_library (api E)" and "\<And>js s. json_get_string (api E) (json_array (api E) js) \<noteq> Ok s"
    and "m_blocks c \<noteq> []"
  shows "\<not> is_Ok (py_chain_from_json E clk (chain_to_json transaction_list_ops (api E) c))"
proof -
  obtain b bs where c: "m_blocks c = b # bs" using assms(3) by (cases "m_blocks c") auto
  have at: "json_at (api E) (block_to_json transaction_list_ops (api E) b) ''data'' =
      Ok (transaction_list_to_json (api E) (b_data b))"
    using json_library.at_object_lookup [OF assms(1)]
    by (simp add: block_to_json_def transaction_list_ops_def split: option.split)
  have "\<not> is_Ok (block_from_json text_ops (api E) (block_to_json transaction_list_ops (api E) b))"
    using assms(2) at
    by (cases "json_get_string (api E) (transaction_list_to_json (api E) (b_data b))")
      (auto simp: block_from_json_def text_ops_def text_from_json_def transaction_list_to_json_def)
  then show ?thesis
    using json_library.elems_array [OF assms(1)]
    by (cases "block_from_json text_ops (api E) (block_to_json transaction_list_ops (api E) b)")
      (auto simp: py_chain_from_json_def chain_from_json_def chain_to_json_def c)
qed

theorem py_rejects_transaction_chain_witness:
  "\<not> is_Ok (py_chain_from_json (example_env False) (\<lambda>_. 1000)
     (chain_to_json transaction_list_ops jval_api
       ((blockchain_init from_defaults)\<lparr>m_blocks := [example_genesis]\<rparr>)))"
  using py_rejects_transaction_chain [of "example_env False"
      "(blockchain_init from_defaults)\<lparr>m_blocks := [example_genesis]\<rparr>" "\<lambda>_. 1000"]
    jval.json_library_axioms
  by (simp add: jval_api_def json_type_error_def)

end
