(* ===== verification/Schema.thy ===== *)
theory Schema
  imports Text_Node
begin

text \<open>
  The types of the JSON messages. A schema says which members a value has, how the program accesses
  them and what type they have; a value has the type exactly when the program parses it without an
  exception and without undefined behaviour, and what nodes send has the type. What happens to
  a request that lacks a member is shown as well.
\<close>

section \<open>Schemas\<close>

text \<open>
  A member is read with \<open>operator[]\<close> of a constant value, with \<open>json_get\<close>, or with \<open>operator[]\<close> after
  asking whether it is there.
\<close>

datatype access = By_index | By_get | If_present

datatype schema = S_u64 | S_u16 | S_string | S_digest | S_one_of "string list" | S_list schema
  | S_object "(string \<times> access \<times> schema) list"

fun read_member :: "'j json_api \<Rightarrow> access \<Rightarrow> 'j \<Rightarrow> string \<Rightarrow> 'j option outcome" where
  "read_member J By_index j k = map_outcome_val Some (json_at J j k)"
| "read_member J By_get j k = map_outcome_val Some (json_get J j k)"
| "read_member J If_present j k = (if json_contains J j k then map_outcome_val Some (json_at J j k) else Ok None)"

definition member_ok :: "('j \<Rightarrow> bool) \<Rightarrow> 'j option outcome \<Rightarrow> bool" where
  "member_ok P r = (case r of Ok None \<Rightarrow> True | Ok (Some v) \<Rightarrow> P v | _ \<Rightarrow> False)"

fun has_type :: "'j json_api \<Rightarrow> schema \<Rightarrow> 'j \<Rightarrow> bool" where
  "has_type J S_u64 j = is_Ok (json_get_u64 J j)"
| "has_type J S_u16 j = is_Ok (json_get_u16 J j)"
| "has_type J S_string j = is_Ok (json_get_string J j)"
| "has_type J S_digest j = is_Ok (bind_outcome (json_get_string J j) digest_from_string)"
| "has_type J (S_one_of ss) j = list_ex (json_eq_string J j) ss"
| "has_type J (S_list s) j = list_all (has_type J s) (json_elems J j)"
| "has_type J (S_object fs) j = list_all (\<lambda>(k, a, s). member_ok (has_type J s) (read_member J a j k)) fs"

definition txi_schema :: schema where
  "txi_schema = S_object [(''output_hash'', By_get, S_digest), (''output_index'', By_get, S_u64),
     (''signature'', By_get, S_digest)]"

definition txo_schema :: schema where
  "txo_schema = S_object [(''amount'', By_get, S_u64), (''address'', By_get, S_string)]"

definition transaction_schema :: schema where
  "transaction_schema = S_object [(''type'', By_get, S_one_of [''standard'', ''reward'']),
     (''index'', By_get, S_u64), (''hash'', By_get, S_digest), (''inputs'', By_get, S_list txi_schema),
     (''outputs'', By_get, S_list txo_schema)]"

definition block_schema :: "schema \<Rightarrow> schema" where
  "block_schema data = S_object [(''data'', By_index, data), (''timestamp'', By_index, S_u64),
     (''nonce'', By_index, S_u64), (''index'', By_index, S_u64), (''hash'', By_index, S_digest),
     (''hash_prev'', If_present, S_digest)]"

definition address_schema :: schema where
  "address_schema = S_object [(''host'', By_index, S_string), (''port'', By_index, S_u16)]"

section \<open>Typed values parse\<close>

lemma is_Ok_bind [simp]: "is_Ok (bind_outcome m f) \<longleftrightarrow> (case m of Ok x \<Rightarrow> is_Ok (f x) | _ \<Rightarrow> False)"
  by (cases m) simp_all

lemma is_Ok_True: "is_Ok (Ok x)"
  by simp

text \<open>A sequence of parsing steps succeeds when each step does.\<close>

lemma is_Ok_sequence:
  "(\<And>x. is_Ok (f x) \<longleftrightarrow> P) \<Longrightarrow> is_Ok (bind_outcome m f) \<longleftrightarrow> is_Ok m \<and> P"
  "(\<And>x. is_Ok (f x)) \<Longrightarrow> is_Ok (bind_outcome m f) \<longleftrightarrow> is_Ok m"
  by (cases m; simp)+

lemma is_Ok_map_val [simp]: "is_Ok (map_outcome_val f m) \<longleftrightarrow> is_Ok m"
  by (cases m) (simp_all add: map_outcome_val_def)

lemma is_Ok_map_outcomes: "is_Ok (map_outcomes f xs) \<longleftrightarrow> list_all (\<lambda>x. is_Ok (f x)) xs"
  by (induction xs) (auto split: outcome.splits)

lemma member_ok_simps [simp]:
  "member_ok P (read_member J By_index j k) \<longleftrightarrow> (case json_at J j k of Ok v \<Rightarrow> P v | _ \<Rightarrow> False)"
  "member_ok P (read_member J By_get j k) \<longleftrightarrow> (case json_get J j k of Ok v \<Rightarrow> P v | _ \<Rightarrow> False)"
  "member_ok P (read_member J If_present j k) \<longleftrightarrow>
     (json_contains J j k \<longrightarrow> (case json_at J j k of Ok v \<Rightarrow> P v | _ \<Rightarrow> False))"
  by (auto simp: member_ok_def map_outcome_val_def read_member.simps split: outcome.split)

declare read_member.simps [simp del]

lemmas schema_defs = txi_schema_def txo_schema_def transaction_schema_def block_schema_def address_schema_def

lemma txi_typed: "is_Ok (txi_from_json J j) \<longleftrightarrow> has_type J txi_schema j"
  by (auto simp: txi_from_json_def txi_schema_def json_get_digest_def bind_outcome_assoc split: outcome.splits)

lemma txo_typed: "is_Ok (txo_from_json J j) \<longleftrightarrow> has_type J txo_schema j"
  by (auto simp: txo_from_json_def txo_schema_def bind_outcome_assoc split: outcome.splits)

lemma transaction_type_typed:
  "is_Ok (transaction_type_from_json J j) \<longleftrightarrow>
     (case json_get J j ''type'' of Ok v \<Rightarrow> has_type J (S_one_of [''standard'', ''reward'']) v | _ \<Rightarrow> False)"
  by (auto simp: transaction_type_from_json_def split: outcome.splits)

lemma transaction_typed: "is_Ok (transaction_from_json J j) \<longleftrightarrow> has_type J transaction_schema j"
proof -
  have lists: "is_Ok (map_outcomes (txi_from_json J) js) \<longleftrightarrow> list_all (has_type J txi_schema) js"
    "is_Ok (map_outcomes (txo_from_json J) js) \<longleftrightarrow> list_all (has_type J txo_schema) js" for js
    by (simp_all add: is_Ok_map_outcomes txi_typed txo_typed)
  have "is_Ok (transaction_from_json J j) \<longleftrightarrow>
      is_Ok (transaction_type_from_json J j) \<and>
      is_Ok (bind_outcome (json_get J j ''index'') (json_get_u64 J)) \<and>
      is_Ok (json_get_digest J j ''hash'') \<and>
      is_Ok (bind_outcome (json_get J j ''inputs'') (\<lambda>v. map_outcomes (txi_from_json J) (json_elems J v))) \<and>
      is_Ok (bind_outcome (json_get J j ''outputs'') (\<lambda>v. map_outcomes (txo_from_json J) (json_elems J v)))"
    unfolding transaction_from_json_def by (intro is_Ok_sequence is_Ok_True)
  then show ?thesis
    by (auto simp: transaction_schema_def transaction_type_typed json_get_digest_def lists split: outcome.splits)
qed

lemma block_typed:
  assumes "\<And>j. is_Ok (d_from_json D J j) \<longleftrightarrow> has_type J data j"
  shows "is_Ok (block_from_json D J j) \<longleftrightarrow> has_type J (block_schema data) j"
proof -
  have "is_Ok (block_from_json D J j) \<longleftrightarrow>
      is_Ok (bind_outcome (json_at J j ''data'') (d_from_json D J)) \<and>
      is_Ok (bind_outcome (json_at J j ''timestamp'') (json_get_u64 J)) \<and>
      is_Ok (bind_outcome (json_at J j ''nonce'') (json_get_u64 J)) \<and>
      is_Ok (bind_outcome (json_at J j ''index'') (json_get_u64 J)) \<and>
      is_Ok (json_at_digest J j ''hash'') \<and>
      is_Ok (if json_contains J j ''hash_prev'' then map_outcome_val Some (json_at_digest J j ''hash_prev'') else Ok None)"
    unfolding block_from_json_def by (intro is_Ok_sequence is_Ok_True)
  then show ?thesis
    by (auto simp: block_schema_def json_at_digest_def assms split: outcome.splits)
qed

lemma transaction_list_typed:
  "is_Ok (d_from_json transaction_list_ops J j) \<longleftrightarrow> has_type J (S_list transaction_schema) j"
  by (simp add: transaction_list_ops_def transaction_list_from_json_def is_Ok_map_outcomes transaction_typed)

lemma text_typed: "is_Ok (d_from_json text_ops J j) \<longleftrightarrow> has_type J S_string j"
  by (simp add: text_ops_def text_from_json_def)

section \<open>Requests\<close>

text \<open>
  The documentation of the JSON library on \<open>operator[]\<close> of a constant object: a key that is not there is
  undefined behaviour.
\<close>

definition missing_key_undefined :: "'j json_api \<Rightarrow> bool" where
  "missing_key_undefined J \<longleftrightarrow> (\<forall>kvs k. distinct (map fst kvs) \<longrightarrow> k \<notin> fst ` set kvs \<longrightarrow>
     json_at J (json_object J kvs) k = Undef)"

lemma jval_missing_key: "missing_key_undefined jval_api"
proof -
  have "map_of kvs k = None" if "k \<notin> fst ` set kvs" for kvs :: "(string \<times> jval) list" and k
    using that by (simp only: map_of_eq_None_iff) simp
  then show ?thesis by (simp add: missing_key_undefined_def jval_api_def)
qed

text \<open>The members of a transaction as it is sent, and an object without one of its members.\<close>

definition transaction_members :: "'j json_api \<Rightarrow> transaction \<Rightarrow> (string \<times> 'j) list" where
  "transaction_members J t =
     [(''type'', json_of_string J (case t_type t of STANDARD \<Rightarrow> ''standard'' | REWARD \<Rightarrow> ''reward'')),
      (''index'', json_of_u64 J (t_index t)),
      (''hash'', json_of_string J (digest_to_string (t_hash t))),
      (''inputs'', json_array J (map (txi_to_json J) (t_inputs t))),
      (''outputs'', json_array J (map (txo_to_json J) (t_outputs t)))]"

definition without :: "string \<Rightarrow> (string \<times> 'j) list \<Rightarrow> (string \<times> 'j) list" where
  "without k kvs = filter (\<lambda>kv. fst kv \<noteq> k) kvs"

lemma transaction_members: "transaction_to_json J t = json_object J (transaction_members J t)"
  by (simp add: transaction_to_json_def transaction_members_def)

context json_library
begin

lemma transaction_without_member:
  assumes "k \<in> {''type'', ''index'', ''hash'', ''inputs'', ''outputs''}"
  shows "transaction_from_json J (json_object J (without k (transaction_members J t))) =
    Throw (Exn Invalid_argument (''nonexistent key: '' @ k))"
  using assms
  by (cases "t_type t") (auto simp: transaction_from_json_def transaction_type_from_json_def transaction_members_def
      without_def json_get_digest_def get_object get_string get_u64 eq_string elems_array from_to_string
      txis_roundtrip)

end

section \<open>Properties\<close>

text \<open>
  C18. Parsing and types agree: a JSON value is parsed as a block or transaction, without an exception
  and without undefined behaviour, exactly when it has the type of one, and whatever a node
  writes for a block or a transaction has that type.
\<close>

theorem messages_well_typed:
  assumes "json_library J"
  shows "is_Ok (block_from_json transaction_list_ops J j) = has_type J (block_schema (S_list transaction_schema)) j \<and>
    is_Ok (block_from_json text_ops J j) = has_type J (block_schema S_string) j \<and>
    is_Ok (transaction_from_json J j) = has_type J transaction_schema j \<and>
    has_type J (block_schema (S_list transaction_schema)) (block_to_json transaction_list_ops J b) \<and>
    has_type J (block_schema S_string) (block_to_json text_ops J b') \<and>
    has_type J transaction_schema (transaction_to_json J t)"
proof -
  note blocks = block_typed [OF transaction_list_typed] block_typed [OF text_typed]
  have "has_type J (block_schema (S_list transaction_schema)) (block_to_json transaction_list_ops J b)"
    using json_library.transactions_block_roundtrip [OF assms] by (simp flip: blocks(1))
  moreover have "has_type J (block_schema S_string) (block_to_json text_ops J b')"
    using json_library.text_block_roundtrip [OF assms] by (simp flip: blocks(2))
  moreover have "has_type J transaction_schema (transaction_to_json J t)"
    using json_library.transaction_roundtrip [OF assms] by (simp flip: transaction_typed)
  ultimately show ?thesis by (simp add: blocks transaction_typed)
qed

text \<open>
  C19. An object that lacks one member which a handler reads is undefined behaviour, whatever else it
  holds: \<open>address\<close> of a request to mine, \<open>file\<close> of one to persist, \<open>host\<close> or, when there is a host, \<open>port\<close> of
  a peer, \<open>block\<close> of a latest block, its \<open>origin\<close> when the block is valid and ahead of the chain, \<open>blockchain\<close>
  of all blocks: these handlers use \<open>operator[]\<close> on a constant value. A transaction without one of its
  members is rejected instead, by \<open>json_get\<close>, and the node stays as it was.
\<close>

theorem missing_member_is_undefined:
  assumes "json_library (w_api W)" and "missing_key_undefined (w_api W)" and "distinct (map fst kvs)"
    and "data = json_object (w_api W) kvs"
  shows "(''address'' \<notin> fst ` set kvs \<longrightarrow> handle_blocks_post W clk data n = Some (Undef, n)) \<and>
    (''file'' \<notin> fst ` set kvs \<longrightarrow> handle_blocks_persist_post W data n = (Undef, n)) \<and>
    (''host'' \<notin> fst ` set kvs \<longrightarrow> handle_peers_post W data n = (Undef, n)) \<and>
    (map_of kvs ''host'' = Some (json_of_string (w_api W) host) \<and> ''port'' \<notin> fst ` set kvs \<longrightarrow>
      handle_peers_post W data n = (Undef, n)) \<and>
    (''block'' \<notin> fst ` set kvs \<longrightarrow> handle_receive_latest_block W clk data n = (Undef, n)) \<and>
    (map_of kvs ''block'' = Some block \<and> block_from_json transaction_list_ops (w_api W) block = Ok b \<and>
      block_valid transaction_list_ops (w_env W) (clk 0) (link_block (n_unspent_outputs n) b) = Ok (True, []) \<and>
      chain_length (n_blockchain n) < b_index b \<and> ''origin'' \<notin> fst ` set kvs \<longrightarrow>
      handle_receive_latest_block W clk data n = (Undef, n)) \<and>
    (''blockchain'' \<notin> fst ` set kvs \<longrightarrow> handle_receive_all_blocks W clk clk' data n = (Undef, n)) \<and>
    (\<forall>k \<in> {''type'', ''index'', ''hash'', ''inputs'', ''outputs''}. \<exists>e e'.
      handle_transactions_post W (json_object (w_api W) (without k (transaction_members (w_api W) t))) n =
        (Throw (Exn (HTTPError status_bad_request) e), n) \<and>
      handle_receive_transaction W (json_object (w_api W) (without k (transaction_members (w_api W) t))) n =
        (Throw (Exn WebSocketError e'), n))"
proof -
  let ?J = "w_api W"
  have missing: "json_at ?J data k = Undef" if "k \<notin> fst ` set kvs" for k
    using assms(2-4) that by (simp add: missing_key_undefined_def)
  have there: "json_at ?J data k = Ok v" if "map_of kvs k = Some v" for k v
    using json_library.at_object_lookup [OF assms(1,3) that] assms(4) by simp
  have transaction: "\<exists>e e'.
      handle_transactions_post W (json_object ?J (without k (transaction_members ?J t))) n =
        (Throw (Exn (HTTPError status_bad_request) e), n) \<and>
      handle_receive_transaction W (json_object ?J (without k (transaction_members ?J t))) n =
        (Throw (Exn WebSocketError e'), n)"
    if "k \<in> {''type'', ''index'', ''hash'', ''inputs'', ''outputs''}" for k
    using json_library.transaction_without_member [OF assms(1) that, of t]
    by (simp add: handle_transactions_post_def handle_receive_transaction_def)
  have origin: "handle_receive_latest_block W clk data n = (Undef, n)"
    if "map_of kvs ''block'' = Some block" "block_from_json transaction_list_ops ?J block = Ok b"
      "block_valid transaction_list_ops (w_env W) (clk 0) (link_block (n_unspent_outputs n) b) = Ok (True, [])"
      "chain_length (n_blockchain n) < b_index b" "''origin'' \<notin> fst ` set kvs"
    using that there missing by (simp add: handle_receive_latest_block_def receive_block_def place_block_def ask_origin_def)
  show ?thesis
    using transaction origin missing there [of "''host''"] json_library.get_string [OF assms(1)]
    by (auto simp: handle_blocks_post_def handle_blocks_persist_post_def handle_peers_post_def peer_address_def
        handle_receive_latest_block_def receive_block_def handle_receive_all_blocks_def receive_chain_def)
qed

theorem messages_well_typed_witness:
  "has_type jval_api (block_schema (S_list transaction_schema)) (block_to_json transaction_list_ops jval_api example_genesis) \<and>
   \<not> has_type jval_api (block_schema (S_list transaction_schema)) (JObject [])"
proof -
  note typed = messages_well_typed [OF jval.json_library_axioms]
  have "\<not> is_Ok (block_from_json transaction_list_ops jval_api (JObject []))"
    by (simp add: block_from_json_def jval_api_def)
  then show ?thesis
    using typed [of "JObject []" example_genesis] by blast
qed

theorem missing_member_is_undefined_witness:
  "handle_peers_post example_world (JObject [(''host'', JString ''10.0.0.2'')]) example_node = (Undef, example_node) \<and>
   handle_blocks_post example_world (\<lambda>_. 1000) (JObject [(''host'', JString ''10.0.0.2'')]) example_node =
     Some (Undef, example_node)"
proof -
  let ?kvs = "[(''host'', JString ''10.0.0.2'')]"
  have "json_library (w_api example_world)" "missing_key_undefined (w_api example_world)"
    using jval.json_library_axioms jval_missing_key by simp_all
  from missing_member_is_undefined [OF this, of ?kvs "JObject ?kvs" "\<lambda>_. 1000" example_node "''10.0.0.2''"]
  show ?thesis by (simp add: jval_api_def)
qed

end
