(* ===== verification/Wallet.thy ===== *)
theory Wallet
  imports Network Json_Text
begin

text \<open>
  The wallet program \<open>bwallet/bwallet.go\<close>: the wallets file, key files and the subcommands that talk to
  a node over HTTP. A Go \<open>error\<close> result is an exception of kind \<open>Runtime_error\<close>, a panic one of kind
  \<open>Logic_error\<close>; a Go \<open>int\<close> is a 64-bit word read with its sign. Paths, lines of a scanner, flags and
  the decoding of JSON into structs follow the Go standard library; its cryptography, the text of JSON
  and the operating system are the records \<open>go_lib\<close> and \<open>go_os\<close>.
\<close>

section \<open>Model: the Go library\<close>

text \<open>
  A parsed JSON value. \<open>GInt\<close> is an integer literal of any size, \<open>GOther\<close> a Boolean or a number with
  a fraction or an exponent: no value that the wallet reads accepts one.
\<close>

datatype gval = GNull | GOther | GInt int | GString string | GArray "gval list"
  | GObject "(string \<times> gval) list"

record 'k go_lib =
  unmarshal_text :: "string \<Rightarrow> gval option"
  marshal_text :: "gval \<Rightarrow> string"
  sum256 :: "string \<Rightarrow> digest"
  generate_key :: "'k option"
  marshal_private_key :: "'k \<Rightarrow> u8 list option"
  marshal_public_key :: "'k \<Rightarrow> u8 list option"
  parse_private_key :: "u8 list \<Rightarrow> 'k option"
  pem_encode :: "string \<Rightarrow> u8 list \<Rightarrow> string"
  pem_decode :: "string \<Rightarrow> u8 list option"
  sign_asn1 :: "'k \<Rightarrow> digest \<Rightarrow> digest option"
  parse_int :: "string \<Rightarrow> u64 option"
  error_text :: "string \<Rightarrow> string"

record go_os =
  getenv :: "string \<Rightarrow> string"
  user_home_dir :: "string option"
  stat_error :: "string \<Rightarrow> string option"
  mkdir_error :: "string \<Rightarrow> string option"
  open_error :: "string \<Rightarrow> string option"
  write_error :: "string \<Rightarrow> string option"

definition go_error :: "string \<Rightarrow> 'a outcome" where
  "go_error msg = Throw (Exn Runtime_error msg)"

definition panic :: "string \<Rightarrow> 'a outcome" where
  "panic msg = Throw (Exn Logic_error msg)"

definition os_result :: "string option \<Rightarrow> unit outcome" where
  "os_result r = (case r of None \<Rightarrow> Ok () | Some msg \<Rightarrow> go_error msg)"

text \<open>A library call that returns a value and an error.\<close>

definition lib_result :: "'k go_lib \<Rightarrow> string \<Rightarrow> 'a option \<Rightarrow> 'a outcome" where
  "lib_result L f r = (case r of Some x \<Rightarrow> Ok x | None \<Rightarrow> go_error (error_text L f))"

definition itoa :: "u64 \<Rightarrow> string" where
  "itoa w = (if sint w < 0 then ''-'' @ dec (nat (- sint w)) else dec (nat (sint w)))"

text \<open>\<open>hex.EncodeToString\<close> and \<open>base64.StdEncoding.EncodeToString\<close>.\<close>

definition hex_encode :: "u8 list \<Rightarrow> string" where
  "hex_encode bs = concat (map (\<lambda>b. [hex_digit (unat b div 16), hex_digit (unat b mod 16)]) bs)"

definition base64_digit :: "nat \<Rightarrow> char" where
  "base64_digit n =
     (if n < 26 then char_of (65 + n) else if n < 52 then char_of (71 + n)
      else if n < 62 then char_of (n - 4) else if n = 62 then CHR ''+'' else CHR ''/'')"

fun base64_encode :: "u8 list \<Rightarrow> string" where
  "base64_encode (a # b # c # bs) =
     (let n = unat a * 65536 + unat b * 256 + unat c
      in [base64_digit (n div 262144), base64_digit (n div 4096 mod 64),
          base64_digit (n div 64 mod 64), base64_digit (n mod 64)] @ base64_encode bs)"
| "base64_encode [a, b] =
     (let n = unat a * 256 + unat b
      in [base64_digit (n div 1024), base64_digit (n div 16 mod 64), base64_digit (n mod 16 * 4), CHR ''=''])"
| "base64_encode [a] =
     [base64_digit (unat a div 4), base64_digit (unat a mod 4 * 16), CHR ''='', CHR ''='']"
| "base64_encode [] = []"

definition trim :: "char \<Rightarrow> string \<Rightarrow> string" where
  "trim c s = rev (dropWhile ((=) c) (rev (dropWhile ((=) c) s)))"

text \<open>\<open>filepath.Join\<close> of two elements and \<open>filepath.Clean\<close>.\<close>

fun split_on :: "char \<Rightarrow> string \<Rightarrow> string list" where
  "split_on c [] = [[]]"
| "split_on c (x # xs) =
     (if x = c then [] # split_on c xs
      else (case split_on c xs of w # ws \<Rightarrow> (x # w) # ws | [] \<Rightarrow> [[x]]))"

definition clean_step :: "bool \<Rightarrow> string list \<Rightarrow> string \<Rightarrow> string list" where
  "clean_step rooted stack e =
     (if e = [] \<or> e = ''.'' then stack
      else if e = ''..'' then
        (if stack \<noteq> [] \<and> hd stack \<noteq> ''..'' then tl stack
         else if rooted then stack else e # stack)
      else e # stack)"

fun join_with :: "string \<Rightarrow> string list \<Rightarrow> string" where
  "join_with sep [] = []"
| "join_with sep [s] = s"
| "join_with sep (s # ss) = s @ sep @ join_with sep ss"

definition clean_path :: "string \<Rightarrow> string" where
  "clean_path path =
     (let rooted = path \<noteq> [] \<and> hd path = CHR ''/'';
          body = join_with ''/'' (rev (foldl (clean_step rooted) [] (split_on (CHR ''/'') path)))
      in if rooted then ''/'' @ body else if body = [] then ''.'' else body)"

definition path_join :: "string \<Rightarrow> string \<Rightarrow> string" where
  "path_join a b =
     (if a = [] \<and> b = [] then []
      else clean_path (if a = [] then b else if b = [] then a else a @ ''/'' @ b))"

text \<open>
  \<open>bufio.Scanner\<close>: lines without their end, a line of 64 KiB stops it, and \<open>Err()\<close> would tell.
\<close>

definition strip_cr :: "string \<Rightarrow> string" where
  "strip_cr s = (if s \<noteq> [] \<and> last s = CHR 0x0D then butlast s else s)"

function scan_lines :: "string \<Rightarrow> string list" where
  "scan_lines s =
     (if s = [] then []
      else let l = takeWhile (\<lambda>c. c \<noteq> CHR 0x0A) s
           in if 65536 \<le> length l then [] else strip_cr l # scan_lines (drop (Suc (length l)) s))"
  by pat_completeness auto
termination by (relation "measure length") auto

declare scan_lines.simps [simp del]

text \<open>Decoding into structs: names ignore case, the last member with a name counts, null changes nothing.\<close>

definition lower_char :: "char \<Rightarrow> char" where
  "lower_char c =
     (let n = of_char c :: nat in if 65 \<le> n \<and> n \<le> 90 then char_of (n + 32) else c)"

definition go_member :: "(string \<times> gval) list \<Rightarrow> string \<Rightarrow> gval" where
  "go_member kvs name =
     (case map_of (rev (map (\<lambda>(k, v). (map lower_char k, v)) kvs)) name of Some v \<Rightarrow> v | None \<Rightarrow> GNull)"

fun decode_int :: "gval \<Rightarrow> u64 option" where
  "decode_int GNull = Some 0"
| "decode_int (GInt i) = (if - (2 ^ 63) \<le> i \<and> i < 2 ^ 63 then Some (word_of_int i) else None)"
| "decode_int v = None"

fun decode_string :: "gval \<Rightarrow> string option" where
  "decode_string GNull = Some []"
| "decode_string (GString s) = Some s"
| "decode_string v = None"

fun decode_members :: "gval \<Rightarrow> (string \<times> gval) list option" where
  "decode_members GNull = Some []"
| "decode_members (GObject kvs) = Some kvs"
| "decode_members v = None"

fun decode_slice :: "(gval \<Rightarrow> 'a option) \<Rightarrow> gval \<Rightarrow> 'a list option" where
  "decode_slice d GNull = Some []"
| "decode_slice d (GArray vs) = those (map d vs)"
| "decode_slice d v = None"

section \<open>Model: data\<close>

record wallet =
  wl_name :: string
  wl_key :: string
  wl_address :: string

record go_input =
  gi_output_hash :: string
  gi_output_index :: u64
  gi_signature :: string

record go_output =
  go_amount :: u64
  go_address :: string

record go_unspent =
  gu_output_hash :: string
  gu_output_index :: u64
  gu_output :: go_output

record go_transaction =
  gt_type :: string
  gt_index :: u64
  gt_hash :: string
  gt_inputs :: "go_input list"
  gt_outputs :: "go_output list"

fun bind_option :: "'a option \<Rightarrow> ('a \<Rightarrow> 'b option) \<Rightarrow> 'b option" where
  "bind_option None f = None"
| "bind_option (Some x) f = f x"

definition decode_input :: "gval \<Rightarrow> go_input option" where
  "decode_input v =
     bind_option (decode_members v) (\<lambda>kvs.
     bind_option (decode_string (go_member kvs ''output_hash'')) (\<lambda>h.
     bind_option (decode_int (go_member kvs ''output_index'')) (\<lambda>i.
     bind_option (decode_string (go_member kvs ''signature'')) (\<lambda>s.
       Some \<lparr>gi_output_hash = h, gi_output_index = i, gi_signature = s\<rparr>))))"

definition decode_output :: "gval \<Rightarrow> go_output option" where
  "decode_output v =
     bind_option (decode_members v) (\<lambda>kvs.
     bind_option (decode_int (go_member kvs ''amount'')) (\<lambda>amount.
     bind_option (decode_string (go_member kvs ''address'')) (\<lambda>address.
       Some \<lparr>go_amount = amount, go_address = address\<rparr>)))"

definition decode_unspent :: "gval \<Rightarrow> go_unspent option" where
  "decode_unspent v =
     bind_option (decode_members v) (\<lambda>kvs.
     bind_option (decode_string (go_member kvs ''output_hash'')) (\<lambda>h.
     bind_option (decode_int (go_member kvs ''output_index'')) (\<lambda>i.
     bind_option (decode_output (go_member kvs ''output'')) (\<lambda>out.
       Some \<lparr>gu_output_hash = h, gu_output_index = i, gu_output = out\<rparr>))))"

definition decode_transaction :: "gval \<Rightarrow> go_transaction option" where
  "decode_transaction v =
     bind_option (decode_members v) (\<lambda>kvs.
     bind_option (decode_string (go_member kvs ''type'')) (\<lambda>type.
     bind_option (decode_int (go_member kvs ''index'')) (\<lambda>index.
     bind_option (decode_string (go_member kvs ''hash'')) (\<lambda>hash.
     bind_option (decode_slice decode_input (go_member kvs ''inputs'')) (\<lambda>inputs.
     bind_option (decode_slice decode_output (go_member kvs ''outputs'')) (\<lambda>outputs.
       Some \<lparr>gt_type = type, gt_index = index, gt_hash = hash, gt_inputs = inputs,
             gt_outputs = outputs\<rparr>))))))"

definition encode_input :: "go_input \<Rightarrow> gval" where
  "encode_input i = GObject
     [(''output_hash'', GString (gi_output_hash i)), (''output_index'', GInt (sint (gi_output_index i))),
      (''signature'', GString (gi_signature i))]"

definition encode_output :: "go_output \<Rightarrow> gval" where
  "encode_output out = GObject
     [(''amount'', GInt (sint (go_amount out))), (''address'', GString (go_address out))]"

definition encode_transaction :: "go_transaction \<Rightarrow> gval" where
  "encode_transaction t = GObject
     [(''type'', GString (gt_type t)), (''index'', GInt (sint (gt_index t))), (''hash'', GString (gt_hash t)),
      (''inputs'', GArray (map encode_input (gt_inputs t))),
      (''outputs'', GArray (map encode_output (gt_outputs t)))]"

section \<open>Model: state and calls\<close>

text \<open>
  The files with their contents, the directories, the text printed, the two global variables and
  the state of the nodes that requests can reach.
\<close>

record 'n wallet_state =
  ws_files :: "string \<rightharpoonup> string"
  ws_dirs :: "string list"
  ws_printed :: string
  buenzliDir :: string
  buenzliNode :: string
  ws_network :: 'n

text \<open>What answers a request to a host; no result when the answer never comes.\<close>

type_synonym 'n http_server = "string \<Rightarrow> http_request \<Rightarrow> 'n \<Rightarrow> (http_response, 'n) call option"

fun then_reply :: "('a, 's) call option \<Rightarrow> ('a \<Rightarrow> 's \<Rightarrow> ('b, 's) call option) \<Rightarrow> ('b, 's) call option" where
  "then_reply None f = None"
| "then_reply (Some (Ok x, s)) f = f x s"
| "then_reply (Some (Throw e, s)) f = Some (Throw e, s)"
| "then_reply (Some (Undef, s)) f = Some (Undef, s)"

text \<open>\<open>http.Get\<close> and \<open>http.Post\<close> fail when the connection ends without a response.\<close>

definition http_do :: "'n http_server \<Rightarrow> http_request \<Rightarrow> 'n wallet_state \<Rightarrow> (http_response, 'n wallet_state) call option" where
  "http_do srv rq s =
     (case srv (buenzliNode s) rq (ws_network s) of
        None \<Rightarrow> None
      | Some (r, n) \<Rightarrow> Some (case r of Ok response \<Rightarrow> Ok response | Throw e \<Rightarrow> go_error (what e) | Undef \<Rightarrow> Undef,
          s\<lparr>ws_network := n\<rparr>))"

definition http_get :: "'n http_server \<Rightarrow> string \<Rightarrow> 'n wallet_state \<Rightarrow> (http_response, 'n wallet_state) call option" where
  "http_get srv target s = http_do srv
     \<lparr>rq_target = target, rq_method = Get, rq_content_type = [], rq_body = []\<rparr> s"

definition http_post :: "'n http_server \<Rightarrow> string \<Rightarrow> string \<Rightarrow> 'n wallet_state \<Rightarrow> (http_response, 'n wallet_state) call option" where
  "http_post srv target body s = http_do srv
     \<lparr>rq_target = target, rq_method = Post, rq_content_type = ''application/json'', rq_body = body\<rparr> s"

definition unmarshal :: "'k go_lib \<Rightarrow> (gval \<Rightarrow> 'a option) \<Rightarrow> string \<Rightarrow> 'a outcome" where
  "unmarshal L decode body =
     lib_result L ''json.Unmarshal'' (bind_option (unmarshal_text L body) decode)"

section \<open>Model: the wallet program\<close>

definition getBuenzliDir :: "go_os \<Rightarrow> 'n wallet_state \<Rightarrow> (string, 'n wallet_state) call" where
  "getBuenzliDir os s =
     then_call
       (if getenv os ''BUENZLI_DIR'' \<noteq> [] then (Ok (getenv os ''BUENZLI_DIR''), s)
        else (case user_home_dir os of
                None \<Rightarrow> (go_error ''$HOME is not defined'', s)
              | Some home \<Rightarrow> (Ok (path_join home ''.buenzli''), s)))
       (\<lambda>dir s. case stat_error os dir of
          Some msg \<Rightarrow> (go_error msg, s)
        | None \<Rightarrow>
            if dir \<in> set (ws_dirs s) \<or> ws_files s dir \<noteq> None then (Ok dir, s)
            else then_call (os_result (mkdir_error os dir), s) (\<lambda>_ s.
              (Ok dir, s\<lparr>ws_dirs := dir # ws_dirs s\<rparr>)))"

definition getBuenzliNode :: "go_os \<Rightarrow> string outcome" where
  "getBuenzliNode os =
     (if getenv os ''BUENZLI_NODE'' = [] then go_error ''BUENZLI_NODE not set''
      else Ok (getenv os ''BUENZLI_NODE''))"

text \<open>
  The regular expression \<^verbatim>\<open>([[:alnum:]]*) (.*) ([A-Za-z0-9+/=]*)\<close>, which is not anchored: at one
  position both repetitions in front of a space are as long as they can be, and the leftmost
  position with a match wins.
\<close>

definition is_alnum :: "char \<Rightarrow> bool" where
  "is_alnum c = (let n = of_char c :: nat in
     48 \<le> n \<and> n \<le> 57 \<or> 65 \<le> n \<and> n \<le> 90 \<or> 97 \<le> n \<and> n \<le> 122)"

definition is_base64 :: "char \<Rightarrow> bool" where
  "is_base64 c \<longleftrightarrow> is_alnum c \<or> c = CHR ''+'' \<or> c = CHR ''/'' \<or> c = CHR ''=''"

definition match_here :: "string \<Rightarrow> (string \<times> string \<times> string) option" where
  "match_here s =
     (case dropWhile is_alnum s of
        [] \<Rightarrow> None
      | c # t \<Rightarrow>
          if c = CHR '' '' \<and> CHR '' '' \<in> set t
          then let tail = rev (takeWhile (\<lambda>c. c \<noteq> CHR '' '') (rev t))
               in Some (takeWhile is_alnum s, take (length t - Suc (length tail)) t, takeWhile is_base64 tail)
          else None)"

fun wallet_match :: "string \<Rightarrow> (string \<times> string \<times> string) option" where
  "wallet_match [] = None"
| "wallet_match (c # s) = (case match_here (c # s) of Some m \<Rightarrow> Some m | None \<Rightarrow> wallet_match s)"

definition parse_wallet :: "string \<Rightarrow> string \<Rightarrow> wallet outcome" where
  "parse_wallet dir line =
     (case wallet_match line of
        None \<Rightarrow> go_error (''malformed wallet identifier '' @ apos line)
      | Some (name, key, address) \<Rightarrow>
          Ok \<lparr>wl_name = name, wl_key = path_join dir key, wl_address = address\<rparr>)"

definition wallets_path :: "'n wallet_state \<Rightarrow> string" where
  "wallets_path s = path_join (buenzliDir s) ''wallets''"

text \<open>\<open>os.OpenFile\<close> with \<open>O_CREATE\<close>: a missing file comes to exist.\<close>

definition open_wallets :: "go_os \<Rightarrow> 'n wallet_state \<Rightarrow> (string, 'n wallet_state) call" where
  "open_wallets os s =
     (case open_error os (wallets_path s) of
        Some msg \<Rightarrow> (go_error msg, s)
      | None \<Rightarrow> (case ws_files s (wallets_path s) of
          Some contents \<Rightarrow> (Ok contents, s)
        | None \<Rightarrow> (Ok [], s\<lparr>ws_files := (ws_files s)(wallets_path s \<mapsto> [])\<rparr>)))"

definition getWallets :: "go_os \<Rightarrow> 'n wallet_state \<Rightarrow> (wallet list, 'n wallet_state) call" where
  "getWallets os s =
     then_call (open_wallets os s) (\<lambda>contents s.
       (map_outcomes (parse_wallet (buenzliDir s)) (scan_lines contents), s))"

definition findWallet :: "go_os \<Rightarrow> string \<Rightarrow> 'n wallet_state \<Rightarrow> (wallet option, 'n wallet_state) call" where
  "findWallet os name s =
     then_call (getWallets os s) (\<lambda>ws s. (Ok (find (\<lambda>w. wl_name w = name) ws), s))"

text \<open>The two checks that most subcommands start with.\<close>

definition locate :: "go_os \<Rightarrow> string \<Rightarrow> 'n wallet_state \<Rightarrow> (wallet, 'n wallet_state) call" where
  "locate os name s =
     then_call (findWallet os name s) (\<lambda>w s. case w of
        None \<Rightarrow> (go_error (''wallet '' @ apos name @ '' does not exist''), s)
      | Some w \<Rightarrow> (Ok w, s))"

definition walletUnspentOutputs ::
    "'k go_lib \<Rightarrow> 'n http_server \<Rightarrow> wallet \<Rightarrow> 'n wallet_state \<Rightarrow> (go_unspent list, 'n wallet_state) call option" where
  "walletUnspentOutputs L srv w s =
     then_reply (http_get srv ''/transactions/unspent'' s) (\<lambda>response s.
     then_reply (Some (unmarshal L (decode_slice decode_unspent) (rs_body response), s)) (\<lambda>us s.
       Some (Ok (filter (\<lambda>u. go_address (gu_output u) = wl_address w) us), s)))"

text \<open>A new key is written to its file before its text is complete, and the entry is added last.\<close>

definition createWallet ::
    "'k go_lib \<Rightarrow> go_os \<Rightarrow> string \<Rightarrow> 'n wallet_state \<Rightarrow> (unit, 'n wallet_state) call" where
  "createWallet L os name s =
     then_call (findWallet os name s) (\<lambda>w s.
     if w \<noteq> None then (go_error (''wallet '' @ apos name @ '' already exist''), s) else
     then_call (lib_result L ''ecdsa.GenerateKey'' (generate_key L), s) (\<lambda>key s.
     let file = ''id_ecdsa_'' @ name; path = path_join (buenzliDir s) file in
     then_call (os_result (open_error os path), s) (\<lambda>_ s.
     let s = s\<lparr>ws_files := (ws_files s)(path \<mapsto> [])\<rparr> in
     then_call (lib_result L ''x509.MarshalECPrivateKey'' (marshal_private_key L key), s) (\<lambda>private s.
     then_call (os_result (write_error os path), s) (\<lambda>_ s.
     let s = s\<lparr>ws_files := (ws_files s)(path \<mapsto> pem_encode L ''EC PRIVATE KEY'' private)\<rparr> in
     then_call (lib_result L ''x509.MarshalPKIXPublicKey'' (marshal_public_key L key), s) (\<lambda>public s.
     let address = trim (CHR ''='') (base64_encode public) in
     then_call (open_wallets os s) (\<lambda>contents s.
     then_call (os_result (write_error os (wallets_path s)), s) (\<lambda>_ s.
     (Ok (), s\<lparr>ws_files := (ws_files s)(wallets_path s \<mapsto>
        contents @ name @ '' '' @ file @ '' '' @ address @ [CHR 0x0A])\<rparr>)))))))))"

text \<open>The body is the address as a JSON string; the status of the response is not looked at.\<close>

definition mineIntoWallet ::
    "'k go_lib \<Rightarrow> go_os \<Rightarrow> 'n http_server \<Rightarrow> string \<Rightarrow> 'n wallet_state \<Rightarrow> (unit, 'n wallet_state) call option" where
  "mineIntoWallet L os srv name s =
     then_reply (Some (locate os name s)) (\<lambda>w s.
     then_reply (http_post srv ''/blocks'' (marshal_text L (GString (wl_address w))) s) (\<lambda>_ s.
       Some (Ok (), s)))"

definition balance_of :: "go_unspent list \<Rightarrow> u64" where
  "balance_of us = foldl (\<lambda>balance u. balance + go_amount (gu_output u)) 0 us"

definition walletBalance ::
    "'k go_lib \<Rightarrow> go_os \<Rightarrow> 'n http_server \<Rightarrow> string \<Rightarrow> 'n wallet_state \<Rightarrow> (u64, 'n wallet_state) call option" where
  "walletBalance L os srv name s =
     then_reply (Some (locate os name s)) (\<lambda>w s.
     then_reply (walletUnspentOutputs L srv w s) (\<lambda>us s.
       Some (Ok (balance_of us), s)))"

text \<open>The loop over the unspent outputs, from a total on: the inputs taken and the total reached.\<close>

fun collect_inputs :: "u64 \<Rightarrow> go_unspent list \<Rightarrow> u64 \<Rightarrow> go_input list \<times> u64" where
  "collect_inputs amount [] acc = ([], acc)"
| "collect_inputs amount (u # us) acc =
     (let i = \<lparr>gi_output_hash = gu_output_hash u, gi_output_index = gu_output_index u, gi_signature = []\<rparr>;
          acc' = acc + go_amount (gu_output u)
      in if amount \<le>s acc' then ([i], acc')
         else (case collect_inputs amount us acc' of (is, acc'') \<Rightarrow> (i # is, acc'')))"

definition transfer_outputs :: "wallet \<Rightarrow> string \<Rightarrow> u64 \<Rightarrow> u64 \<Rightarrow> go_output list" where
  "transfer_outputs w to amount funds =
     \<lparr>go_amount = amount, go_address = to\<rparr> #
     (if amount <s funds then [\<lparr>go_amount = funds - amount, go_address = wl_address w\<rparr>] else [])"

definition go_hash_input :: "go_transaction \<Rightarrow> string" where
  "go_hash_input t =
     itoa (gt_index t) @
     concat (map (\<lambda>i. gi_output_hash i @ itoa (gi_output_index i)) (gt_inputs t)) @
     concat (map (\<lambda>out. itoa (go_amount out) @ go_address out) (gt_outputs t))"

definition sign_inputs :: "digest \<Rightarrow> digest \<Rightarrow> go_transaction \<Rightarrow> go_transaction" where
  "sign_inputs hash signature t = t\<lparr>gt_hash := hex_encode hash,
     gt_inputs := map (\<lambda>i. i\<lparr>gi_signature := hex_encode signature\<rparr>) (gt_inputs t)\<rparr>"

text \<open>Reading the key file and signing; a file without a PEM block makes \<open>keyBlock\<close> a nil pointer.\<close>

definition wallet_sign ::
    "'k go_lib \<Rightarrow> go_os \<Rightarrow> wallet \<Rightarrow> digest \<Rightarrow> 'n wallet_state \<Rightarrow> (digest, 'n wallet_state) call" where
  "wallet_sign L os w hash s =
     (bind_outcome (os_result (open_error os (wl_key w))) (\<lambda>_.
      bind_outcome (case ws_files s (wl_key w) of
          Some contents \<Rightarrow> Ok contents | None \<Rightarrow> go_error (''open '' @ wl_key w)) (\<lambda>contents.
      bind_outcome (case pem_decode L contents of
          Some block \<Rightarrow> Ok block | None \<Rightarrow> panic ''nil pointer dereference'') (\<lambda>block.
      bind_outcome (lib_result L ''x509.ParseECPrivateKey'' (parse_private_key L block)) (\<lambda>key.
      lib_result L ''ecdsa.SignASN1'' (sign_asn1 L key hash))))), s)"

definition walletTransfer ::
    "'k go_lib \<Rightarrow> go_os \<Rightarrow> 'n http_server \<Rightarrow> string \<Rightarrow> string \<Rightarrow> u64 \<Rightarrow> 'n wallet_state \<Rightarrow>
     (unit, 'n wallet_state) call option" where
  "walletTransfer L os srv from_name to amount s =
     then_reply (Some (locate os from_name s)) (\<lambda>w s.
     then_reply (walletUnspentOutputs L srv w s) (\<lambda>us s.
     then_reply (http_get srv ''/transactions/latest'' s) (\<lambda>response s.
     then_reply (Some (unmarshal L (decode_slice decode_transaction) (rs_body response), s)) (\<lambda>latest s.
     then_reply (Some (if latest = [] then panic ''index out of range'' else Ok (gt_index (hd latest) + 1), s)) (\<lambda>index s.
     case collect_inputs amount us 0 of (inputs, funds) \<Rightarrow>
       if funds <s amount then Some (go_error ''insufficient funds'', s)
       else let t = \<lparr>gt_type = ''standard'', gt_index = index, gt_hash = [], gt_inputs = inputs,
                     gt_outputs = transfer_outputs w to amount funds\<rparr>;
                hash = sum256 L (go_hash_input t)
            in then_reply (Some (wallet_sign L os w hash s)) (\<lambda>signature s.
               then_reply (http_post srv ''/transactions''
                   (marshal_text L (encode_transaction (sign_inputs hash signature t))) s) (\<lambda>_ s.
                 Some (Ok (), s))))))))"

section \<open>Model: command line\<close>

text \<open>
  A flag set of the \<open>flag\<close> package with \<open>ExitOnError\<close>: the flags with their values so far, \<open>Inl\<close> the
  exit status when parsing ends the program. \<open>True\<close> marks an integer flag.
\<close>

type_synonym flag_values = "(string \<times> bool \<times> string) list"

fun set_flag :: "string \<Rightarrow> string \<Rightarrow> flag_values \<Rightarrow> flag_values" where
  "set_flag name v [] = []"
| "set_flag name v ((n, is_int, old) # fs) =
     (if n = name then (n, is_int, v) # fs else (n, is_int, old) # set_flag name v fs)"

text \<open>One argument: \<open>None\<close> when it ends the flags, else the name and the value given with \<open>=\<close>.\<close>

definition split_flag :: "string \<Rightarrow> (nat + string \<times> string option) option" where
  "split_flag a =
     (if length a < 2 \<or> hd a \<noteq> CHR ''-'' \<or> a = ''--'' then None
      else let name = drop (if a ! 1 = CHR ''-'' then 2 else 1) a
           in if name = [] \<or> hd name = CHR ''-'' \<or> hd name = CHR ''='' then Some (Inl 2)
              else let n = takeWhile (\<lambda>c. c \<noteq> CHR ''='') name
                   in Some (Inr (n, if n = name then None else Some (drop (Suc (length n)) name))))"

definition unknown_flag :: "string \<Rightarrow> nat" where
  "unknown_flag name = (if name = ''help'' \<or> name = ''h'' then 0 else 2)"

definition assign_flag :: "'k go_lib \<Rightarrow> string \<Rightarrow> string \<Rightarrow> flag_values \<Rightarrow> nat + flag_values" where
  "assign_flag L name v fs =
     (case map_of fs name of
        None \<Rightarrow> Inl (unknown_flag name)
      | Some (is_int, _) \<Rightarrow>
          if is_int \<and> parse_int L v = None then Inl 2 else Inr (set_flag name v fs))"

fun parse_flags :: "'k go_lib \<Rightarrow> string list \<Rightarrow> flag_values \<Rightarrow> nat + flag_values" where
  "parse_flags L [] fs = Inr fs"
| "parse_flags L (a # as) fs =
     (case split_flag a of
        None \<Rightarrow> Inr fs
      | Some (Inl status) \<Rightarrow> Inl status
      | Some (Inr (name, Some v)) \<Rightarrow>
          (case assign_flag L name v fs of Inl status \<Rightarrow> Inl status | Inr fs \<Rightarrow> parse_flags L as fs)
      | Some (Inr (name, None)) \<Rightarrow>
          (case as of
             [] \<Rightarrow> Inl (if map_of fs name = None then unknown_flag name else 2)
           | v # as \<Rightarrow>
               (case assign_flag L name v fs of Inl status \<Rightarrow> Inl status | Inr fs \<Rightarrow> parse_flags L as fs)))"

definition flag_value :: "flag_values \<Rightarrow> string \<Rightarrow> string" where
  "flag_value fs name = (case map_of fs name of Some (_, v) \<Rightarrow> v | None \<Rightarrow> [])"

definition print_text :: "string \<Rightarrow> 'n wallet_state \<Rightarrow> 'n wallet_state" where
  "print_text txt s = s\<lparr>ws_printed := ws_printed s @ txt\<rparr>"

definition subcommand_flags :: "string \<Rightarrow> flag_values option" where
  "subcommand_flags c =
     (if c = ''list'' then Some []
      else if c = ''create'' then Some [(''name'', False, [])]
      else if c = ''mine'' then Some [(''to'', False, [])]
      else if c = ''balance'' then Some [(''of'', False, [])]
      else if c = ''transfer'' then
        Some [(''from'', False, []), (''to'', False, []), (''amount'', True, ''0'')]
      else None)"

definition required :: "string \<Rightarrow> string \<Rightarrow> unit outcome" where
  "required name v = (if v = [] then go_error (''-'' @ name @ '' argument is required'') else Ok ())"

definition run_list :: "go_os \<Rightarrow> 'n wallet_state \<Rightarrow> (unit, 'n wallet_state) call" where
  "run_list os s =
     then_call (getWallets os s) (\<lambda>ws s. (Ok (),
       print_text (concat (map (\<lambda>w. wl_name w @ '': '' @ wl_address w @ [CHR 0x0A]) ws)) s))"

definition run_transfer ::
    "'k go_lib \<Rightarrow> go_os \<Rightarrow> 'n http_server \<Rightarrow> flag_values \<Rightarrow> 'n wallet_state \<Rightarrow> (unit, 'n wallet_state) call option" where
  "run_transfer L os srv fs s =
     then_reply (Some (required ''from'' (flag_value fs ''from''), s)) (\<lambda>_ s.
     then_reply (Some (required ''to'' (flag_value fs ''to''), s)) (\<lambda>_ s.
     case parse_int L (flag_value fs ''amount'') of
       None \<Rightarrow> Some (go_error ''-amount argument must be positive'', s)
     | Some amount \<Rightarrow>
         if amount \<le>s 0 then Some (go_error ''-amount argument must be positive'', s)
         else walletTransfer L os srv (flag_value fs ''from'') (flag_value fs ''to'') amount s))"

definition run_subcommand ::
    "'k go_lib \<Rightarrow> go_os \<Rightarrow> 'n http_server \<Rightarrow> string \<Rightarrow> flag_values \<Rightarrow> 'n wallet_state \<Rightarrow>
     (unit, 'n wallet_state) call option" where
  "run_subcommand L os srv c fs s =
     (if c = ''list'' then Some (run_list os s)
      else if c = ''create'' then Some (then_call (required ''name'' (flag_value fs ''name''), s)
        (\<lambda>_ s. createWallet L os (flag_value fs ''name'') s))
      else if c = ''mine'' then then_reply (Some (required ''to'' (flag_value fs ''to''), s))
        (\<lambda>_ s. mineIntoWallet L os srv (flag_value fs ''to'') s)
      else if c = ''balance'' then then_reply (Some (required ''of'' (flag_value fs ''of''), s)) (\<lambda>_ s.
        then_reply (walletBalance L os srv (flag_value fs ''of'') s) (\<lambda>balance s.
          Some (Ok (), print_text (itoa balance @ [CHR 0x0A]) s)))
      else run_transfer L os srv fs s)"

text \<open>
  \<open>run\<close> with the arguments after the program name: the exit status, which \<open>failure\<close> makes 1 for an
  error; a panic is not caught.
\<close>

fun exit_status :: "(unit, 's) call \<Rightarrow> (nat, 's) call" where
  "exit_status (Ok x, s) = (Ok 0, s)"
| "exit_status (Throw e, s) = (if kind e = Runtime_error then Ok 1 else Throw e, s)"
| "exit_status (Undef, s) = (Undef, s)"

definition wallet_run ::
    "'k go_lib \<Rightarrow> go_os \<Rightarrow> 'n http_server \<Rightarrow> string list \<Rightarrow> 'n wallet_state \<Rightarrow> (nat, 'n wallet_state) call option" where
  "wallet_run L os srv args s =
     (case then_call (getBuenzliDir os s) (\<lambda>dir s.
             then_call (getBuenzliNode os, s\<lparr>buenzliDir := dir\<rparr>) (\<lambda>node s.
               (Ok (), s\<lparr>buenzliNode := node\<rparr>))) of
        (Ok _, s) \<Rightarrow>
          (case args of
             [] \<Rightarrow> Some (Ok 1, s)
           | c # as \<Rightarrow> (case subcommand_flags c of
               None \<Rightarrow> Some (Ok 1, s)
             | Some fs \<Rightarrow> (case parse_flags L as fs of
                 Inl status \<Rightarrow> Some (Ok status, s)
               | Inr fs \<Rightarrow> map_option exit_status (run_subcommand L os srv c fs s))))
      | (Throw e, s) \<Rightarrow> Some (exit_status (Throw e, s))
      | (Undef, s) \<Rightarrow> Some (exit_status (Undef, s)))"

end
