(* ===== verification/Wallet_Files.thy ===== *)
theory Wallet_Files
  imports Wallet
begin

text \<open>
  The files of the wallet program: its hexadecimal and base64 text agrees with what the node reads, the
  match of an entry against its regular expression, and which wallets are found after they were created.
\<close>

section \<open>Hexadecimal and base64 text\<close>

lemma hex_encode_digest: "hex_encode bs = digest_to_string bs"
  by (simp add: hex_encode_def digest_to_string_def setw2_hex hex_byte_def)

lemma base64_specials:
  "c = CHR ''='' \<longleftrightarrow> (of_char c :: nat) = 61" "c = CHR ''+'' \<longleftrightarrow> (of_char c :: nat) = 43"
  "c = CHR ''/'' \<longleftrightarrow> (of_char c :: nat) = 47" "c = CHR '' '' \<longleftrightarrow> (of_char c :: nat) = 32"
proof -
  have "c = d \<longleftrightarrow> (of_char c :: nat) = of_char d" for d by simp
  moreover have "(of_char (CHR ''='') :: nat) = 61" "(of_char (CHR ''+'') :: nat) = 43"
    "(of_char (CHR ''/'') :: nat) = 47" "(of_char (CHR '' '') :: nat) = 32" by code_simp+
  ultimately show "c = CHR ''='' \<longleftrightarrow> (of_char c :: nat) = 61" "c = CHR ''+'' \<longleftrightarrow> (of_char c :: nat) = 43"
    "c = CHR ''/'' \<longleftrightarrow> (of_char c :: nat) = 47" "c = CHR '' '' \<longleftrightarrow> (of_char c :: nat) = 32" by metis+
qed

definition base64_digit_code :: "nat \<Rightarrow> nat" where
  "base64_digit_code n =
     (if n < 26 then 65 + n else if n < 52 then 71 + n else if n < 62 then n - 4 else if n = 62 then 43 else 47)"

lemma base64_digit_code: "n < 64 \<Longrightarrow> (of_char (base64_digit n) :: nat) = base64_digit_code n"
proof -
  have "(of_char (CHR ''+'') :: nat) = 43" "(of_char (CHR ''/'') :: nat) = 47" by code_simp+
  then show "n < 64 \<Longrightarrow> ?thesis" unfolding base64_digit_def base64_digit_code_def by (auto simp del: of_char_Char)
qed

lemma base64_digit_plain:
  assumes "n < 64"
  shows "is_base64 (base64_digit n) \<and> base64_digit n \<noteq> CHR ''=''"
  unfolding is_base64_def is_alnum_def base64_specials base64_digit_code [OF assms] base64_digit_code_def Let_def
  using assms by auto

text \<open>An encoding is digits followed by at most two equality signs, in groups of four.\<close>

abbreviation address_char :: "char \<Rightarrow> bool" where
  "address_char c \<equiv> is_base64 c \<and> c \<noteq> CHR ''=''"

lemma base64_encode_group:
  "\<exists>g. base64_encode (a # b # c # bs) = g @ base64_encode bs \<and> length g = 4 \<and> list_all address_char g"
proof -
  define n where "n = unat a * 65536 + unat b * 256 + unat c"
  have "n div 262144 < 64"
    using unat_byte_less [of a] unat_byte_less [of b] unat_byte_less [of c] by (simp add: n_def)
  then have "list_all address_char [base64_digit (n div 262144), base64_digit (n div 4096 mod 64),
      base64_digit (n div 64 mod 64), base64_digit (n mod 64)]"
    by (simp add: base64_digit_plain)
  then show ?thesis by (intro exI conjI) (simp_all only: base64_encode.simps Let_def n_def, simp_all)
qed

lemma base64_encode_tail:
  "\<exists>g. base64_encode [a, b] = g @ ''='' \<and> length g = 3 \<and> list_all address_char g"
  "\<exists>g. base64_encode [a] = g @ ''=='' \<and> length g = 2 \<and> list_all address_char g"
proof -
  define n where "n = unat a * 256 + unat b"
  define g where "g = [base64_digit (n div 1024), base64_digit (n div 16 mod 64), base64_digit (n mod 16 * 4)]"
  have "n div 1024 < 64" using unat_byte_less [of a] unat_byte_less [of b] by (simp add: n_def)
  moreover have "n mod 16 * 4 < 64" by simp
  ultimately have "list_all address_char g" by (simp add: g_def base64_digit_plain)
  moreover have "base64_encode [a, b] = g @ ''=''" by (simp only: base64_encode.simps Let_def n_def g_def append.simps)
  ultimately show "\<exists>g. base64_encode [a, b] = g @ ''='' \<and> length g = 3 \<and> list_all address_char g"
    by (intro exI [of _ g]) (simp add: g_def)
next
  define g where "g = [base64_digit (unat a div 4), base64_digit (unat a mod 4 * 16)]"
  have "unat a div 4 < 64" using unat_byte_less [of a] by simp
  moreover have "unat a mod 4 * 16 < 64" by simp
  ultimately have "list_all address_char g" by (simp add: g_def base64_digit_plain)
  moreover have "base64_encode [a] = g @ ''==''" by (simp only: base64_encode.simps g_def append.simps)
  ultimately show "\<exists>g. base64_encode [a] = g @ ''=='' \<and> length g = 2 \<and> list_all address_char g"
    by (intro exI [of _ g]) (simp add: g_def)
qed

lemma base64_shape:
  "\<exists>body n. base64_encode bs = body @ replicate n (CHR ''='') \<and> n \<le> 2 \<and>
     list_all address_char body \<and> (length body + n) mod 4 = 0"
proof (induction bs rule: base64_encode.induct)
  case (1 a b c bs)
  from base64_encode_group [of a b c bs] obtain g
    where g: "base64_encode (a # b # c # bs) = g @ base64_encode bs" "length g = 4" "list_all address_char g"
    by (elim exE conjE)
  from 1 [OF refl] obtain body n where body: "base64_encode bs = body @ replicate n (CHR ''='')" "n \<le> 2"
    "list_all address_char body" "(length body + n) mod 4 = 0" by (elim exE conjE)
  have "base64_encode (a # b # c # bs) = (g @ body) @ replicate n (CHR ''='')"
    unfolding g(1) body(1) append_assoc ..
  moreover have "(length (g @ body) + n) mod 4 = 0"
    using body(4) by (simp only: length_append g(2) add.assoc mod_add_self1)
  moreover have "list_all address_char (g @ body)" using g(3) body(3) by (simp only: list_all_append simp_thms)
  ultimately show ?case
    using body(2) by (intro exI [of _ "g @ body"] exI [of _ n] conjI)
next
  case (2 a b)
  obtain g where "base64_encode [a, b] = g @ ''=''" "length g = 3" "list_all address_char g"
    using base64_encode_tail(1) by blast
  then show ?case by (intro exI [of _ g] exI [of _ 1]) (simp del: base64_encode.simps)
next
  case (3 a)
  obtain g where "base64_encode [a] = g @ ''==''" "length g = 2" "list_all address_char g"
    using base64_encode_tail(2) by blast
  then show ?case by (intro exI [of _ g] exI [of _ 2]) (simp del: base64_encode.simps add: numeral_2_eq_2)
qed simp

lemma trim_padding:
  assumes "list_all (\<lambda>c. c \<noteq> p) body"
  shows "trim p (body @ replicate n p) = body"
proof -
  have "dropWhile ((=) p) (replicate n p @ xs) = dropWhile ((=) p) xs" for xs
    by (induction n) simp_all
  moreover have "dropWhile ((=) p) xs = xs" if "list_all (\<lambda>c. c \<noteq> p) xs" for xs
    using that by (cases xs) auto
  ultimately show ?thesis
    using assms by (cases body) (auto simp: trim_def)
qed

lemma address_chars: "list_all address_char (trim (CHR ''='') (base64_encode bs))"
  using base64_shape [of bs] by (elim exE conjE) (simp add: trim_padding list_all_iff)

lemma pad_amount: "(m + n) mod 4 = 0 \<Longrightarrow> n \<le> 2 \<Longrightarrow> (4 - m mod 4) mod 4 = (n :: nat)"
  using mod_4_cases [of m] by (elim disjE) (simp_all add: le_Suc_eq numeral_2_eq_2, presburger+)

lemma pad_trim: "pad_key (trim (CHR ''='') (base64_encode bs)) = base64_encode bs"
proof -
  obtain body n where enc: "base64_encode bs = body @ replicate n (CHR ''='')" "n \<le> 2"
    and body: "list_all address_char body" and len: "(length body + n) mod 4 = 0"
    using base64_shape [of bs] by (elim exE conjE)
  then have "trim (CHR ''='') (base64_encode bs) = body" by (simp add: trim_padding list_all_iff)
  with enc pad_amount [OF len] show ?thesis by (simp add: pad_key_replicate)
qed

section \<open>The regular expression\<close>

text \<open>
  Reference: \<open>s\<close> from position \<open>i\<close> on starts with a word of the language, split at the groups. A match
  is leftmost, and from there on each group takes as much as it can before the next one gets a say.
\<close>

definition wallet_split :: "string \<Rightarrow> nat \<Rightarrow> string \<times> string \<times> string \<Rightarrow> bool" where
  "wallet_split s i m =
     (case m of (a, b, c) \<Rightarrow> prefix (a @ '' '' @ b @ '' '' @ c) (drop i s) \<and>
        list_all is_alnum a \<and> list_all is_base64 c)"

fun earlier_choice :: "string \<times> string \<times> string \<Rightarrow> string \<times> string \<times> string \<Rightarrow> bool" where
  "earlier_choice (a, b, c) (a', b', c') \<longleftrightarrow>
     length a' < length a \<or> length a = length a' \<and>
       (length b' < length b \<or> length b = length b' \<and> length c' \<le> length c)"

lemma space_no_word [simp]: "\<not> is_alnum (CHR '' '')" "\<not> is_base64 (CHR '' '')"
  by code_simp+

lemma word_before_space:
  "list_all is_alnum a \<Longrightarrow> takeWhile is_alnum (a @ CHR '' '' # r) = a \<and> dropWhile is_alnum (a @ CHR '' '' # r) = CHR '' '' # r"
  by (induction a) simp_all

lemma last_space:
  "CHR '' '' \<notin> set q \<Longrightarrow> rev (takeWhile (\<lambda>c. c \<noteq> CHR '' '') (rev (p @ CHR '' '' # q))) = q"
  by (simp add: takeWhile_append)

lemma match_here_split:
  assumes "s = a @ CHR '' '' # p @ CHR '' '' # q" and "list_all is_alnum a" and "CHR '' '' \<notin> set q"
  shows "match_here s = Some (a, p, takeWhile is_base64 q)"
  using word_before_space [OF assms(2), of "p @ CHR '' '' # q"] last_space [OF assms(3), of p]
  by (simp add: match_here_def assms(1) Let_def)

lemma match_here_cases:
  obtains "match_here s = None" "\<And>m. \<not> wallet_split s 0 m"
  | a p q where "s = a @ CHR '' '' # p @ CHR '' '' # q" "list_all is_alnum a" "CHR '' '' \<notin> set q"
      "match_here s = Some (a, p, takeWhile is_base64 q)"
proof (cases "dropWhile is_alnum s")
  case Nil
  then have "CHR '' '' \<notin> set s" using space_no_word(1) by (auto simp: dropWhile_eq_Nil_conv)
  then have "\<not> wallet_split s 0 m" for m
    by (auto simp: wallet_split_def prefix_def split: prod.splits)
  moreover have "match_here s = None" unfolding match_here_def Nil by simp
  ultimately show thesis using that(1) by blast
next
  case (Cons c t)
  let ?a = "takeWhile is_alnum s"
  have s: "s = ?a @ c # t" using Cons takeWhile_dropWhile_id [of is_alnum s] by simp
  have word: "list_all is_alnum ?a" by (auto simp: list_all_iff dest: set_takeWhileD)
  show thesis
  proof (cases "c = CHR '' '' \<and> CHR '' '' \<in> set t")
    case True
    then obtain p q where "t = p @ CHR '' '' # q" "CHR '' '' \<notin> set q" by (metis split_list_last)
    with s True word match_here_split [of s ?a p q] that(2) show thesis by blast
  next
    case False
    have "\<not> wallet_split s 0 (a, b, d)" for a b d
    proof
      assume "wallet_split s 0 (a, b, d)"
      then obtain r where r: "s = a @ CHR '' '' # (b @ CHR '' '' # d @ r)" "list_all is_alnum a"
        by (auto simp: wallet_split_def prefix_def)
      with word_before_space [OF r(2), of "b @ CHR '' '' # d @ r"] r(1)
      have "dropWhile is_alnum s = CHR '' '' # (b @ CHR '' '' # d @ r)" by simp
      with Cons False show False by auto
    qed
    then have "\<not> wallet_split s 0 m" for m by (cases m) simp
    moreover have "match_here s = None" using False unfolding match_here_def Cons by auto
    ultimately show thesis using that(1) by blast
  qed
qed

lemma split_before_space:
  assumes "a @ CHR '' '' # r = a' @ CHR '' '' # r'" "list_all is_alnum a" "list_all is_alnum a'"
  shows "a = a' \<and> r = r'"
proof -
  have "a = takeWhile is_alnum (a @ CHR '' '' # r)" "CHR '' '' # r = dropWhile is_alnum (a @ CHR '' '' # r)"
    using word_before_space [OF assms(2), of r] by (simp_all only:)
  then show ?thesis
    unfolding assms(1) using word_before_space [OF assms(3), of r'] by (simp only: list.inject)
qed

lemma split_at_last_space:
  assumes "p @ CHR '' '' # q = b @ CHR '' '' # r" and "CHR '' '' \<notin> set q"
  shows "length b < length p \<or> b = p \<and> r = q"
proof -
  from assms(1) consider u where "p @ u = b" "CHR '' '' # q = u @ CHR '' '' # r"
    | u where "p = b @ u" "u @ CHR '' '' # q = CHR '' '' # r"
    unfolding append_eq_append_conv2 by blast
  then show ?thesis
  proof cases
    case (1 u)
    with assms(2) show ?thesis by (cases u) auto
  next
    case (2 u)
    then show ?thesis by (cases u) auto
  qed
qed

lemma match_here_chosen:
  assumes "match_here s = Some m"
  shows "wallet_split s 0 m \<and> (\<forall>m'. wallet_split s 0 m' \<longrightarrow> earlier_choice m m')"
proof (cases s rule: match_here_cases)
  case 1
  with assms show ?thesis by simp
next
  case (2 a p q)
  with assms have m: "m = (a, p, takeWhile is_base64 q)" by simp
  have "prefix (takeWhile is_base64 q) q" by (metis prefixI takeWhile_dropWhile_id)
  then have "wallet_split s 0 m"
    using 2 by (auto simp: m wallet_split_def list_all_iff dest: set_takeWhileD)
  moreover have "earlier_choice m (a', b', c')" if sp: "wallet_split s 0 (a', b', c')" for a' b' c'
  proof -
    obtain r where r: "s = a' @ CHR '' '' # (b' @ CHR '' '' # (c' @ r))" "list_all is_alnum a'" "list_all is_base64 c'"
      using sp by (auto simp: wallet_split_def prefix_def)
    with 2 split_before_space have a: "a = a'" "p @ CHR '' '' # q = b' @ CHR '' '' # (c' @ r)" by blast+
    show ?thesis
    proof (cases "length b' < length p")
      case False
      with split_at_last_space [OF a(2) 2(3)] have "b' = p" "q = c' @ r" by simp_all
      moreover from this r(3) have "length c' \<le> length (takeWhile is_base64 q)"
        by (simp add: takeWhile_append list_all_iff)
      ultimately show ?thesis using a(1) by (simp add: m)
    qed (simp add: m a(1))
  qed
  ultimately show ?thesis by auto
qed

lemma wallet_split_Suc [simp]: "wallet_split (c # s) (Suc i) m = wallet_split s i m"
  by (simp add: wallet_split_def)

lemma wallet_split_Nil [simp]: "\<not> wallet_split [] i m"
  by (auto simp: wallet_split_def split: prod.splits)

text \<open>
  The parser of an entry is the leftmost match of the regular expression: it fails only if no part of the
  line is in the language, and otherwise returns the groups of the leftmost part that is.
\<close>

lemma wallet_match_leftmost:
  "(wallet_match s = None \<longleftrightarrow> (\<forall>i m. \<not> wallet_split s i m)) \<and>
   (wallet_match s = Some m \<longrightarrow> (\<exists>i. wallet_split s i m \<and> (\<forall>j < i. \<forall>m'. \<not> wallet_split s j m') \<and>
      (\<forall>m'. wallet_split s i m' \<longrightarrow> earlier_choice m m')))"
proof (induction s)
  case (Cons c s)
  show ?case
  proof (cases "match_here (c # s)")
    case None
    then have none: "\<not> wallet_split (c # s) 0 m'" for m' by (cases "c # s" rule: match_here_cases) auto
    have "(\<forall>i m'. \<not> wallet_split (c # s) i m') \<longleftrightarrow> (\<forall>i m'. \<not> wallet_split s i m')"
      using none by (metis wallet_split_Suc not0_implies_Suc)
    moreover have "\<exists>i. wallet_split (c # s) i m \<and> (\<forall>j < i. \<forall>m'. \<not> wallet_split (c # s) j m') \<and>
        (\<forall>m'. wallet_split (c # s) i m' \<longrightarrow> earlier_choice m m')" if match: "wallet_match s = Some m"
    proof -
      from Cons match obtain i where "wallet_split s i m" "\<forall>j < i. \<forall>m'. \<not> wallet_split s j m'"
        "\<forall>m'. wallet_split s i m' \<longrightarrow> earlier_choice m m'" by blast
      with none show ?thesis by (intro exI [of _ "Suc i"]) (auto simp: less_Suc_eq_0_disj)
    qed
    ultimately show ?thesis using Cons None by simp
  next
    case (Some m')
    with match_here_chosen [OF Some] have m': "wallet_match (c # s) = Some m'" "wallet_split (c # s) 0 m'"
      "\<forall>m''. wallet_split (c # s) 0 m'' \<longrightarrow> earlier_choice m' m''" by simp_all
    then have "\<not> (\<forall>i m. \<not> wallet_split (c # s) i m)" by blast
    with m' show ?thesis by (intro conjI impI exI [of _ 0]) simp_all
  qed
qed simp

section \<open>The wallets file\<close>

definition plain_line :: "string \<Rightarrow> bool" where
  "plain_line l \<longleftrightarrow> CHR 0x0A \<notin> set l \<and> length l < 65536"

definition file_of_lines :: "string list \<Rightarrow> string" where
  "file_of_lines ls = concat (map (\<lambda>l. l @ [CHR 0x0A]) ls)"

lemma scan_lines_Cons:
  "plain_line l \<Longrightarrow> scan_lines (l @ CHR 0x0A # r) = strip_cr l # scan_lines r"
  by (simp add: scan_lines.simps [of "l @ CHR 0x0A # r"] plain_line_def takeWhile_append Let_def)

lemma scan_lines_file: "list_all plain_line ls \<Longrightarrow> scan_lines (file_of_lines ls) = map strip_cr ls"
proof (induction ls)
  case Nil
  then show ?case by (simp add: file_of_lines_def scan_lines.simps [of "[]"])
next
  case (Cons l ls)
  then show ?case using scan_lines_Cons [of l "file_of_lines ls"] by (simp add: file_of_lines_def)
qed

text \<open>What the wallets file holds; opening it makes it exist.\<close>

definition stored :: "'n wallet_state \<Rightarrow> string" where
  "stored s = (case ws_files s (wallets_path s) of Some contents \<Rightarrow> contents | None \<Rightarrow> [])"

definition opened :: "'n wallet_state \<Rightarrow> 'n wallet_state" where
  "opened s = s\<lparr>ws_files := (ws_files s)(wallets_path s \<mapsto> stored s)\<rparr>"

lemma opened_simps [simp]:
  "buenzliDir (opened s) = buenzliDir s" "buenzliNode (opened s) = buenzliNode s"
  "ws_network (opened s) = ws_network s" "wallets_path (opened s) = wallets_path s"
  "stored (opened s) = stored s" "opened (opened s) = opened s"
  "ws_files (opened s) = (ws_files s)(wallets_path s \<mapsto> stored s)"
  by (simp_all add: opened_def wallets_path_def stored_def)

lemma open_wallets_Ok:
  "open_wallets os s =
     (case open_error os (wallets_path s) of Some msg \<Rightarrow> (go_error msg, s) | None \<Rightarrow> (Ok (stored s), opened s))"
  by (auto simp: open_wallets_def stored_def opened_def map_upd_triv split: option.splits)

definition wallets_in :: "'n wallet_state \<Rightarrow> wallet list outcome" where
  "wallets_in s = map_outcomes (parse_wallet (buenzliDir s)) (scan_lines (stored s))"

lemma findWallet_Ok_iff:
  "findWallet os name s = (Ok w, s') \<longleftrightarrow> open_error os (wallets_path s) = None \<and> s' = opened s \<and>
     (\<exists>ws. wallets_in s = Ok ws \<and> w = find (\<lambda>w. wl_name w = name) ws)"
  by (cases "wallets_in s")
    (auto simp: findWallet_def getWallets_def open_wallets_Ok wallets_in_def go_error_def split: option.splits)

lemma locate_Ok_iff:
  "locate os name s = (Ok w, s') \<longleftrightarrow> findWallet os name s = (Ok (Some w), s')"
  by (cases "findWallet os name s" rule: prod.exhaust; cases "fst (findWallet os name s)")
    (auto simp: locate_def go_error_def split: option.splits)

text \<open>A name in the list of wallets is a word.\<close>

lemma parse_wallet_name: "parse_wallet dir l = Ok w \<Longrightarrow> list_all is_alnum (wl_name w)"
proof -
  assume "parse_wallet dir l = Ok w"
  then obtain name key address where "wallet_match l = Some (name, key, address)" "wl_name w = name"
    by (auto simp: parse_wallet_def go_error_def split: option.splits)
  with wallet_match_leftmost [of l "(name, key, address)"] show ?thesis by (auto simp: wallet_split_def)
qed

lemma wallet_names: "wallets_in s = Ok ws \<Longrightarrow> w \<in> set ws \<Longrightarrow> list_all is_alnum (wl_name w)"
  by (auto simp: wallets_in_def map_outcomes_Ok_iff list_all2_conv_all_nth in_set_conv_nth
      intro: parse_wallet_name)

text \<open>An entry as \<open>createWallet\<close> writes it.\<close>

definition entry :: "string \<Rightarrow> string \<Rightarrow> string \<Rightarrow> string" where
  "entry name file address = name @ '' '' @ file @ '' '' @ address"

lemma entry_matches: "\<exists>m. wallet_match (entry name file address) = Some m"
proof -
  have "wallet_split (entry name file address) (length name) ([], file, [])"
    by (simp add: wallet_split_def entry_def)
  then show ?thesis using wallet_match_leftmost by (metis option.exhaust)
qed

lemma entry_found:
  assumes "list_all is_alnum name" "list_all address_char address"
  shows "wallet_match (entry name file address) = Some (name, file, address)"
proof -
  have base64: "\<forall>c \<in> set address. is_base64 c" using assms(2) by (simp add: list_all_iff)
  then have "CHR '' '' \<notin> set address" "takeWhile is_base64 address = address"
    using space_no_word(2) by (blast, simp add: takeWhile_eq_all_conv)
  with assms(1) have "match_here (entry name file address) = Some (name, file, address)"
    using match_here_split [where s = "entry name file address" and a = name and p = "file" and q = address]
    by (simp add: entry_def)
  moreover obtain c s where "entry name file address = c # s"
    by (cases "entry name file address") (simp_all add: entry_def)
  ultimately show ?thesis by simp
qed


text \<open>The line that \<open>createWallet\<close> adds ends in a character of an address or a space.\<close>

lemma entry_plain:
  assumes "CHR 0x0A \<notin> set name" and "length (entry name (''id_ecdsa_'' @ name) address) < 65536"
    and "list_all address_char address"
  shows "plain_line (entry name (''id_ecdsa_'' @ name) address)"
    and "strip_cr (entry name (''id_ecdsa_'' @ name) address) = entry name (''id_ecdsa_'' @ name) address"
proof -
  have base64: "\<not> is_base64 (CHR 0x0A)" "\<not> is_base64 (CHR 0x0D)" by code_simp+
  with assms(3) have "CHR 0x0A \<notin> set address" "CHR 0x0D \<notin> set address" by (auto simp: list_all_iff)
  with assms(1,2) show "plain_line (entry name (''id_ecdsa_'' @ name) address)"
    by (simp add: plain_line_def entry_def)
  have "last (entry name (''id_ecdsa_'' @ name) address) = (if address = [] then CHR '' '' else last address)"
    by (simp add: entry_def)
  with \<open>CHR 0x0D \<notin> set address\<close>
  have "last (entry name (''id_ecdsa_'' @ name) address) \<noteq> CHR 0x0D"
    using last_in_set [of address] by (auto simp del: last_in_set split: if_splits)
  then show "strip_cr (entry name (''id_ecdsa_'' @ name) address) = entry name (''id_ecdsa_'' @ name) address"
    by (simp add: strip_cr_def)
qed

text \<open>What a successful \<open>createWallet\<close> leaves behind.\<close>

lemma createWallet_Ok:
  assumes "createWallet L os name s = (Ok (), s')"
    and "path_join (buenzliDir s) (''id_ecdsa_'' @ name) \<noteq> wallets_path s"
  obtains key pem pub ws where "generate_key L = Some key" "marshal_private_key L key = Some pem"
    "marshal_public_key L key = Some pub" "wallets_in s = Ok ws" "find (\<lambda>w. wl_name w = name) ws = None"
    "buenzliDir s' = buenzliDir s" "open_error os (wallets_path s) = None"
    "ws_files s' (path_join (buenzliDir s) (''id_ecdsa_'' @ name)) = Some (pem_encode L ''EC PRIVATE KEY'' pem)"
    "stored s' = stored s @ entry name (''id_ecdsa_'' @ name) (trim (CHR ''='') (base64_encode pub)) @ [CHR 0x0A]"
proof -
  let ?path = "path_join (buenzliDir s) (''id_ecdsa_'' @ name)"
  obtain ws where found: "findWallet os name s = (Ok None, opened s)" and ws: "wallets_in s = Ok ws"
      "find (\<lambda>w. wl_name w = name) ws = None" "open_error os (wallets_path s) = None"
    using assms(1) by (auto simp: createWallet_def outcome_simps findWallet_Ok_iff go_error_def split: if_splits)
  obtain key pem pub where lib: "generate_key L = Some key" "marshal_private_key L key = Some pem"
      "marshal_public_key L key = Some pub"
    using assms(1) by (auto simp: createWallet_def found outcome_simps lib_result_def go_error_def Let_def split: option.splits)
  let ?line = "entry name (''id_ecdsa_'' @ name) (trim (CHR ''='') (base64_encode pub)) @ [CHR 0x0A]"
  have "s' = (opened s)\<lparr>ws_files := (ws_files s)(?path \<mapsto> pem_encode L ''EC PRIVATE KEY'' pem,
      wallets_path s \<mapsto> stored s @ ?line)\<rparr>"
    using assms ws(3) by (auto simp: createWallet_def found outcome_simps lib lib_result_def os_result_def
        go_error_def Let_def open_wallets_Ok stored_def opened_def entry_def fun_upd_twist wallets_path_def split: option.splits)
  with assms(2) lib ws show thesis
    by (intro that [of key pem pub ws]) (simp_all add: stored_def wallets_path_def)
qed


lemma find_snoc: "find P xs = None \<Longrightarrow> find P (xs @ [x]) = (if P x then Some x else None)"
  by (induction xs) (auto split: if_splits)

lemma map_outcomes_snoc:
  "map_outcomes f xs = Ok ys \<Longrightarrow> f x = Ok y \<Longrightarrow> map_outcomes f (xs @ [x]) = Ok (ys @ [y])"
  by (simp add: map_outcomes_Ok_iff list_all2_appendI)

lemma parse_entry:
  assumes "list_all address_char address"
  obtains w where "parse_wallet dir (entry name (''id_ecdsa_'' @ name) address) = Ok w"
    "list_all is_alnum name \<Longrightarrow> w = \<lparr>wl_name = name, wl_key = path_join dir (''id_ecdsa_'' @ name), wl_address = address\<rparr>"
    "\<not> list_all is_alnum name \<Longrightarrow> wl_name w \<noteq> name"
proof -
  obtain w where w: "parse_wallet dir (entry name (''id_ecdsa_'' @ name) address) = Ok w"
    using entry_matches [of name "''id_ecdsa_'' @ name" address] by (auto simp: parse_wallet_def)
  moreover have "w = \<lparr>wl_name = name, wl_key = path_join dir (''id_ecdsa_'' @ name), wl_address = address\<rparr>"
    if "list_all is_alnum name"
    using w entry_found [OF that assms, of "''id_ecdsa_'' @ name"] by (simp add: parse_wallet_def)
  moreover have "wl_name w \<noteq> name" if "\<not> list_all is_alnum name" using parse_wallet_name [OF w] that by auto
  ultimately show thesis by (rule that)
qed

text \<open>The wallets after one was added.\<close>

lemma wallets_added:
  assumes "stored s = file_of_lines ls" "list_all plain_line ls" "wallets_in s = Ok ws"
    and "buenzliDir s' = buenzliDir s" "stored s' = stored s @ l @ [CHR 0x0A]" "plain_line l" "strip_cr l = l"
    and "parse_wallet (buenzliDir s) l = Ok w"
  shows "wallets_in s' = Ok (ws @ [w])"
proof -
  have "stored s' = file_of_lines (ls @ [l])" using assms(1,5) by (simp add: file_of_lines_def)
  then have "scan_lines (stored s') = map strip_cr ls @ [l]"
    using scan_lines_file [of "ls @ [l]"] assms(2,6,7) by simp
  moreover have "map_outcomes (parse_wallet (buenzliDir s)) (map strip_cr ls) = Ok ws"
    using assms(1-3) by (simp add: wallets_in_def scan_lines_file)
  ultimately show ?thesis using assms(4,8) by (simp add: wallets_in_def map_outcomes_snoc)
qed

text \<open>
  A concrete library and operating system: JSON text as in \<open>Json_Text\<close>, keys are numbers, a signature is
  the hash, nothing fails.
\<close>

fun gval_of_jval :: "jval \<Rightarrow> gval" where
  "gval_of_jval JNull = GNull"
| "gval_of_jval (JUnsigned n) = GInt (uint n)"
| "gval_of_jval (JString s) = GString s"
| "gval_of_jval (JArray js) = GArray (map gval_of_jval js)"
| "gval_of_jval (JObject kvs) = GObject (map (\<lambda>(k, v). (k, gval_of_jval v)) kvs)"

text \<open>The value that the node's library reads for one that the wallet writes.\<close>

fun gval_to_json :: "'j json_api \<Rightarrow> gval \<Rightarrow> 'j" where
  "gval_to_json J (GInt i) = json_of_u64 J (word_of_int i)"
| "gval_to_json J (GString s) = json_of_string J s"
| "gval_to_json J (GArray vs) = json_array J (map (gval_to_json J) vs)"
| "gval_to_json J (GObject kvs) = json_object J (map (\<lambda>(k, v). (k, gval_to_json J v)) kvs)"
| "gval_to_json J v = json_null J"

definition example_lib :: "nat go_lib" where
  "example_lib = \<lparr>
     unmarshal_text = (\<lambda>t. case jval_parse t of Ok j \<Rightarrow> Some (gval_of_jval j) | _ \<Rightarrow> None),
     marshal_text = (\<lambda>v. jval_dump (gval_to_json jval_api v)),
     sum256 = map (\<lambda>c. word_of_nat (of_char c)),
     generate_key = Some 7, marshal_private_key = (\<lambda>k. Some [word_of_nat k]),
     marshal_public_key = (\<lambda>_. Some [7, 1]),
     parse_private_key = (\<lambda>bs. case bs of [b] \<Rightarrow> Some (unat b) | _ \<Rightarrow> None),
     pem_encode = (\<lambda>_ bs. ''PEM'' @ map (\<lambda>b. char_of (unat b)) bs),
     pem_decode = (\<lambda>t. if take 3 t = ''PEM'' then Some (map (\<lambda>c. word_of_nat (of_char c)) (drop 3 t)) else None),
     sign_asn1 = (\<lambda>_ h. Some h),
     parse_int = (\<lambda>t. if t \<noteq> [] \<and> list_all is_digit t \<and> digits_value t < 2 ^ 63 then Some (word_of_nat (digits_value t)) else None),
     error_text = id\<rparr>"

definition example_os :: go_os where
  "example_os = \<lparr>
     getenv = (\<lambda>v. if v = ''BUENZLI_DIR'' then ''/w'' else if v = ''BUENZLI_NODE'' then ''localhost:8080'' else []),
     user_home_dir = None, stat_error = (\<lambda>_. None), mkdir_error = (\<lambda>_. None), open_error = (\<lambda>_. None),
     write_error = (\<lambda>_. None)\<rparr>"

definition empty_wallets :: "'n \<Rightarrow> 'n wallet_state" where
  "empty_wallets n = \<lparr>ws_files = Map.empty, ws_dirs = [''/w''], ws_printed = [], buenzliDir = ''/w'',
     buenzliNode = ''localhost:8080'', ws_network = n\<rparr>"

lemma empty_wallets_simps [simp]:
  "wallets_path (empty_wallets n) = ''/w/wallets''" "stored (empty_wallets n) = []"
  "buenzliDir (empty_wallets n) = ''/w''" "ws_network (empty_wallets n) = n"
  "wallets_in (empty_wallets n) = Ok []"
proof -
  have "path_join ''/w'' ''wallets'' = ''/w/wallets''" by code_simp
  then show "wallets_path (empty_wallets n) = ''/w/wallets''"
    by (simp add: wallets_path_def empty_wallets_def)
  then show st: "stored (empty_wallets n) = []" by (simp add: stored_def empty_wallets_def)
  show "wallets_in (empty_wallets n) = Ok []"
    by (simp add: wallets_in_def st scan_lines.simps [of "[]"])
qed (simp_all add: empty_wallets_def)

section \<open>Properties\<close>

text \<open>
  C16. The hash and the key that the wallet sends are those that the node computes with: the hexadecimal
  text of a digest is the one that the node parses, and padding the address of a wallet gives back
  exactly the base64 text of the public key, so the node reads the PEM text of that key.
\<close>

theorem wallet_text_is_node_text:
  "digest_from_string (hex_encode bs) = Ok bs \<and>
   public_key (trim (CHR ''='') (base64_encode bs)) =
     ''-----BEGIN PUBLIC KEY-----'' @ [CHR 0x0A] @ base64_encode bs @ [CHR 0x0A] @ ''-----END PUBLIC KEY-----''"
  by (simp add: hex_encode_digest from_to_string public_key_def build_key_def pad_trim)

text \<open>
  C17. A wallet that was created is found under its name, with the key file that was written and the
  address of its public key, if and only if the name consists of letters and digits: a name like
  \<open>my-wallet\<close> is accepted but never found again, so creating it once more overwrites its private key.
\<close>

theorem created_wallet_found_iff:
  assumes "createWallet L os name s = (Ok (), s')" and "stored s = file_of_lines ls" and "list_all plain_line ls"
    and "path_join (buenzliDir s) (''id_ecdsa_'' @ name) \<noteq> wallets_path s"
    and "CHR 0x0A \<notin> set name"
    and "\<And>key pub. marshal_public_key L key = Some pub \<Longrightarrow> length (entry name (''id_ecdsa_'' @ name) (trim (CHR ''='') (base64_encode pub))) < 65536"
  shows "\<exists>key pem pub w. generate_key L = Some key \<and> marshal_private_key L key = Some pem \<and>
    marshal_public_key L key = Some pub \<and>
    wl_name w = name \<and> wl_address w = trim (CHR ''='') (base64_encode pub) \<and>
    ws_files s' (wl_key w) = Some (pem_encode L ''EC PRIVATE KEY'' pem) \<and>
    fst (findWallet os name s') = Ok (if list_all is_alnum name then Some w else None)"
proof -
  from createWallet_Ok [OF assms(1,4)] obtain key pem pub ws
    where lib: "generate_key L = Some key" "marshal_private_key L key = Some pem" "marshal_public_key L key = Some pub"
      and ws: "wallets_in s = Ok ws" "find (\<lambda>w. wl_name w = name) ws = None"
      and s': "buenzliDir s' = buenzliDir s" "open_error os (wallets_path s) = None"
        "ws_files s' (path_join (buenzliDir s) (''id_ecdsa_'' @ name)) = Some (pem_encode L ''EC PRIVATE KEY'' pem)"
        "stored s' = stored s @ entry name (''id_ecdsa_'' @ name) (trim (CHR ''='') (base64_encode pub)) @ [CHR 0x0A]" .
  let ?address = "trim (CHR ''='') (base64_encode pub)"
  obtain w where w: "parse_wallet (buenzliDir s) (entry name (''id_ecdsa_'' @ name) ?address) = Ok w"
    "list_all is_alnum name \<Longrightarrow>
      w = \<lparr>wl_name = name, wl_key = path_join (buenzliDir s) (''id_ecdsa_'' @ name), wl_address = ?address\<rparr>"
    "\<not> list_all is_alnum name \<Longrightarrow> wl_name w \<noteq> name"
    using parse_entry [OF address_chars] by blast
  have "wallets_in s' = Ok (ws @ [w])"
    using assms(5) assms(6) [OF lib(3)]
    by (intro wallets_added [OF assms(2,3) ws(1) s'(1,4)] entry_plain address_chars w(1))
  moreover have "find (\<lambda>w. wl_name w = name) (ws @ [w]) = (if wl_name w = name then Some w else None)"
    using ws(2) by (simp add: find_snoc)
  ultimately have "findWallet os name s' = (Ok (if wl_name w = name then Some w else None), opened s')"
    using s'(1,2) by (simp add: findWallet_Ok_iff wallets_path_def)
  with lib s'(3) w(2,3) show ?thesis
    by (intro exI [of _ key] exI [of _ pem] exI [of _ pub]
        exI [of _ "\<lparr>wl_name = name, wl_key = path_join (buenzliDir s) (''id_ecdsa_'' @ name), wl_address = ?address\<rparr>"])
      auto
qed

theorem created_wallet_found_iff_witness:
  "let s' = snd (createWallet example_lib example_os ''my-wallet'' (empty_wallets ())) in
     fst (createWallet example_lib example_os ''my-wallet'' (empty_wallets ())) = Ok () \<and>
     fst (findWallet example_os ''my-wallet'' s') = Ok None"
proof -
  define r where "r = createWallet example_lib example_os ''my-wallet'' (empty_wallets ())"
  have "fst (createWallet example_lib example_os ''my-wallet'' (empty_wallets ())) = Ok ()" by code_simp
  then have ok: "fst r = Ok ()" by (simp only: r_def)
  then have created: "createWallet example_lib example_os ''my-wallet'' (empty_wallets ()) = (Ok (), snd r)"
    by (metis r_def prod.collapse)
  have path: "path_join ''/w'' ''id_ecdsa_my-wallet'' = ''/w/id_ecdsa_my-wallet''" by code_simp
  have word: "\<not> list_all is_alnum ''my-wallet''" by code_simp
  have len: "length (trim (CHR ''='') (base64_encode [7, 1])) < 100" by code_simp
  have "\<exists>key pem pub w. generate_key example_lib = Some key \<and> marshal_private_key example_lib key = Some pem \<and>
      marshal_public_key example_lib key = Some pub \<and>
      wl_name w = ''my-wallet'' \<and> wl_address w = trim (CHR ''='') (base64_encode pub) \<and>
      ws_files (snd r) (wl_key w) = Some (pem_encode example_lib ''EC PRIVATE KEY'' pem) \<and>
      fst (findWallet example_os ''my-wallet'' (snd r)) = Ok (if list_all is_alnum ''my-wallet'' then Some w else None)"
    by (rule created_wallet_found_iff [OF created, of "[]"])
      (use len in \<open>auto simp: path file_of_lines_def example_lib_def entry_def\<close>)
  with word ok show ?thesis by (auto simp: r_def)
qed

end
