(* ===== verification/Wallet_Wire.thy ===== *)
theory Wallet_Wire
  imports Wallet_Files
begin

text \<open>
  The JSON text between the wallet program and a node: what the libraries of both sides promise, and
  that the wallet decodes what the node writes whatever the order of the members.
\<close>

section \<open>Values on the wire\<close>

definition ascii :: "string \<Rightarrow> bool" where
  "ascii s \<longleftrightarrow> list_all (\<lambda>c. (of_char c :: nat) < 128) s"

fun wire :: "gval \<Rightarrow> bool" where
  "wire GNull \<longleftrightarrow> True"
| "wire GOther \<longleftrightarrow> False"
| "wire (GInt i) \<longleftrightarrow> 0 \<le> i \<and> i < 2 ^ 64"
| "wire (GString s) \<longleftrightarrow> ascii s"
| "wire (GArray vs) \<longleftrightarrow> list_all wire vs"
| "wire (GObject kvs) \<longleftrightarrow> distinct (map fst kvs) \<and> list_all (\<lambda>(k, v). ascii k \<and> wire v) kvs"

text \<open>The same value with the members of objects in another order.\<close>

inductive same_value :: "gval \<Rightarrow> gval \<Rightarrow> bool" where
  same_null: "same_value GNull GNull"
| same_int: "same_value (GInt i) (GInt i)"
| same_string: "same_value (GString s) (GString s)"
| same_array: "list_all2 same_value vs vs' \<Longrightarrow> same_value (GArray vs) (GArray vs')"
| same_object: "distinct (map fst kvs) \<Longrightarrow> distinct (map fst kvs') \<Longrightarrow>
    (\<And>k. rel_option same_value (map_of kvs k) (map_of kvs' k)) \<Longrightarrow> same_value (GObject kvs) (GObject kvs')"

inductive_simps same_value_simps:
  "same_value GNull v" "same_value (GInt i) v" "same_value (GString s) v" "same_value (GArray vs) v"
  "same_value (GObject kvs) v"

lemma same_value_refl: "wire v \<Longrightarrow> same_value v v"
proof (induction v)
  case (GArray vs)
  then show ?case by (auto simp: same_value_simps list_all_iff list_all2_same)
next
  case (GObject kvs)
  have "rel_option same_value (map_of kvs k) (map_of kvs k)" for k
  proof (cases "map_of kvs k")
    case (Some v)
    then have "(k, v) \<in> set kvs" by (rule map_of_SomeD)
    with GObject show ?thesis by (fastforce simp: Some list_all_iff)
  qed simp
  with GObject.prems show ?case by (auto simp: same_value_simps)
qed (simp_all add: same_value_simps)

text \<open>
  What the two programs rely on: JSON text that one writes is read by the other as the same value. The
  node's library sorts the members of an object; Go replaces bytes that are not UTF-8.
\<close>

locale wallet_wire =
  fixes W :: "'j world" and L :: "'k go_lib"
  assumes library: "json_library (w_api W)"
    and node_reads: "wire v \<Longrightarrow> w_parse W (marshal_text L v) = Ok (gval_to_json (w_api W) v)"
    and marshal_nonempty: "marshal_text L v \<noteq> []"
    and wallet_reads: "wire v \<Longrightarrow>
      \<exists>v'. unmarshal_text L (json_dump (w_api W) (gval_to_json (w_api W) v)) = Some v' \<and> same_value v v'"

section \<open>The values of the node\<close>

definition gval_of_txi :: "txi \<Rightarrow> gval" where
  "gval_of_txi i = GObject
     [(''output_hash'', GString (digest_to_string (txi_output_hash i))),
      (''output_index'', GInt (uint (txi_output_index i))),
      (''signature'', GString (digest_to_string (txi_signature i)))]"

definition gval_of_txo :: "txo \<Rightarrow> gval" where
  "gval_of_txo out = GObject
     [(''amount'', GInt (uint (txo_amount out))), (''address'', GString (txo_address out))]"

definition gval_of_utxo :: "utxo \<Rightarrow> gval" where
  "gval_of_utxo u = GObject
     [(''output_hash'', GString (digest_to_string (utxo_output_hash u))),
      (''output_index'', GInt (uint (utxo_output_index u))),
      (''output'', gval_of_txo (utxo_output u))]"

definition type_string :: "transaction_type \<Rightarrow> string" where
  "type_string ty = (case ty of STANDARD \<Rightarrow> ''standard'' | REWARD \<Rightarrow> ''reward'')"

definition gval_of_transaction :: "transaction \<Rightarrow> gval" where
  "gval_of_transaction t = GObject
     [(''type'', GString (type_string (t_type t))),
      (''index'', GInt (uint (t_index t))),
      (''hash'', GString (digest_to_string (t_hash t))),
      (''inputs'', GArray (map gval_of_txi (t_inputs t))),
      (''outputs'', GArray (map gval_of_txo (t_outputs t)))]"

lemma gval_to_json_parts:
  "gval_to_json J (gval_of_txi i) = txi_to_json J i" "gval_to_json J (gval_of_txo out) = txo_to_json J out"
  by (simp_all add: gval_of_txi_def txi_to_json_def gval_of_txo_def txo_to_json_def)

lemma gval_to_json_of:
  "gval_to_json J (gval_of_utxo u) = utxo_to_json J u"
  "gval_to_json J (gval_of_transaction t) = transaction_to_json J t"
  by (simp_all add: gval_of_utxo_def utxo_to_json_def gval_of_transaction_def transaction_to_json_def
      type_string_def gval_to_json_parts comp_def)

lemma gval_to_json_lists:
  "gval_to_json J (GArray (map gval_of_utxo us)) = unspent_to_json J us"
  "gval_to_json J (GArray (map gval_of_transaction ts)) = transaction_list_to_json J ts"
  by (simp_all add: unspent_to_json_def transaction_list_to_json_def gval_to_json_of comp_def)

lemma ascii_literals [simp]:
  "ascii ''output_hash''" "ascii ''output_index''" "ascii ''signature''" "ascii ''amount''" "ascii ''address''"
  "ascii ''output''" "ascii ''type''" "ascii ''index''" "ascii ''hash''" "ascii ''inputs''" "ascii ''outputs''"
  "ascii ''standard''" "ascii ''reward''"
  by code_simp+

lemma ascii_type [simp]: "ascii (type_string ty)"
  by (cases ty) (simp_all add: type_string_def)

lemma ascii_append [simp]: "ascii (s @ s') \<longleftrightarrow> ascii s \<and> ascii s'"
  by (simp add: ascii_def)

lemma ascii_digest [simp]: "ascii (digest_to_string d)"
proof (induction d)
  case (Cons b d)
  have "unat b div 16 < 16" using unat_byte_less [of b] by simp
  moreover have "(of_char (hex_digit n) :: nat) < 128" if "n < 16" for n
    using that by (simp add: hex_digit_def)
  ultimately have "ascii (hex_byte b)" by (simp add: hex_byte_def ascii_def)
  with Cons show ?case by simp
qed (simp add: ascii_def)

lemma uint_wire [simp]: "uint (w :: u64) < 2 ^ 64" "uint (w :: u64) < 18446744073709551616"
  using unsigned_less [of w] by simp_all

lemma wire_values:
  "wire (gval_of_txi i)" "wire (gval_of_txo out) \<longleftrightarrow> ascii (txo_address out)"
  "wire (gval_of_utxo u) \<longleftrightarrow> ascii (txo_address (utxo_output u))"
  "wire (gval_of_transaction t) \<longleftrightarrow> list_all (\<lambda>out. ascii (txo_address out)) (t_outputs t)"
  by (auto simp: gval_of_txi_def gval_of_txo_def gval_of_utxo_def gval_of_transaction_def list_all_iff)

section \<open>The wallet reads what the node writes\<close>

text \<open>A Go \<open>int\<close> holds what is below \<open>2 ^ 63\<close>.\<close>

abbreviation fits :: "u64 \<Rightarrow> bool" where
  "fits w \<equiv> unat w < 2 ^ 63"

definition readable_txo :: "txo \<Rightarrow> bool" where
  "readable_txo out \<longleftrightarrow> fits (txo_amount out) \<and> ascii (txo_address out)"

definition readable_utxo :: "utxo \<Rightarrow> bool" where
  "readable_utxo u \<longleftrightarrow> fits (utxo_output_index u) \<and> readable_txo (utxo_output u)"

definition readable_transaction :: "transaction \<Rightarrow> bool" where
  "readable_transaction t \<longleftrightarrow> fits (t_index t) \<and> list_all (\<lambda>i. fits (txi_output_index i)) (t_inputs t) \<and>
     list_all readable_txo (t_outputs t)"

definition go_of_txi :: "txi \<Rightarrow> go_input" where
  "go_of_txi i = \<lparr>gi_output_hash = digest_to_string (txi_output_hash i), gi_output_index = txi_output_index i,
     gi_signature = digest_to_string (txi_signature i)\<rparr>"

definition go_of_txo :: "txo \<Rightarrow> go_output" where
  "go_of_txo out = \<lparr>go_amount = txo_amount out, go_address = txo_address out\<rparr>"

definition go_of_utxo :: "utxo \<Rightarrow> go_unspent" where
  "go_of_utxo u = \<lparr>gu_output_hash = digest_to_string (utxo_output_hash u), gu_output_index = utxo_output_index u,
     gu_output = go_of_txo (utxo_output u)\<rparr>"

definition go_of_transaction :: "transaction \<Rightarrow> go_transaction" where
  "go_of_transaction t = \<lparr>gt_type = type_string (t_type t), gt_index = t_index t,
     gt_hash = digest_to_string (t_hash t), gt_inputs = map go_of_txi (t_inputs t),
     gt_outputs = map go_of_txo (t_outputs t)\<rparr>"

lemma decode_fits: "fits w \<Longrightarrow> decode_int (GInt (uint w)) = Some w"
proof -
  assume "fits w"
  then have "int (unat w) < int (2 ^ 63)" by (simp only: of_nat_less_iff)
  then have "uint w < 2 ^ 63" by simp
  moreover have "- (2 ^ 63) \<le> uint w" by (rule order_trans [of _ 0]) simp_all
  ultimately show ?thesis by simp
qed

definition lower_name :: "string \<Rightarrow> bool" where
  "lower_name k \<longleftrightarrow> map lower_char k = k"

lemma lower_literals [simp]:
  "lower_name ''output_hash''" "lower_name ''output_index''" "lower_name ''signature''" "lower_name ''amount''"
  "lower_name ''address''" "lower_name ''output''" "lower_name ''type''" "lower_name ''index''"
  "lower_name ''hash''" "lower_name ''inputs''" "lower_name ''outputs''"
  by code_simp+

text \<open>Each member of an object is found under its name, whatever the order.\<close>

lemma members_same:
  assumes "same_value (GObject kvs) v" and "list_all (\<lambda>(k, _). lower_name k) kvs"
  obtains kvs' where "decode_members v = Some kvs'" "list_all (\<lambda>(k, x). same_value x (go_member kvs' k)) kvs"
proof -
  from assms(1) obtain kvs' where v: "v = GObject kvs'" and d: "distinct (map fst kvs)" "distinct (map fst kvs')"
    and rel: "\<And>k. rel_option same_value (map_of kvs k) (map_of kvs' k)"
    by (auto simp: same_value_simps)
  have "map lower_char k = k" if "(k, x) \<in> set kvs'" for k x
  proof -
    from that d have "map_of kvs' k = Some x" by simp
    with rel [of k] obtain y where "map_of kvs k = Some y" by (auto simp: option_rel_Some2)
    with assms(2) show ?thesis by (auto simp: list_all_iff lower_name_def dest: map_of_SomeD)
  qed
  then have "map (\<lambda>(k, v). (map lower_char k, v)) kvs' = kvs'" by (induction kvs') auto
  moreover have "map_of (rev kvs') = map_of kvs'"
    using d(2) by (intro map_of_inject_set [THEN iffD2]) (simp_all flip: rev_map)
  ultimately have "same_value x (go_member kvs' k)" if "(k, x) \<in> set kvs" for k x
    using rel [of k] that d(1) by (auto simp: go_member_def option_rel_Some1)
  with v show thesis by (intro that) (auto simp: list_all_iff)
qed

lemma decode_output_same:
  assumes "same_value (gval_of_txo out) v" "readable_txo out"
  shows "decode_output v = Some (go_of_txo out)"
proof -
  from assms(1) [unfolded gval_of_txo_def] show ?thesis
    by (rule members_same)
      (use assms(2) in \<open>auto simp: decode_output_def same_value_simps decode_fits readable_txo_def go_of_txo_def
        simp del: decode_int.simps\<close>)
qed

lemma decode_input_same:
  assumes "same_value (gval_of_txi i) v" "fits (txi_output_index i)"
  shows "decode_input v = Some (go_of_txi i)"
proof -
  from assms(1) [unfolded gval_of_txi_def] show ?thesis
    by (rule members_same)
      (use assms(2) in \<open>auto simp: decode_input_def same_value_simps decode_fits go_of_txi_def
        simp del: decode_int.simps\<close>)
qed

lemma decode_unspent_same:
  assumes "same_value (gval_of_utxo u) v" "readable_utxo u"
  shows "decode_unspent v = Some (go_of_utxo u)"
proof -
  from assms(1) [unfolded gval_of_utxo_def] show ?thesis
    by (rule members_same)
      (use assms(2) decode_output_same in \<open>auto simp: decode_unspent_def same_value_simps(2,3) decode_fits go_of_utxo_def
        readable_utxo_def simp del: decode_int.simps\<close>)
qed

lemma those_Some: "list_all2 (\<lambda>x y. d y = Some (g x)) xs ys \<Longrightarrow> those (map d ys) = Some (map g xs)"
  by (induction rule: list_all2_induct) auto

lemma decode_slice_same:
  assumes "same_value (GArray (map f xs)) v" "\<And>x y. x \<in> set xs \<Longrightarrow> same_value (f x) y \<Longrightarrow> d y = Some (g x)"
  shows "decode_slice d v = Some (map g xs)"
proof -
  from assms(1) obtain vs where v: "v = GArray vs" and rel: "list_all2 (\<lambda>x y. same_value (f x) y) xs vs"
    by (auto simp: same_value_simps list_all2_map1)
  from rel have "list_all2 (\<lambda>x y. d y = Some (g x)) xs vs"
    by (rule list.rel_mono_strong) (rule assms(2))
  then show ?thesis by (simp add: v those_Some)
qed

lemma decode_transaction_same:
  assumes "same_value (gval_of_transaction t) v" "readable_transaction t"
  shows "decode_transaction v = Some (go_of_transaction t)"
proof -
  have slices: "decode_slice decode_input x = Some (map go_of_txi (t_inputs t))"
    "decode_slice decode_output y = Some (map go_of_txo (t_outputs t))"
    if "same_value (GArray (map gval_of_txi (t_inputs t))) x" "same_value (GArray (map gval_of_txo (t_outputs t))) y" for x y
    using that assms(2) by (auto intro!: decode_slice_same decode_input_same decode_output_same
        simp: readable_transaction_def list_all_iff)
  from assms(1) [unfolded gval_of_transaction_def] show ?thesis
    by (rule members_same)
      (use assms(2) slices in \<open>auto simp: decode_transaction_def same_value_simps(2,3) decode_fits go_of_transaction_def
        readable_transaction_def simp del: decode_int.simps\<close>)
qed

end
