(* ===== verification/Payment.thy ===== *)
theory Payment
  imports Wallet_Wire
begin

text \<open>
  A payment from the wallet program through the node: the transaction that \<open>walletTransfer\<close> builds is the
  one that the node reads and accepts, and once a block is mined the balances of both wallets have changed
  by the amount.
\<close>

section \<open>Requests to a node\<close>

text \<open>The host of the wallet is the node with world \<open>W\<close>, clock \<open>clk\<close> and the state of the network.\<close>

definition served :: "'j world \<Rightarrow> (nat \<Rightarrow> time_point) \<Rightarrow> 'j node http_server \<Rightarrow> 'j node wallet_state \<Rightarrow> bool" where
  "served W clk srv s \<longleftrightarrow> srv (buenzliNode s) = handle_request W (http_setup W clk)"

lemma http_setup_targets:
  "http_handle W (http_setup W clk) ''/transactions/unspent'' Get data n = Some (handle_transactions_unspent_get W n)"
  "http_handle W (http_setup W clk) ''/transactions/latest'' Get data n = Some (handle_transactions_latest_get W n)"
  "http_handle W (http_setup W clk) ''/transactions'' Post data n = Some (handle_transactions_post W data n)"
  "http_handle W (http_setup W clk) ''/blocks'' Post data n = handle_blocks_post W clk data n"
  by (simp_all add: http_handle_def http_setup_def http_support_def)

lemma get_unspent:
  assumes "served W clk srv s"
  shows "\<exists>response. http_get srv ''/transactions/unspent'' s = Some (Ok response, s) \<and>
    rs_body response = json_dump (w_api W) (unspent_to_json (w_api W) (n_unspent_outputs (ws_network s)))"
  using assms by (simp add: served_def http_get_def http_do_def handle_request_def parse_body_def
      http_setup_targets handle_transactions_unspent_get_def render_def)

lemma get_latest:
  assumes "served W clk srv s" "m_blocks (n_blockchain (ws_network s)) \<noteq> []"
  shows "\<exists>response. http_get srv ''/transactions/latest'' s = Some (Ok response, s) \<and>
    rs_body response = json_dump (w_api W) (transaction_list_to_json (w_api W)
      (b_data (last (m_blocks (n_blockchain (ws_network s))))))"
  using assms by (simp add: served_def http_get_def http_do_def handle_request_def parse_body_def
      http_setup_targets handle_transactions_latest_get_def render_def)

section \<open>Amounts\<close>

lemma fits_uint: "fits w \<Longrightarrow> sint w = uint w \<and> uint w < 2 ^ 63"
proof -
  assume "fits w"
  then have "int (unat w) < int (2 ^ 63)" by (simp only: of_nat_less_iff)
  then have "uint w < 2 ^ 63" by simp
  moreover from this have "sint (word_of_int (uint w) :: u64) = uint w"
    by (intro sint_word_of_int_i64) (simp add: in_i64_def order_trans [OF _ uint_ge_0])
  ultimately show ?thesis by simp
qed

lemma itoa_fits: "fits w \<Longrightarrow> itoa w = dec_word w"
  using fits_uint [of w] by (simp add: itoa_def)

lemma fits_sint: "fits w \<Longrightarrow> sint w = int (unat w)"
  using fits_uint [of w] by simp

lemma signed_less:
  assumes "fits a" "fits b"
  shows "a <s b \<longleftrightarrow> unat a < unat b" "a \<le>s b \<longleftrightarrow> unat a \<le> unat b"
  unfolding word_sless_alt word_sle_eq fits_sint [OF assms(1)] fits_sint [OF assms(2)]
  by (rule of_nat_less_iff, rule of_nat_le_iff)

lemma go_fields [simp]:
  "gu_output_hash (go_of_utxo u) = digest_to_string (utxo_output_hash u)"
  "gu_output_index (go_of_utxo u) = utxo_output_index u" "gu_output (go_of_utxo u) = go_of_txo (utxo_output u)"
  "go_amount (go_of_txo out) = txo_amount out" "go_address (go_of_txo out) = txo_address out"
  by (simp_all add: go_of_utxo_def go_of_txo_def)

text \<open>The outputs taken for an amount: the shortest beginning that is worth it.\<close>

fun pick :: "nat \<Rightarrow> utxo list \<Rightarrow> utxo list" where
  "pick amount [] = []"
| "pick amount (u # us) =
     (let v = unat (txo_amount (utxo_output u))
      in if amount \<le> v then [u] else u # pick (amount - v) us)"

lemma pick_prefix: "\<exists>vs. us = pick amount us @ vs"
  by (induction amount us rule: pick.induct) (auto simp: Let_def)

lemma pick_enough: "amount \<le> total_value us \<Longrightarrow> us \<noteq> [] \<Longrightarrow> amount \<le> total_value (pick amount us)"
proof (induction amount us rule: pick.induct)
  case (2 amount u us)
  then show ?case by (cases "us = []") (auto simp: Let_def le_diff_conv add.commute)
qed simp

definition input_of :: "digest \<Rightarrow> utxo \<Rightarrow> txi" where
  "input_of sg u = \<lparr>txi_output_hash = utxo_output_hash u, txi_output_index = utxo_output_index u, txi_signature = sg\<rparr>"

lemma collect_inputs_pick:
  assumes "unat acc + total_value us < 2 ^ 63" and "fits amount" and "unat acc < unat amount"
  shows "collect_inputs amount (map go_of_utxo us) acc =
    (map (go_of_txi \<circ> input_of []) (pick (unat amount - unat acc) us),
     acc + word_of_nat (total_value (pick (unat amount - unat acc) us)))"
  using assms(1,3)
proof (induction us arbitrary: acc)
  case (Cons u us)
  let ?v = "txo_amount (utxo_output u)"
  have v: "unat (acc + ?v) = unat acc + unat ?v" using Cons.prems(1) by (simp add: unat_word_ariths)
  then have le: "amount \<le>s acc + ?v \<longleftrightarrow> unat amount \<le> unat acc + unat ?v"
    using signed_less(2) [of amount "acc + ?v"] assms(2) Cons.prems(1) by simp
  let ?i = "\<lparr>gi_output_hash = digest_to_string (utxo_output_hash u), gi_output_index = utxo_output_index u, gi_signature = []\<rparr>"
  have i: "(go_of_txi \<circ> input_of []) u = ?i" by (simp add: go_of_txi_def input_of_def)
  show ?case
  proof (cases "unat amount \<le> unat acc + unat ?v")
    case True
    then show ?thesis using le i by (simp add: Let_def le_diff_conv add.commute)
  next
    case False
    then have "collect_inputs amount (map go_of_utxo us) (acc + ?v) =
        (map (go_of_txi \<circ> input_of []) (pick (unat amount - unat acc - unat ?v) us),
         acc + ?v + word_of_nat (total_value (pick (unat amount - unat acc - unat ?v) us)))"
      using Cons.IH [of "acc + ?v"] Cons.prems(1) v by simp
    moreover have "\<not> unat amount - unat acc \<le> unat ?v" using False by linarith
    ultimately show ?thesis using False le i by (simp add: Let_def add.assoc)
  qed
qed simp

section \<open>The transaction of a payment\<close>

definition owned :: "string \<Rightarrow> utxo list \<Rightarrow> utxo list" where
  "owned a us = filter (\<lambda>u. txo_address (utxo_output u) = a) us"

definition payment_outputs :: "string \<Rightarrow> string \<Rightarrow> u64 \<Rightarrow> u64 \<Rightarrow> txo list" where
  "payment_outputs payer payee amount funds = \<lparr>txo_amount = amount, txo_address = payee\<rparr> #
     (if amount < funds then [\<lparr>txo_amount = funds - amount, txo_address = payer\<rparr>] else [])"

definition payment :: "digest \<Rightarrow> digest \<Rightarrow> u64 \<Rightarrow> utxo list \<Rightarrow> txo list \<Rightarrow> transaction" where
  "payment h sg index used outs = \<lparr>t_type = STANDARD, t_index = index, t_hash = h,
     t_inputs = map (input_of sg) used, t_outputs = outs, t_unspent_outputs = []\<rparr>"

definition unsigned_payment :: "u64 \<Rightarrow> utxo list \<Rightarrow> txo list \<Rightarrow> go_transaction" where
  "unsigned_payment index used outs = \<lparr>gt_type = ''standard'', gt_index = index, gt_hash = [],
     gt_inputs = map (go_of_txi \<circ> input_of []) used, gt_outputs = map go_of_txo outs\<rparr>"

text \<open>The wallet hashes the text that the node hashes, and sends the transaction that the node reads.\<close>

lemma payment_hash_input:
  assumes "fits index" "\<forall>u \<in> set used. fits (utxo_output_index u)" "\<forall>out \<in> set outs. fits (txo_amount out)"
  shows "go_hash_input (unsigned_payment index used outs) = transaction_hash_input (payment h sg index used outs)"
proof -
  have "concat (map (\<lambda>i. gi_output_hash i @ itoa (gi_output_index i)) (map (go_of_txi \<circ> input_of []) used)) =
      concat (map (\<lambda>i. digest_to_string (txi_output_hash i) @ dec_word (txi_output_index i)) (map (input_of sg) used))"
    unfolding map_map using assms(2)
    by (intro arg_cong [where f = concat] map_cong refl) (simp add: go_of_txi_def input_of_def itoa_fits)
  moreover have "concat (map (\<lambda>out. itoa (go_amount out) @ go_address out) (map go_of_txo outs)) =
      concat (map (\<lambda>out. dec_word (txo_amount out) @ txo_address out) outs)"
    unfolding map_map using assms(3)
    by (intro arg_cong [where f = concat] map_cong refl) (simp add: itoa_fits)
  ultimately show ?thesis
    using assms(1) by (simp only: go_hash_input_def transaction_hash_input_def unsigned_payment_def
        payment_def itoa_fits go_transaction.simps transaction.simps)
qed

lemma payment_encoded:
  assumes "fits index" "\<forall>u \<in> set used. fits (utxo_output_index u)" "\<forall>out \<in> set outs. fits (txo_amount out)"
  shows "encode_transaction (sign_inputs h sg (unsigned_payment index used outs)) =
    gval_of_transaction (payment h sg index used outs)"
proof -
  have "map (encode_input \<circ> ((\<lambda>i. i\<lparr>gi_signature := hex_encode sg\<rparr>) \<circ> (go_of_txi \<circ> input_of []))) used =
      map (gval_of_txi \<circ> input_of sg) used"
    using assms(2) by (intro map_cong refl)
      (simp add: encode_input_def go_of_txi_def input_of_def gval_of_txi_def fits_uint hex_encode_digest)
  moreover have "map (encode_output \<circ> go_of_txo) outs = map gval_of_txo outs"
    using assms(3) by (intro map_cong refl) (simp add: encode_output_def gval_of_txo_def fits_uint)
  ultimately show ?thesis
    using assms(1) by (simp add: encode_transaction_def sign_inputs_def unsigned_payment_def
        gval_of_transaction_def payment_def type_string_def fits_uint hex_encode_digest)
qed

lemma transfer_outputs_payment:
  "fits amount \<Longrightarrow> fits funds \<Longrightarrow>
     transfer_outputs w to amount funds = map go_of_txo (payment_outputs (wl_address w) to amount funds)"
  by (simp add: transfer_outputs_def payment_outputs_def go_of_txo_def signed_less word_less_nat_alt)

text \<open>The outputs of a payment are worth its inputs.\<close>

lemma payment_outputs_sum:
  "amount \<le> funds \<Longrightarrow> sum_list (map txo_amount (payment_outputs payer payee amount funds)) = funds"
  by (auto simp: payment_outputs_def)

lemma payment_outputs_total:
  "amount \<le> funds \<Longrightarrow> total_out (payment_outputs payer payee amount funds) = unat funds"
  by (auto simp: payment_outputs_def total_out_def unat_sub word_le_nat_alt word_less_nat_alt)

lemma word_of_total: "word_of_nat (total_value us) = (sum_list (map (\<lambda>u. txo_amount (utxo_output u)) us) :: u64)"
  by (induction us) simp_all

lemma input_of_key [simp]: "txi_key (input_of sg u) = utxo_key u"
  by (simp add: txi_key_def input_of_def utxo_key_def)

lemma payment_valid:
  assumes "distinct (map utxo_key us)" and "set used \<subseteq> set (owned payer us)" and "payer \<noteq> []"
    and "h = sha256 E (transaction_hash_input (payment h sg index used outs))"
    and "public_key_verify (evp E) (public_key payer) h sg = Ok True"
    and "sum_list (map txo_amount outs) = word_of_nat (total_value used)"
  shows "transaction_valid E (update_unspent_outputs us (payment h sg index used outs)) = (True, [])"
proof -
  let ?t = "update_unspent_outputs us (payment h sg index used outs)"
  have found: "find_unspent us (input_of sg u) = Some u \<and> txo_address (utxo_output u) = payer" if "u \<in> set used" for u
    using that assms(1,2) by (auto simp: find_unspent_Some_iff owned_def)
  then have "sum_list (map (input_amount us) (map (input_of sg) used)) = sum_list (map (\<lambda>u. txo_amount (utxo_output u)) used)"
    unfolding map_map by (intro arg_cong [where f = sum_list] map_cong refl) (simp add: input_amount_def)
  moreover have "list_all (authorised E ?t) (t_inputs ?t)"
    using found assms(3,5) by (auto simp: list_all_iff authorised_def update_unspent_outputs_def payment_def input_of_def)
  moreover have "t_hash ?t = transaction_determine_hash E ?t"
    using assms(4) by (simp add: transaction_determine_hash_def update_unspent_outputs_def payment_def transaction_hash_input_def)
  ultimately have "valid_standard E ?t = (True, [])"
    using assms(1,6) word_of_total [of used]
    by (subst valid_standard_unique) (simp_all add: update_unspent_outputs_def payment_def)
  then show ?thesis by (simp add: transaction_valid_def update_unspent_outputs_def payment_def)
qed

section \<open>A transfer\<close>

text \<open>The key file of the wallet holds the key that belongs to its address.\<close>

definition can_sign :: "'k go_lib \<Rightarrow> go_os \<Rightarrow> 'j env \<Rightarrow> wallet \<Rightarrow> 'n wallet_state \<Rightarrow> bool" where
  "can_sign L os E w s \<longleftrightarrow> (\<forall>h. \<exists>sg. wallet_sign L os w h s = (Ok sg, s) \<and>
     public_key_verify (evp E) (public_key (wl_address w)) h sg = Ok True)"

text \<open>What the wallet asks the node for is small enough for it to read.\<close>

definition readable_node :: "'j node \<Rightarrow> bool" where
  "readable_node n \<longleftrightarrow> distinct (map utxo_key (n_unspent_outputs n)) \<and> total_value (n_unspent_outputs n) < 2 ^ 63 \<and>
     list_all (\<lambda>u. fits (utxo_output_index u) \<and> ascii (txo_address (utxo_output u))) (n_unspent_outputs n) \<and>
     m_blocks (n_blockchain n) \<noteq> [] \<and> b_data (last (m_blocks (n_blockchain n))) \<noteq> [] \<and>
     list_all readable_transaction (b_data (last (m_blocks (n_blockchain n))))"

lemma value_le_total: "u \<in> set us \<Longrightarrow> unat (txo_amount (utxo_output u)) \<le> total_value us"
  by (induction us) auto

lemma readable_node_utxos: "readable_node n \<Longrightarrow> list_all readable_utxo (n_unspent_outputs n)"
  using value_le_total [of _ "n_unspent_outputs n"]
  by (fastforce simp: readable_node_def list_all_iff readable_utxo_def readable_txo_def)

text \<open>What is picked for a payment, and the outputs of the payment.\<close>

lemma picked:
  assumes "readable_node n" and us: "us = owned payer (n_unspent_outputs n)" and used: "used = pick (unat amount) us"
    and outs: "outs = payment_outputs payer payee amount (word_of_nat (total_value used))"
    and "0 < amount" and "unat amount \<le> total_value us"
  shows "\<exists>rest. us = used @ rest" "set used \<subseteq> set us" "set used \<subseteq> set (n_unspent_outputs n)"
    and "total_value us < 2 ^ 63" "unat amount \<le> total_value used" "total_value used < 2 ^ 63"
    and "unat (word_of_nat (total_value used) :: u64) = total_value used" "amount \<le> word_of_nat (total_value used)"
    and "\<forall>u \<in> set used. fits (utxo_output_index u)" "ascii payer"
    and "\<forall>out \<in> set outs. fits (txo_amount out)" "sum_list (map txo_amount outs) = word_of_nat (total_value used)"
    and "ascii payee \<Longrightarrow> list_all readable_txo outs"
proof -
  obtain rest where split: "us = used @ rest" using pick_prefix used by blast
  then show "\<exists>rest. us = used @ rest" by blast
  have ne: "us \<noteq> []" using assms(5,6) by (auto simp: word_less_nat_alt)
  show sub: "set used \<subseteq> set us" by (simp add: split)
  moreover have "set us \<subseteq> set (n_unspent_outputs n)" by (auto simp: us owned_def)
  ultimately show all: "set used \<subseteq> set (n_unspent_outputs n)" by simp
  show total: "total_value us < 2 ^ 63"
    using assms(1) total_filter_le [of "\<lambda>u. txo_address (utxo_output u) = payer" "n_unspent_outputs n"] us
    by (simp add: readable_node_def owned_def)
  then show small: "total_value used < 2 ^ 63" using split by simp
  show enough: "unat amount \<le> total_value used" using pick_enough assms(6) ne used by simp
  show funds: "unat (word_of_nat (total_value used) :: u64) = total_value used" using small by (simp add: unat_of_nat)
  with enough show le: "amount \<le> word_of_nat (total_value used)" by (simp add: word_le_nat_alt)
  show "\<forall>u \<in> set used. fits (utxo_output_index u)" and payer: "ascii payer"
    using assms(1) all ne by (auto simp: readable_node_def list_all_iff us owned_def filter_empty_conv)
  have "unat (word_of_nat (total_value used) - amount) = total_value used - unat amount"
    using funds le by (simp add: unat_sub)
  then show fits: "\<forall>out \<in> set outs. fits (txo_amount out)"
    using small enough by (auto simp: outs payment_outputs_def)
  show "sum_list (map txo_amount outs) = word_of_nat (total_value used)"
    using le by (simp add: outs payment_outputs_sum)
  show "list_all readable_txo outs" if "ascii payee"
    using fits that payer by (auto simp: list_all_iff readable_txo_def outs payment_outputs_def)
qed

context wallet_wire
begin

lemma read_unspent:
  "list_all readable_utxo us \<Longrightarrow>
     unmarshal L (decode_slice decode_unspent) (json_dump (w_api W) (unspent_to_json (w_api W) us)) = Ok (map go_of_utxo us)"
proof -
  assume readable: "list_all readable_utxo us"
  then have "wire (GArray (map gval_of_utxo us))"
    by (auto simp: list_all_iff wire_values readable_utxo_def readable_txo_def)
  from wallet_reads [OF this] obtain v where v: "same_value (GArray (map gval_of_utxo us)) v"
      "unmarshal_text L (json_dump (w_api W) (unspent_to_json (w_api W) us)) = Some v"
    by (auto simp: gval_to_json_lists simp del: gval_to_json.simps)
  have "decode_slice decode_unspent v = Some (map go_of_utxo us)"
    by (rule decode_slice_same [OF v(1)]) (use readable in \<open>auto simp: list_all_iff intro: decode_unspent_same\<close>)
  with v(2) show ?thesis by (simp add: unmarshal_def lib_result_def)
qed

lemma read_latest:
  "list_all readable_transaction ts \<Longrightarrow>
     unmarshal L (decode_slice decode_transaction) (json_dump (w_api W) (transaction_list_to_json (w_api W) ts)) =
       Ok (map go_of_transaction ts)"
proof -
  assume readable: "list_all readable_transaction ts"
  then have "wire (GArray (map gval_of_transaction ts))"
    by (auto simp: list_all_iff wire_values readable_transaction_def readable_txo_def)
  from wallet_reads [OF this] obtain v where v: "same_value (GArray (map gval_of_transaction ts)) v"
      "unmarshal_text L (json_dump (w_api W) (transaction_list_to_json (w_api W) ts)) = Some v"
    by (auto simp: gval_to_json_lists simp del: gval_to_json.simps)
  have "decode_slice decode_transaction v = Some (map go_of_transaction ts)"
    by (rule decode_slice_same [OF v(1)]) (use readable in \<open>auto simp: list_all_iff intro: decode_transaction_same\<close>)
  with v(2) show ?thesis by (simp add: unmarshal_def lib_result_def)
qed

lemma wallet_unspent:
  assumes "served W clk srv s" "list_all readable_utxo (n_unspent_outputs (ws_network s))"
  shows "walletUnspentOutputs L srv w s =
    Some (Ok (map go_of_utxo (owned (wl_address w) (n_unspent_outputs (ws_network s)))), s)"
  using get_unspent [OF assms(1)] read_unspent [OF assms(2)]
  by (auto simp: walletUnspentOutputs_def owned_def filter_map comp_def)

text \<open>Posting a transaction runs the handler; only an exception of the connection is an error for the wallet.\<close>

lemma post_transaction:
  assumes "served W clk srv s" "list_all (\<lambda>out. ascii (txo_address out)) (t_outputs t)"
    and "handle_transactions_post W (transaction_to_json (w_api W) t) (ws_network s) = (Ok (st, j), n)"
  shows "\<exists>response. http_post srv ''/transactions'' (marshal_text L (gval_of_transaction t)) s =
    Some (Ok response, s\<lparr>ws_network := n\<rparr>) \<and> rs_status response = st"
proof -
  have "w_parse W (marshal_text L (gval_of_transaction t)) = Ok (transaction_to_json (w_api W) t)"
    using node_reads [of "gval_of_transaction t"] assms(2) by (simp add: wire_values gval_to_json_of)
  then show ?thesis
    using assms(1,3) marshal_nonempty by (cases st) (simp_all add: served_def http_post_def http_do_def handle_request_def
        parse_body_def http_setup_targets render_def)
qed

lemma transaction_accepted:
  assumes "t_unspent_outputs t = []" and "length (n_unconfirmed_pool n) \<noteq> unat (transaction_num_per_block (cfg (w_env W)))"
    and "fst (transaction_valid (w_env W) (update_unspent_outputs (n_unspent_outputs n) t))"
    and "\<forall>t' \<in> set (n_unconfirmed_pool n). spent_keys t' \<inter> spent_keys t = {}"
  shows "handle_transactions_post W (transaction_to_json (w_api W) t) n = (Ok (status_ok, json_null (w_api W)),
    broadcast_transaction W (update_unspent_outputs (n_unspent_outputs n) t)
      (n\<lparr>n_unconfirmed_pool := n_unconfirmed_pool n @ [update_unspent_outputs (n_unspent_outputs n) t]\<rparr>))"
proof -
  have "update_unspent_outputs us (update_unspent_outputs [] t) = update_unspent_outputs us t" for us
    by (simp add: update_unspent_outputs_def)
  moreover have "spent_keys (update_unspent_outputs us t) = spent_keys t" for us
    by (simp add: spent_keys_def update_unspent_outputs_def)
  moreover from this have "pool_add (w_env W) (n_unconfirmed_pool n) (update_unspent_outputs (n_unspent_outputs n) t) =
      Ok (n_unconfirmed_pool n @ [update_unspent_outputs (n_unspent_outputs n) t])"
    using assms(2-4) by (intro pool_add_Ok_iff [THEN iffD2]) simp
  ultimately show ?thesis
    using json_library.transaction_roundtrip [OF library]
    by (simp add: handle_transactions_post_def Let_def update_pool_def)
qed

text \<open>The transaction that a transfer sends, as the node sees it before it has a hash and signatures.\<close>

lemma transfer_posts:
  assumes "served W clk srv s" and "locate os from_name s = (Ok w, s)" and "can_sign L os (w_env W) w s"
    and "sum256 L = sha256 (w_env W)" and "readable_node n" and n: "ws_network s = n"
    and us: "us = owned (wl_address w) (n_unspent_outputs n)"
    and index: "index = t_index (hd (b_data (last (m_blocks (n_blockchain n))))) + 1" "fits index"
    and used: "used = pick (unat amount) us"
    and outs: "outs = payment_outputs (wl_address w) to amount (word_of_nat (total_value used))"
    and amount: "0 < amount" "unat amount \<le> total_value us"
    and addresses: "ascii to" "wl_address w \<noteq> []"
    and pool: "length (n_unconfirmed_pool n) \<noteq> unat (transaction_num_per_block (cfg (w_env W)))"
      "\<forall>t' \<in> set (n_unconfirmed_pool n). spent_keys t' \<inter> utxo_key ` set used = {}"
  obtains h sg t where "t = update_unspent_outputs (n_unspent_outputs n) (payment h sg index used outs)"
    "transaction_valid (w_env W) t = (True, [])"
    "walletTransfer L os srv from_name to amount s = Some (Ok (),
       s\<lparr>ws_network := broadcast_transaction W t (n\<lparr>n_unconfirmed_pool := n_unconfirmed_pool n @ [t]\<rparr>)\<rparr>)"
proof -
  let ?us = "n_unspent_outputs n" and ?ts = "b_data (last (m_blocks (n_blockchain n)))"
  let ?funds = "word_of_nat (total_value used) :: u64"
  note picked = picked [OF assms(5) us used outs amount]
  have fits: "fits amount" "fits ?funds" using picked(5,6,7) by simp_all
  define h where "h = sum256 L (go_hash_input (unsigned_payment index used outs))"
  obtain sg where sg: "wallet_sign L os w h s = (Ok sg, s)"
      "public_key_verify (evp (w_env W)) (public_key (wl_address w)) h sg = Ok True"
    using assms(3) by (auto simp: can_sign_def)
  define t where "t = payment h sg index used outs"
  have valid: "transaction_valid (w_env W) (update_unspent_outputs ?us t) = (True, [])"
    unfolding t_def
  proof (rule payment_valid)
    show "set used \<subseteq> set (owned (wl_address w) ?us)" using picked(2) us by simp
    show "h = sha256 (w_env W) (transaction_hash_input (payment h sg index used outs))"
      using payment_hash_input [OF index(2) picked(9,11)] assms(4) by (simp add: h_def)
    show "sum_list (map txo_amount outs) = ?funds" by (rule picked(12))
  qed (use assms(5) addresses sg in \<open>simp_all add: readable_node_def\<close>)
  have encoded: "encode_transaction (sign_inputs h sg (unsigned_payment index used outs)) = gval_of_transaction t"
    unfolding t_def by (rule payment_encoded [OF index(2) picked(9,11)])
  have "spent_keys t = utxo_key ` set used" by (simp add: t_def payment_def spent_keys_def image_image)
  then have accepted: "handle_transactions_post W (transaction_to_json (w_api W) t) n = (Ok (status_ok, json_null (w_api W)),
      broadcast_transaction W (update_unspent_outputs ?us t)
        (n\<lparr>n_unconfirmed_pool := n_unconfirmed_pool n @ [update_unspent_outputs ?us t]\<rparr>))"
    using pool valid by (intro transaction_accepted) (simp_all add: t_def payment_def)
  have "list_all (\<lambda>out. ascii (txo_address out)) (t_outputs t)"
    using picked(13) [OF addresses(1)] by (auto simp: t_def payment_def readable_txo_def list_all_iff)
  from post_transaction [OF assms(1) this accepted [folded n]] obtain response
    where posted: "http_post srv ''/transactions'' (marshal_text L (gval_of_transaction t)) s = Some (Ok response,
      s\<lparr>ws_network := broadcast_transaction W (update_unspent_outputs ?us t)
        (n\<lparr>n_unconfirmed_pool := n_unconfirmed_pool n @ [update_unspent_outputs ?us t]\<rparr>)\<rparr>)"
    using n by auto
  have blocks: "m_blocks (n_blockchain (ws_network s)) \<noteq> []" "?ts \<noteq> []" "list_all readable_transaction ?ts"
    using assms(5) n by (simp_all add: readable_node_def)
  obtain latest where latest: "http_get srv ''/transactions/latest'' s = Some (Ok latest, s)"
      "rs_body latest = json_dump (w_api W) (transaction_list_to_json (w_api W) ?ts)"
    using get_latest [OF assms(1) blocks(1)] n by auto
  have read: "unmarshal L (decode_slice decode_transaction) (rs_body latest) = Ok (map go_of_transaction ?ts)"
    using read_latest [OF blocks(3)] latest(2) by simp
  have unspent: "walletUnspentOutputs L srv w s = Some (Ok (map go_of_utxo us), s)"
    using wallet_unspent [OF assms(1)] readable_node_utxos [OF assms(5)] n us by simp
  have index': "gt_index (hd (map go_of_transaction ?ts)) + 1 = index"
    using blocks(2) index(1) by (simp add: hd_map go_of_transaction_def)
  have inputs: "collect_inputs amount (map go_of_utxo us) 0 = (map (go_of_txi \<circ> input_of []) used, ?funds)"
    using collect_inputs_pick [of 0 us amount] picked(4) fits(1) amount(1) used by (simp add: word_less_nat_alt)
  have outputs: "transfer_outputs w to amount ?funds = map go_of_txo outs"
    using transfer_outputs_payment [OF fits] outs by simp
  have not_less: "\<not> ?funds <s amount" using signed_less(1) [OF fits(2,1)] picked(5,7) by simp
  have "walletTransfer L os srv from_name to amount s = Some (Ok (),
      s\<lparr>ws_network := broadcast_transaction W (update_unspent_outputs ?us t)
        (n\<lparr>n_unconfirmed_pool := n_unconfirmed_pool n @ [update_unspent_outputs ?us t]\<rparr>)\<rparr>)"
    unfolding walletTransfer_def assms(2) then_reply.simps unspent latest(1) read
    using blocks(2)
    by (simp add: index' inputs outputs not_less Let_def encoded [unfolded h_def] sg(1) [unfolded h_def] posted
        flip: unsigned_payment_def)
  with valid show thesis by (intro that [of "update_unspent_outputs ?us t" h sg]) (simp_all add: t_def)
qed

end


section \<open>Mining the payment\<close>

text \<open>The index that the wallet computes from the latest transactions is that of the next block.\<close>

lemma next_index:
  assumes "node_inv W n" "m_blocks (n_blockchain n) \<noteq> []" "b_data (last (m_blocks (n_blockchain n))) \<noteq> []"
  shows "t_index (hd (b_data (last (m_blocks (n_blockchain n))))) + 1 = chain_length (n_blockchain n)"
proof -
  let ?c = "n_blockchain n"
  have wf: "linked_from transaction_list_ops (w_env W) None (m_blocks ?c)"
    using assms(1) chain_reachable_well_formed by (auto simp: node_inv_def well_formed_def)
  then have "fst (transaction_list_valid (w_env W) (b_data (last (m_blocks ?c))) (b_index (last (m_blocks ?c))))"
    using linked_from_data [OF wf last_in_set [OF assms(2)]] by simp
  then have "t_index (hd (b_data (last (m_blocks ?c)))) = b_index (last (m_blocks ?c))"
    using assms(3) by (auto simp: transaction_list_valid_iff hd_conv_nth)
  moreover have "b_index (last (m_blocks ?c)) + 1 = chain_length ?c"
    using next_block_index [of transaction_list_ops "w_env W" ?c 0 "[]"] assms(1,2)
    by (simp add: node_inv_def last_block_def)
  ultimately show ?thesis by simp
qed

section \<open>Balances\<close>

definition worth :: "string \<Rightarrow> utxo list \<Rightarrow> u64" where
  "worth a us = sum_list (map (\<lambda>u. txo_amount (utxo_output u)) (owned a us))"

lemma worth_append [simp]: "worth a (us @ vs) = worth a us + worth a vs"
  by (simp add: worth_def owned_def)

lemma balance_of_worth: "balance_of (map go_of_utxo (owned a us)) = worth a us"
proof -
  have "foldl (\<lambda>balance u. balance + go_amount (gu_output u)) x (map go_of_utxo vs) =
      x + sum_list (map (\<lambda>u. txo_amount (utxo_output u)) vs)" for x vs
    by (induction vs arbitrary: x) (simp_all add: add.assoc)
  then show ?thesis by (simp add: balance_of_def worth_def)
qed

lemma worth_new:
  "worth a (new_unspent t) = sum_list (map txo_amount (filter (\<lambda>out. txo_address out = a) (t_outputs t)))"
proof -
  have "map txo_amount (filter (\<lambda>out. txo_address out = a) (map utxo_output us)) =
      map (\<lambda>u. txo_amount (utxo_output u)) (owned a us)" for us
    by (induction us) (simp_all add: owned_def)
  moreover have "map utxo_output (new_unspent t) = t_outputs t"
    by (rule nth_equalityI) (simp_all add: new_unspent_def nth_enumerate_eq)
  ultimately show ?thesis by (metis worth_def)
qed

text \<open>Removing outputs that belong to one address: its worth falls by theirs, no other changes.\<close>

lemma worth_spent:
  assumes "distinct (map utxo_key us)" and "owned payer us = used @ rest"
  shows "worth a (filter (\<lambda>u. utxo_key u \<notin> utxo_key ` set used) us) =
    (if a = payer then worth a us - sum_list (map (\<lambda>u. txo_amount (utxo_output u)) used) else worth a us)"
proof -
  let ?keep = "\<lambda>u. utxo_key u \<notin> utxo_key ` set used"
  have used: "set used \<subseteq> set us" "\<forall>u \<in> set used. txo_address (utxo_output u) = payer"
    using arg_cong [OF assms(2), of set] by (auto simp: owned_def)
  have comm: "owned a (filter ?keep us) = filter ?keep (owned a us)" for a
    by (simp add: owned_def conj_commute)
  show ?thesis
  proof (cases "a = payer")
    case True
    have "distinct (map utxo_key (used @ rest))"
      using assms(1) by (simp add: owned_def distinct_map_filter flip: assms(2))
    then have "filter ?keep (used @ rest) = rest" by (auto simp: filter_empty_conv filter_id_conv)
    then show ?thesis using True comm [of payer] assms(2) by (simp add: worth_def)
  next
    case False
    have "?keep u" if u: "u \<in> set (owned a us)" for u
    proof
      assume "utxo_key u \<in> utxo_key ` set used"
      then obtain v where "v \<in> set used" "utxo_key u = utxo_key v" by blast
      with used u assms(1) have "u = v" by (auto simp: owned_def distinct_map dest: inj_onD)
      with \<open>v \<in> set used\<close> used(2) u False show False by (auto simp: owned_def)
    qed
    then have "filter ?keep (owned a us) = owned a us" by (simp add: filter_id_conv)
    then show ?thesis using False comm [of a] by (simp add: worth_def)
  qed
qed

text \<open>The unspent outputs after a block with the payment.\<close>

lemma unspent_after_payment:
  assumes "distinct (map utxo_key us)" and "set used \<subseteq> set us" and "t_inputs t = map (input_of sg) used"
    and "t_outputs t \<noteq> []" "length (t_outputs t) \<le> 2"
    and "t_hash (reward E m i) \<notin> utxo_output_hash ` set us"
    and "t_hash t \<notin> utxo_output_hash ` set us" "t_hash t \<noteq> t_hash (reward E m i)"
  shows "unspent_update_all us [reward E m i, t] =
    Ok (filter (\<lambda>u. utxo_key u \<notin> utxo_key ` set used) us @ new_unspent (reward E m i) @ new_unspent t)"
proof -
  let ?r = "reward E m i"
  have keys: "spent_keys t = utxo_key ` set used" by (simp add: spent_keys_def assms(3) image_image)
  have r: "admissible us ?r" "spent_keys ?r = {}"
    using assms(6) by (simp_all add: admissible_def spent_keys_def reward_def Let_def)
  have first: "unspent_update us ?r = Ok (us @ new_unspent ?r)"
    using unspent_update_filter [OF assms(1) r(1)] r(2) by simp
  have dist: "distinct (map utxo_key (us @ new_unspent ?r))" by (rule distinct_unspent_append [OF assms(1) r(1)])
  have inputs: "txi_output_hash ` set (t_inputs t) \<subseteq> utxo_output_hash ` set us"
    using assms(2) by (auto simp: assms(3) input_of_def)
  have "utxo_output_hash ` set (us @ new_unspent ?r) \<subseteq> insert (t_hash ?r) (utxo_output_hash ` set us)"
    using new_unspent_hash by auto
  then have "admissible (us @ new_unspent ?r) t"
    using assms(4,5,7,8) inputs by (auto simp: admissible_def)
  from unspent_update_filter [OF dist this]
  have "unspent_update (us @ new_unspent ?r) t =
      Ok (filter (\<lambda>u. utxo_key u \<notin> utxo_key ` set used) (us @ new_unspent ?r) @ new_unspent t)"
    by (simp only: keys)
  moreover have "utxo_key u \<notin> utxo_key ` set used" if u: "u \<in> set (new_unspent ?r)" for u
  proof
    assume "utxo_key u \<in> utxo_key ` set used"
    then have "utxo_output_hash u \<in> utxo_output_hash ` set us" using assms(2) by (auto simp: utxo_key_def)
    with new_unspent_hash [OF u] assms(6) show False by simp
  qed
  then have "filter (\<lambda>u. utxo_key u \<notin> utxo_key ` set used) (new_unspent ?r) = new_unspent ?r"
    by (simp add: filter_id_conv)
  ultimately show ?thesis by (simp add: unspent_update_all_def first)
qed

text \<open>Finding a wallet and reading a balance do not depend on the network, or only on its unspent outputs.\<close>

lemma locate_network:
  "locate os name s = (Ok w, s) \<Longrightarrow> locate os name (s\<lparr>ws_network := n\<rparr>) = (Ok w, s\<lparr>ws_network := n\<rparr>)"
proof -
  assume located: "locate os name s = (Ok w, s)"
  have same: "wallets_path (s\<lparr>ws_network := n\<rparr>) = wallets_path s" "wallets_in (s\<lparr>ws_network := n\<rparr>) = wallets_in s"
    "opened (s\<lparr>ws_network := n\<rparr>) = (opened s)\<lparr>ws_network := n\<rparr>"
    by (simp_all add: wallets_path_def wallets_in_def stored_def opened_def)
  from located have "s = opened s" by (simp add: locate_Ok_iff findWallet_Ok_iff)
  then have "opened (s\<lparr>ws_network := n\<rparr>) = s\<lparr>ws_network := n\<rparr>" using same(3) by simp
  with located same show ?thesis by (auto simp: locate_Ok_iff findWallet_Ok_iff)
qed

context wallet_wire
begin

lemma balance_read:
  assumes "served W clk srv s" "locate os name s = (Ok w, s)" "list_all readable_utxo (n_unspent_outputs (ws_network s))"
  shows "walletBalance L os srv name s = Some (Ok (worth (wl_address w) (n_unspent_outputs (ws_network s))), s)"
  using assms(2) wallet_unspent [OF assms(1,3)] by (simp add: walletBalance_def balance_of_worth)

end

text \<open>The hash of the payment, which depends on neither hash nor signature.\<close>

definition payment_hash :: "'j env \<Rightarrow> wallet \<Rightarrow> string \<Rightarrow> u64 \<Rightarrow> 'j node \<Rightarrow> digest" where
  "payment_hash E w to amount n =
     (let used = pick (unat amount) (owned (wl_address w) (n_unspent_outputs n))
      in sha256 E (transaction_hash_input (payment [] [] (chain_length (n_blockchain n)) used
           (payment_outputs (wl_address w) to amount (word_of_nat (total_value used))))))"

lemma valid_payment_hash:
  assumes "transaction_valid E (update_unspent_outputs us (payment h sg index used outs)) = (True, [])"
  shows "h = sha256 E (transaction_hash_input (payment [] [] index used outs))"
proof -
  have "transaction_hash_input (update_unspent_outputs us (payment h sg index used outs)) =
      transaction_hash_input (payment [] [] index used outs)"
    by (simp add: transaction_hash_input_def update_unspent_outputs_def payment_def input_of_def comp_def)
  with assms show ?thesis
    by (auto simp: transaction_valid_def valid_standard_def transaction_determine_hash_def
        update_unspent_outputs_def payment_def split: if_splits)
qed

lemma readable_new:
  assumes "list_all readable_txo (t_outputs t)" "length (t_outputs t) \<le> 2"
  shows "list_all readable_utxo (new_unspent t)"
proof -
  have "readable_utxo (new_unspent t ! i)" if "i < length (t_outputs t)" for i
  proof -
    have "unat (word_of_nat i :: u64) = i" using that assms(2) by (simp add: unat_of_nat)
    then show ?thesis
      using that assms by (simp add: new_unspent_def nth_enumerate_eq readable_utxo_def list_all_length)
  qed
  then show ?thesis by (simp add: list_all_length)
qed

lemma list_valid_payment:
  assumes "transaction_num_per_block (cfg E) \<noteq> 0" "transaction_num_per_block (cfg E) + 1 \<noteq> 0"
    and "t_type t = STANDARD" "t_index t = i" "transaction_valid E t = (True, [])"
  shows "fst (transaction_list_valid E [reward E m i, t] i)"
proof -
  let ?k = "transaction_num_per_block (cfg E)"
  have "unat (?k + 1) = Suc (unat ?k)" using assms(2) by (simp add: unatSuc add.commute)
  moreover have "0 < unat ?k" using assms(1) by (simp add: unat_gt_0)
  ultimately have "2 \<le> unat (?k + 1)" by simp
  with assms(3-5) show ?thesis
    by (auto simp: transaction_list_valid_iff less_Suc_eq numeral_2_eq_2 reward_valid)
qed

text \<open>What the payment does to the worth of an address and that the wallet can still read the node.\<close>

lemma worth_after_payment:
  assumes "distinct (map utxo_key us)" and "owned payer us = used @ rest" and "amount \<le> word_of_nat (total_value used)"
    and "t_outputs t = payment_outputs payer payee amount (word_of_nat (total_value used))"
    and "payee \<noteq> payer" and "miner \<noteq> payer" "miner \<noteq> payee"
    and "us' = filter (\<lambda>u. utxo_key u \<notin> utxo_key ` set used) us @ new_unspent (reward E miner i) @ new_unspent t"
  shows "worth payer us' = worth payer us - amount" "worth payee us' = worth payee us + amount"
proof -
  have "worth a (new_unspent (reward E miner i)) = 0" if "a \<noteq> miner" for a
    using that by (simp add: worth_new reward_def Let_def)
  then have reward: "worth payer (new_unspent (reward E miner i)) = 0" "worth payee (new_unspent (reward E miner i)) = 0"
    using assms(6,7) by simp_all
  have "worth payee (new_unspent t) = amount"
    using assms(5) by (simp add: worth_new assms(4) payment_outputs_def)
  then show "worth payee us' = worth payee us + amount"
    using assms(5) by (simp add: assms(8) reward worth_spent [OF assms(1,2)])
  have "worth payer (new_unspent t) = word_of_nat (total_value used) - amount"
    using assms(3,5) by (auto simp: worth_new assms(4) payment_outputs_def)
  then show "worth payer us' = worth payer us - amount"
    by (simp add: assms(8) reward worth_spent [OF assms(1,2)] word_of_total)
qed

lemma readable_after_payment:
  assumes "readable_node n" and "list_all readable_txo (t_outputs t)" "length (t_outputs t) \<le> 2"
    and "ascii miner" and "fits (transaction_reward_amount (cfg E))"
  shows "list_all readable_utxo (filter P (n_unspent_outputs n) @ new_unspent (reward E miner i) @ new_unspent t)"
proof -
  have "list_all readable_utxo (new_unspent (reward E miner i))"
    using assms(4,5) by (intro readable_new) (simp_all add: reward_def Let_def readable_txo_def)
  then show ?thesis
    using readable_node_utxos [OF assms(1)] readable_new [OF assms(2,3)] by (auto simp: list_all_iff)
qed

text \<open>A node with the payment in its pool mines it, and its unspent outputs are those of the payment.\<close>

lemma payment_mined:
  assumes "json_library (w_api W)" and "\<not> proof_of_work (w_env W)" and "node_inv W n"
    and "distinct (map utxo_key (n_unspent_outputs n))" and "set used \<subseteq> set (n_unspent_outputs n)"
    and t: "t = update_unspent_outputs (n_unspent_outputs n) (payment h sg (chain_length (n_blockchain n)) used outs)"
    and "transaction_valid (w_env W) t = (True, [])" and "outs \<noteq> []" "length outs \<le> 2"
    and "n_unconfirmed_pool n = [t]" and "transaction_num_per_block (cfg (w_env W)) \<notin> {0, - 1}"
    and r: "r = reward (w_env W) miner (chain_length (n_blockchain n))"
    and "t_hash r \<notin> utxo_output_hash ` set (n_unspent_outputs n)"
    and "h \<notin> insert (t_hash r) (utxo_output_hash ` set (n_unspent_outputs n))"
    and "not_ahead (w_env W) (clk 0) (clk 1)"
  obtains n' where "handle_blocks_post W clk (json_object (w_api W) [(''address'', json_of_string (w_api W) miner)]) n =
      Some (Ok (status_ok, json_null (w_api W)), n')"
    "n_unspent_outputs n' = filter (\<lambda>u. utxo_key u \<notin> utxo_key ` set used) (n_unspent_outputs n) @
       new_unspent r @ new_unspent t"
proof -
  let ?data = "json_object (w_api W) [(''address'', json_of_string (w_api W) miner)]"
  have fields: "t_type t = STANDARD" "t_index t = chain_length (n_blockchain n)" "t_hash t = h"
    "t_inputs t = map (input_of sg) used" "t_outputs t = outs"
    by (simp_all add: t payment_def)
  have "bind_outcome (json_at (w_api W) ?data ''address'') (json_get_string (w_api W)) = Ok miner"
    using json_library.at_object_lookup [OF assms(1), of "[(''address'', json_of_string (w_api W) miner)]" "''address''"]
      json_library.get_string [OF assms(1)] by simp
  moreover have "length (n_unconfirmed_pool n) \<le> unat (transaction_num_per_block (cfg (w_env W)))"
    using assms(10,11) by (simp add: unat_gt_0 Suc_le_eq)
  moreover have "fst (transaction_list_valid (w_env W) (r # n_unconfirmed_pool n) (chain_length (n_blockchain n)))"
    using list_valid_payment [of "w_env W" t] assms(7,10,11) fields by (simp add: r eq_neg_iff_add_eq_0)
  moreover have "unspent_update_all (n_unspent_outputs n) (r # n_unconfirmed_pool n) =
      Ok (filter (\<lambda>u. utxo_key u \<notin> utxo_key ` set used) (n_unspent_outputs n) @ new_unspent r @ new_unspent t)"
    unfolding assms(10) r using assms(8,9,13,14) fields
    by (intro unspent_after_payment [OF assms(4,5), of t sg]) (simp_all add: r)
  ultimately obtain n' where "handle_blocks_post W clk ?data n = Some (Ok (status_ok, json_null (w_api W)), n')"
      "n_unspent_outputs n' = filter (\<lambda>u. utxo_key u \<notin> utxo_key ` set used) (n_unspent_outputs n) @
         new_unspent r @ new_unspent t"
    using mining_succeeds [OF assms(2,3), of ?data miner] assms(15) r by blast
  then show thesis by (rule that)
qed

section \<open>The payment, end to end\<close>

text \<open>
  C6. A payment arrives: when the wallets \<open>payer\<close> and \<open>payee\<close> are known to the wallet program, the key of the
  payer can sign, the payer owns at least the amount and the node has an empty pool, then \<open>transfer\<close> puts a
  transaction into the pool, the next request to mine succeeds, and afterwards \<open>balance\<close> reports for the
  payer the amount less and for the payee the amount more than before (the miner is a third address,
  amounts stay below \<open>2 ^ 63\<close>, the new hashes are fresh, build without proof of work).
\<close>

theorem payment_arrives:
  assumes "wallet_wire W L" and "\<not> proof_of_work (w_env W)" and "sum256 L = sha256 (w_env W)"
    and "served W clk srv s" and "ws_network s = n" and "node_inv W n" and "readable_node n"
    and "length (m_blocks (n_blockchain n)) < 2 ^ 63"
    and "locate os payer s = (Ok w, s)" and "can_sign L os (w_env W) w s" and "wl_address w \<noteq> []"
    and "locate os payee s = (Ok w', s)" and "ascii (wl_address w')" and "wl_address w' \<noteq> wl_address w"
    and "0 < amount" and "unat amount \<le> total_value (owned (wl_address w) (n_unspent_outputs n))"
    and "n_unconfirmed_pool n = []" and "transaction_num_per_block (cfg (w_env W)) \<notin> {0, - 1}"
    and "ascii miner" and "miner \<noteq> wl_address w" and "miner \<noteq> wl_address w'"
    and "fits (transaction_reward_amount (cfg (w_env W)))"
    and "t_hash (reward (w_env W) miner (chain_length (n_blockchain n))) \<notin> utxo_output_hash ` set (n_unspent_outputs n)"
    and "payment_hash (w_env W) w (wl_address w') amount n \<notin>
      insert (t_hash (reward (w_env W) miner (chain_length (n_blockchain n)))) (utxo_output_hash ` set (n_unspent_outputs n))"
    and "not_ahead (w_env W) (clk 0) (clk 1)"
  shows "\<exists>s1 n2 b b'. walletTransfer L os srv payer (wl_address w') amount s = Some (Ok (), s1) \<and>
    handle_blocks_post W clk (json_object (w_api W) [(''address'', json_of_string (w_api W) miner)]) (ws_network s1) =
      Some (Ok (status_ok, json_null (w_api W)), n2) \<and>
    walletBalance L os srv payer s = Some (Ok b, s) \<and>
    walletBalance L os srv payer (s1\<lparr>ws_network := n2\<rparr>) = Some (Ok (b - amount), s1\<lparr>ws_network := n2\<rparr>) \<and>
    walletBalance L os srv payee s = Some (Ok b', s) \<and>
    walletBalance L os srv payee (s1\<lparr>ws_network := n2\<rparr>) = Some (Ok (b' + amount), s1\<lparr>ws_network := n2\<rparr>)"
proof -
  let ?us = "n_unspent_outputs n" and ?i = "chain_length (n_blockchain n)"
  let ?r = "reward (w_env W) miner ?i" and ?payer = "wl_address w" and ?payee = "wl_address w'"
  define used where "used = pick (unat amount) (owned ?payer ?us)"
  define outs where "outs = payment_outputs ?payer ?payee amount (word_of_nat (total_value used))"
  note picked = picked [OF assms(7) refl used_def outs_def assms(15,16)]
  then obtain rest where split: "owned ?payer ?us = used @ rest" by blast
  have index: "?i = t_index (hd (b_data (last (m_blocks (n_blockchain n))))) + 1" "fits ?i"
    using next_index [OF assms(6)] assms(7,8) by (simp_all add: readable_node_def chain_length_def unat_of_nat)
  have pool: "length (n_unconfirmed_pool n) \<noteq> unat (transaction_num_per_block (cfg (w_env W)))"
    "\<forall>t' \<in> set (n_unconfirmed_pool n). spent_keys t' \<inter> utxo_key ` set used = {}"
    using assms(17,18) by (simp_all add: unat_eq_zero)
  obtain h sg t where t: "t = update_unspent_outputs ?us (payment h sg ?i used outs)"
    and valid: "transaction_valid (w_env W) t = (True, [])"
    and sent: "walletTransfer L os srv payer ?payee amount s = Some (Ok (),
       s\<lparr>ws_network := broadcast_transaction W t (n\<lparr>n_unconfirmed_pool := n_unconfirmed_pool n @ [t]\<rparr>)\<rparr>)"
    by (rule wallet_wire.transfer_posts
        [OF assms(1,4,9,10,3,7,5) refl index used_def outs_def assms(15,16,13,11) pool])
  define n1 where "n1 = broadcast_transaction W t (n\<lparr>n_unconfirmed_pool := [t]\<rparr>)"
  have n1: "n_unspent_outputs n1 = ?us" "n_blockchain n1 = n_blockchain n" "n_unconfirmed_pool n1 = [t]"
    by (simp_all add: n1_def broadcast_transaction_def send_to_peers_def)
  have inv: "node_inv W n1"
    using assms(6,17,18) n1 valid by (simp add: node_inv_def pool_inv_def unat_gt_0 Suc_le_eq)
  have dist: "distinct (map utxo_key ?us)" using assms(7) by (simp add: readable_node_def)
  have outputs: "t_outputs t = outs" by (simp add: t payment_def)
  have hash: "h = payment_hash (w_env W) w ?payee amount n"
    using valid_payment_hash [OF valid [unfolded t]] by (simp add: payment_hash_def used_def outs_def Let_def)
  have two: "outs \<noteq> []" "length outs \<le> 2" by (simp_all add: outs_def payment_outputs_def)
  moreover have "json_library (w_api W)" by (rule wallet_wire.library [OF assms(1)])
  ultimately obtain n2 where mined: "handle_blocks_post W clk
      (json_object (w_api W) [(''address'', json_of_string (w_api W) miner)]) n1 = Some (Ok (status_ok, json_null (w_api W)), n2)"
    and n2: "n_unspent_outputs n2 = filter (\<lambda>u. utxo_key u \<notin> utxo_key ` set used) ?us @ new_unspent ?r @ new_unspent t"
    using payment_mined [OF _ assms(2) inv _ _ _ valid _ _ n1(3) assms(18) refl _ _ assms(25), of used h sg outs miner]
      n1 dist t assms(23,24) hash picked(3) by auto
  have readable: "list_all readable_utxo (n_unspent_outputs n2)"
    unfolding n2 using outputs two(2) picked(13) [OF assms(13)] assms(19,22)
    by (intro readable_after_payment [OF assms(7)]) simp_all
  have worth: "worth ?payer (n_unspent_outputs n2) = worth ?payer ?us - amount"
    "worth ?payee (n_unspent_outputs n2) = worth ?payee ?us + amount"
    using worth_after_payment [OF dist split picked(8) outputs [unfolded outs_def] assms(14,20,21) n2] by simp_all
  have served: "served W clk srv (s\<lparr>ws_network := n2\<rparr>)" using assms(4) by (simp add: served_def)
  note balance = wallet_wire.balance_read [OF assms(1)]
  have after: "walletBalance L os srv payer (s\<lparr>ws_network := n2\<rparr>) = Some (Ok (worth ?payer ?us - amount), s\<lparr>ws_network := n2\<rparr>)"
    "walletBalance L os srv payee (s\<lparr>ws_network := n2\<rparr>) = Some (Ok (worth ?payee ?us + amount), s\<lparr>ws_network := n2\<rparr>)"
    using balance [OF served locate_network [OF assms(9)]] balance [OF served locate_network [OF assms(12)]]
      readable worth by simp_all
  have before: "walletBalance L os srv payer s = Some (Ok (worth ?payer ?us), s)"
    "walletBalance L os srv payee s = Some (Ok (worth ?payee ?us), s)"
    using balance [OF assms(4,9)] balance [OF assms(4,12)] readable_node_utxos [OF assms(7)] assms(5) by simp_all
  show ?thesis
    using sent mined after before assms(17)
    by (intro exI [of _ "s\<lparr>ws_network := n1\<rparr>"] exI [of _ n2] exI [of _ "worth ?payer ?us"] exI [of _ "worth ?payee ?us"])
      (simp add: n1_def)
qed

text \<open>
  C15. The subcommand \<open>mine\<close> never mines: it posts the address as a JSON string, the handler of the node reads
  a member of it, and a string has none, so the node answers with a bad request and keeps its state; the
  wallet program does not look at the status and reports success.
\<close>

theorem wallet_mine_rejected:
  assumes "wallet_wire W L" and "served W clk srv s" and "locate os name s = (Ok w, s)" and "ascii (wl_address w)"
    and "json_at (w_api W) (json_of_string (w_api W) (wl_address w)) ''address'' = Throw e"
  shows "mineIntoWallet L os srv name s = Some (Ok (), s) \<and>
    (\<exists>response. http_post srv ''/blocks'' (marshal_text L (GString (wl_address w))) s = Some (Ok response, s) \<and>
       rs_status response = status_bad_request)"
proof -
  have "w_parse W (marshal_text L (GString (wl_address w))) = Ok (json_of_string (w_api W) (wl_address w))"
    using wallet_wire.node_reads [OF assms(1), of "GString (wl_address w)"] assms(4) by simp
  then have "\<exists>response. http_post srv ''/blocks'' (marshal_text L (GString (wl_address w))) s = Some (Ok response, s) \<and>
      rs_status response = status_bad_request"
    using assms(2,5) wallet_wire.marshal_nonempty [OF assms(1)]
    by (simp add: served_def http_post_def http_do_def handle_request_def parse_body_def http_setup_targets
        handle_blocks_post_def render_def)
  then show ?thesis using assms(3) by (auto simp: mineIntoWallet_def)
qed

text \<open>A transfer before the first block: the wallet program indexes an empty list.\<close>

lemma transfer_panics_on_empty_chain:
  assumes "wallet_wire W L" and "served W clk srv s" and "locate os payer s = (Ok w, s)"
    and "list_all readable_utxo (n_unspent_outputs (ws_network s))" and "m_blocks (n_blockchain (ws_network s)) = []"
  shows "walletTransfer L os srv payer to amount s = Some (panic ''index out of range'', s)"
proof -
  obtain v where v: "unmarshal_text L (json_dump (w_api W) (json_null (w_api W))) = Some v" "same_value GNull v"
    using wallet_wire.wallet_reads [OF assms(1), of GNull] by auto
  have "\<exists>response. http_get srv ''/transactions/latest'' s = Some (Ok response, s) \<and>
      rs_body response = json_dump (w_api W) (json_null (w_api W))"
    using assms(2,5) by (simp add: served_def http_get_def http_do_def handle_request_def parse_body_def
        http_setup_targets handle_transactions_latest_get_def render_def)
  moreover have "unmarshal L (decode_slice decode_transaction) (json_dump (w_api W) (json_null (w_api W))) = Ok []"
    using v by (simp add: unmarshal_def lib_result_def same_value_simps)
  ultimately show ?thesis
    using assms(3) wallet_wire.wallet_unspent [OF assms(1,2,4)] by (auto simp: walletTransfer_def panic_def)
qed

section \<open>Witness\<close>

lemma gval_of_to_json: "wire v \<Longrightarrow> gval_of_jval (gval_to_json jval_api v) = v"
proof (induction v)
  case (GInt i)
  then show ?case by (simp add: jval_api_def uint_word_of_int)
next
  case (GArray vs)
  then show ?case by (simp add: jval_api_def list_all_iff map_idI)
next
  case (GObject kvs)
  then have "map (\<lambda>(k, v). (k, gval_of_jval v)) (map (\<lambda>(k, v). (k, gval_to_json jval_api v)) kvs) = kvs"
    by (fastforce simp: list_all_iff intro!: map_idI)
  then show ?case by (simp add: jval_api_def)
qed (simp_all add: jval_api_def)

interpretation example_wire: wallet_wire parsing_world example_lib
proof (rule wallet_wire.intro)
  show "json_library (w_api parsing_world)" using jval.json_library_axioms by simp
next
  fix v
  show "w_parse parsing_world (marshal_text example_lib v) = Ok (gval_to_json (w_api parsing_world) v)"
    by (simp add: parsing_world_def example_lib_def jval_parse_dump)
  show "marshal_text example_lib v \<noteq> []"
    using jval_dump_start [of "gval_to_json jval_api v"] by (auto simp: example_lib_def)
  assume "wire v"
  then show "\<exists>v'. unmarshal_text example_lib (json_dump (w_api parsing_world) (gval_to_json (w_api parsing_world) v)) = Some v' \<and>
      same_value v v'"
    using same_value_refl gval_of_to_json [of v]
    by (simp add: parsing_world_def example_lib_def) (simp add: jval_api_def jval_parse_dump)
qed

text \<open>
  A node whose only block rewards \<open>alice\<close>, and a wallet program that knows \<open>alice\<close> and \<open>bob\<close>; addresses are
  those names, as the example keys accept any signature that equals the hash.
\<close>

definition alice_output :: utxo where
  "alice_output = \<lparr>utxo_output_hash = t_hash (reward (example_env False) ''alice'' 0), utxo_output_index = 0,
     utxo_output = \<lparr>txo_amount = 50, txo_address = ''alice''\<rparr>\<rparr>"

definition two_wallets :: "jval node \<Rightarrow> jval node wallet_state" where
  "two_wallets n = \<lparr>
     ws_files = [''/w/id_ecdsa_alice'' \<mapsto> pem_encode example_lib ''EC PRIVATE KEY'' [7],
       ''/w/wallets'' \<mapsto> file_of_lines [''alice id_ecdsa_alice alice'', ''bob id_ecdsa_bob bob'']],
     ws_dirs = [''/w''], ws_printed = [], buenzliDir = ''/w'', buenzliNode = ''localhost:8080'', ws_network = n\<rparr>"

definition one_node :: "jval node http_server" where
  "one_node = (\<lambda>_. handle_request parsing_world (http_setup parsing_world (\<lambda>_. 1000)))"

definition wallet_alice :: wallet where
  "wallet_alice = \<lparr>wl_name = ''alice'', wl_key = ''/w/id_ecdsa_alice'', wl_address = ''alice''\<rparr>"

definition wallet_bob :: wallet where
  "wallet_bob = \<lparr>wl_name = ''bob'', wl_key = ''/w/id_ecdsa_bob'', wl_address = ''bob''\<rparr>"

lemma two_wallets_located:
  "locate example_os ''alice'' (two_wallets n) = (Ok wallet_alice, two_wallets n)"
  "locate example_os ''bob'' (two_wallets n) = (Ok wallet_bob, two_wallets n)"
proof -
  have path: "path_join ''/w'' ''wallets'' = ''/w/wallets''" by code_simp
  then have wp: "wallets_path (two_wallets n) = ''/w/wallets''" by (simp add: wallets_path_def two_wallets_def)
  then have st: "stored (two_wallets n) = file_of_lines [''alice id_ecdsa_alice alice'', ''bob id_ecdsa_bob bob'']"
    by (simp add: stored_def two_wallets_def)
  have "scan_lines (file_of_lines [''alice id_ecdsa_alice alice'', ''bob id_ecdsa_bob bob'']) =
      [''alice id_ecdsa_alice alice'', ''bob id_ecdsa_bob bob'']"
    by (simp add: scan_lines_file plain_line_def strip_cr_def)
  moreover have "map_outcomes (parse_wallet ''/w'') [''alice id_ecdsa_alice alice'', ''bob id_ecdsa_bob bob''] =
      Ok [wallet_alice, wallet_bob]" by code_simp
  ultimately have "map_outcomes (parse_wallet ''/w'')
      (scan_lines (file_of_lines [''alice id_ecdsa_alice alice'', ''bob id_ecdsa_bob bob''])) = Ok [wallet_alice, wallet_bob]"
    by (simp only:)
  then have "wallets_in (two_wallets n) = Ok [wallet_alice, wallet_bob]"
    by (simp add: wallets_in_def st) (simp add: two_wallets_def)
  moreover have "opened (two_wallets n) = two_wallets n"
    unfolding opened_def st wp by (simp add: two_wallets_def)
  moreover have "open_error example_os p = None" for p by (simp add: example_os_def)
  ultimately show "locate example_os ''alice'' (two_wallets n) = (Ok wallet_alice, two_wallets n)"
    "locate example_os ''bob'' (two_wallets n) = (Ok wallet_bob, two_wallets n)"
    by (simp_all add: locate_Ok_iff findWallet_Ok_iff wallet_alice_def wallet_bob_def)
qed

lemma alice_can_sign: "can_sign example_lib example_os (example_env False) wallet_alice (two_wallets n)"
proof -
  have block: "pem_decode example_lib (pem_encode example_lib ''EC PRIVATE KEY'' [7]) = Some [7]" by code_simp
  have key: "parse_private_key example_lib [7] = Some 7" "sign_asn1 example_lib k h = Some h" for k h
    by (simp_all add: example_lib_def)
  have "ws_files (two_wallets n) ''/w/id_ecdsa_alice'' = Some (pem_encode example_lib ''EC PRIVATE KEY'' [7])"
    by (simp add: two_wallets_def)
  then have "wallet_sign example_lib example_os wallet_alice h (two_wallets n) = (Ok h, two_wallets n)" for h
    by (simp add: wallet_sign_def os_result_def lib_result_def wallet_alice_def block key) (simp add: example_os_def)
  then show ?thesis by (simp add: can_sign_def)
qed

lemma alice_hashes:
  "t_hash (reward (example_env False) ''alice'' 0) = map (\<lambda>c. word_of_nat (of_char c)) ''050alice''"
  "t_hash (reward (example_env False) ''carol'' 1) = map (\<lambda>c. word_of_nat (of_char c)) ''150carol''"
  by code_simp+

definition node_of_alice :: "transaction_list blockchain \<Rightarrow> jval node" where
  "node_of_alice c = fresh_node\<lparr>n_blockchain := c, n_unspent_outputs := [alice_output]\<rparr>"

lemma node_of_alice_simps [simp]:
  "n_blockchain (node_of_alice c) = c" "n_unspent_outputs (node_of_alice c) = [alice_output]"
  "n_unconfirmed_pool (node_of_alice c) = []"
  by (simp_all add: node_of_alice_def fresh_node_def example_node_def)

lemma owned_alice: "owned ''alice'' [alice_output] = [alice_output]" "total_value [alice_output] = 50"
  by (simp_all add: owned_def alice_output_def)

lemma alice_payment_hash:
  "chain_length c = 1 \<Longrightarrow>
     take 2 (payment_hash (example_env False) wallet_alice ''bob'' 20 (node_of_alice c)) = [0x31, 0x33]"
  by (simp add: payment_hash_def owned_alice Let_def wallet_alice_def transaction_hash_input_def payment_def
      input_of_def payment_outputs_def) (simp add: alice_output_def alice_hashes hex_byte_def hex_digit_def dec_50_1_150)

theorem payment_arrives_witness:
  "\<exists>n s1 n2. walletTransfer example_lib example_os one_node ''alice'' ''bob'' 20 (two_wallets n) = Some (Ok (), s1) \<and>
     handle_blocks_post parsing_world (\<lambda>_. 1000) (JObject [(''address'', JString ''carol'')]) (ws_network s1) =
       Some (Ok (status_ok, JNull), n2) \<and>
     walletBalance example_lib example_os one_node ''alice'' (two_wallets n) = Some (Ok 50, two_wallets n) \<and>
     walletBalance example_lib example_os one_node ''alice'' (s1\<lparr>ws_network := n2\<rparr>) =
       Some (Ok 30, s1\<lparr>ws_network := n2\<rparr>) \<and>
     walletBalance example_lib example_os one_node ''bob'' (s1\<lparr>ws_network := n2\<rparr>) =
       Some (Ok 20, s1\<lparr>ws_network := n2\<rparr>)"
proof -
  obtain a where a: "handle_blocks_post example_world (\<lambda>_. 1000) (JObject [(''address'', JString ''alice'')]) fresh_node =
      Some (Ok (status_ok, JNull), a)" and blocks: "m_blocks (n_blockchain a) = [example_genesis]"
    using fresh_node_mines by blast
  have "node_inv example_world fresh_node" using example_node_inv by (simp add: fresh_node_def)
  from handle_blocks_post_inv [OF this a] have inv: "node_inv example_world a" by simp
  let ?n = "node_of_alice (n_blockchain a)"
  have len: "chain_length (n_blockchain a) = 1" by (simp add: chain_length_def blocks)
  have data: "b_data example_genesis = [reward (example_env False) ''alice'' 0]"
    by (simp add: example_genesis_def block_first_def Let_def)
  have readable: "readable_node ?n"
    by (simp add: readable_node_def blocks data readable_transaction_def readable_txo_def reward_def Let_def
        alice_output_def ascii_def from_defaults_def)
  have hash: "payment_hash (example_env False) wallet_alice ''bob'' 20 ?n \<notin>
      {t_hash (reward (example_env False) ''carol'' 1), t_hash (reward (example_env False) ''alice'' 0)}"
    using alice_payment_hash [OF len] by (auto simp: alice_hashes)
  have served: "served parsing_world (\<lambda>_. 1000) one_node (two_wallets ?n)" by (simp add: served_def one_node_def)
  have net: "ws_network (two_wallets ?n) = ?n" by (simp add: two_wallets_def)
  have before: "walletBalance example_lib example_os one_node ''alice'' (two_wallets ?n) = Some (Ok 50, two_wallets ?n)"
    "walletBalance example_lib example_os one_node ''bob'' (two_wallets ?n) = Some (Ok 0, two_wallets ?n)"
    using example_wire.balance_read [OF served two_wallets_located(1)] example_wire.balance_read [OF served two_wallets_located(2)]
      readable_node_utxos [OF readable] by (simp_all add: net) (simp_all add: worth_def owned_def alice_output_def wallet_alice_def wallet_bob_def)
  have "\<exists>s1 n2 b b'. walletTransfer example_lib example_os one_node ''alice'' (wl_address wallet_bob) 20 (two_wallets ?n) = Some (Ok (), s1) \<and>
    handle_blocks_post parsing_world (\<lambda>_. 1000)
      (json_object (w_api parsing_world) [(''address'', json_of_string (w_api parsing_world) ''carol'')]) (ws_network s1) =
      Some (Ok (status_ok, json_null (w_api parsing_world)), n2) \<and>
    walletBalance example_lib example_os one_node ''alice'' (two_wallets ?n) = Some (Ok b, two_wallets ?n) \<and>
    walletBalance example_lib example_os one_node ''alice'' (s1\<lparr>ws_network := n2\<rparr>) = Some (Ok (b - 20), s1\<lparr>ws_network := n2\<rparr>) \<and>
    walletBalance example_lib example_os one_node ''bob'' (two_wallets ?n) = Some (Ok b', two_wallets ?n) \<and>
    walletBalance example_lib example_os one_node ''bob'' (s1\<lparr>ws_network := n2\<rparr>) = Some (Ok (b' + 20), s1\<lparr>ws_network := n2\<rparr>)"
  proof (rule payment_arrives [OF example_wire.wallet_wire_axioms _ _ served net _ readable _ two_wallets_located(1) _ _
        two_wallets_located(2)])
    show "node_inv parsing_world ?n" using inv by (simp add: node_inv_def)
    show "can_sign example_lib example_os (w_env parsing_world) wallet_alice (two_wallets ?n)"
      using alice_can_sign by simp
    show "not_ahead (w_env parsing_world) 1000 1000" using example_not_ahead by simp
  qed (use hash in \<open>simp_all add: blocks len wallet_alice_def wallet_bob_def example_lib_def
      from_defaults_def ascii_def alice_output_def alice_hashes owned_def\<close>)
  with before show ?thesis
    by (intro exI [of _ ?n]) (auto simp: wallet_bob_def jval_api_def)
qed

theorem wallet_mine_rejected_witness:
  "mineIntoWallet example_lib example_os one_node ''alice'' (two_wallets fresh_node) = Some (Ok (), two_wallets fresh_node) \<and>
   (\<exists>response. http_post one_node ''/blocks'' (marshal_text example_lib (GString ''alice'')) (two_wallets fresh_node) =
      Some (Ok response, two_wallets fresh_node) \<and> rs_status response = status_bad_request)"
proof -
  have served: "served parsing_world (\<lambda>_. 1000) one_node (two_wallets fresh_node)" by (simp add: served_def one_node_def)
  show ?thesis
    using wallet_mine_rejected [OF example_wire.wallet_wire_axioms served two_wallets_located(1), of "Exn Json_exception ''type_error''"]
    by (simp add: wallet_alice_def ascii_def json_type_error_def) (simp add: jval_api_def json_type_error_def)
qed

end
