(* ===== verification/Spec2Isabelle.thy ===== *)
theory Spec2Isabelle
  imports Races Lifecycle Exchange Dial Python Schema Payment
begin

text \<open>
  A model of BuenzliCoin's node program \<open>bnode\<close> (C++, \<open>src/include\<close> and \<open>src/src\<close>) and of its wallet
  program \<open>bwallet\<close> (Go, \<open>src/bwallet\<close>) with their correctness properties.

  \<^bold>\<open>The program.\<close> A node keeps a chain of blocks. With the build flag \<open>TRANSACTIONS\<close> each block
  carries a list of transactions, and the node also keeps the unspent outputs of all
  transactions and a pool of unconfirmed ones; with \<open>PROOF_OF_WORK\<close> blocks are mined against a
  difficulty that is adjusted every few blocks. Clients use an HTTP interface to mine blocks and
  post transactions; nodes exchange blocks, chains and transactions over WebSockets. The wallet program
  is such a client: it keeps keys in files, reads balances and posts signed transactions.

  \<^bold>\<open>Theories\<close>, in the order of their dependencies.
  \<^item> \<open>Prelude\<close>: fixed-width integers, the type \<open>outcome\<close> of a C++ call (value, exception, undefined
    behaviour), calls with state, decimal output, and \<open>erase_loop\<close>, the loop that erases from a
    list and increments the iterator past the next element, which \<open>transaction.cc\<close> uses three times.
    The locale \<open>invariant_machine\<close> is the contract of a class whose operations keep an invariant,
    \<open>machine_refinement\<close> that of a machine each step of which is a sequence of operations of another,
    and \<open>traced_refinement\<close> also says which operations these are.
  \<^item> \<open>Digest\<close>: \<open>crypto/digest.h\<close>. Leading zero bits, hexadecimal text and back.
  \<^item> \<open>Ieee\<close>: the \<open>double\<close> arithmetic that difficulty needs, as rationals rounded to nearest even,
    with infinities and NaN, and the conversion to \<open>std::size_t\<close>.
  \<^item> \<open>Config\<close>: \<open>clock.h\<close>, \<open>config.h\<close>, \<open>config.cc\<close>. Signed 64-bit time, defaults, TOML loading.
  \<^item> \<open>Crypto\<close>: \<open>crypto/hash.h\<close>, \<open>crypto/keypair.h\<close> over an interface of the OpenSSL calls.
  \<^item> \<open>Json_Api\<close>: the interface of the JSON library as a record and its documented laws as the locale
    \<open>json_library\<close>, interpreted by a datatype of JSON values; \<open>json.h\<close>; the environment \<open>env\<close>.
  \<^item> \<open>Transaction\<close>: \<open>Transaction\<close>, \<open>TransactionList\<close>: JSON, hash, validity of standard and reward
    transactions with wrapping 64-bit sums.
  \<^item> \<open>Ledger\<close>: \<open>TransactionUnspentOutputs\<close> and \<open>TransactionUnconfirmedPool\<close>. The abstract
    ledger is a partial map from output references to outputs (locale \<open>utxo_store\<close>).
  \<^item> \<open>Difficulty\<close>: \<open>difficulty.h\<close>.
  \<^item> \<open>Block\<close>, \<open>Blockchain\<close>: \<open>text.h\<close>, \<open>blockchain.h\<close>. The template parameter is the record
    \<open>data_ops\<close> with the contract \<open>block_data\<close>, which both kinds of data satisfy. Mining is a
    \<open>partial_function\<close>: \<open>None\<close> means that it never ends.
  \<^item> \<open>Node\<close>: \<open>node.cc\<close>, \<open>node.h\<close> and the peer list of \<open>web/websocket_peer.h\<close> in the build with
    transactions. Every handler is a function from request and state to outcome and state.
  \<^item> \<open>Threads\<close>: the invariant that makes the threads detached by a node work.
  \<^item> \<open>Web\<close>: the request handling of \<open>web/http_server.cc\<close> and \<open>web/websocket_server.cc\<close>, the tables of
    handlers that \<open>Node::http_setup\<close> and \<open>Node::websocket_setup\<close> register, and \<open>web/http_client.cc\<close>. What the
    servers rely on of the JSON library is the locale \<open>json_errors\<close>.
  \<^item> \<open>Client\<close>: the connection of \<open>web/websocket_client.cc\<close> with its send queue, the operations in flight
    and the event loop, and sending through \<open>web/websocket_peer.h\<close>.
  \<^item> \<open>Servers\<close>: the process, that is the node with the phases of all its HTTP and WebSocket connections
    and its threads, as a machine over network events. Its specification is the table of routes \<open>http_route\<close>
    and \<open>ws_route\<close>: the events of the node that a request or message stands for (\<open>traced_refinement\<close>).
  \<^item> \<open>Logging\<close>: \<open>log.h\<close>, \<open>log.cc\<close>, \<open>uuid.h\<close>.
  \<^item> \<open>Startup\<close>: \<open>main.cc\<close> and the constructor of \<open>Node\<close>.
  \<^item> \<open>Network\<close>: two nodes that exchange a transaction, a block or a chain.
  \<^item> \<open>Concurrency\<close>: every handler as a program of atomic calls on the members of the node, and the machine
    that runs such programs in any order. A handler that nothing interrupts is its function in \<open>Node\<close>. The
    reference that \<open>latest_block\<close> returns is used after the lock is released, as the code does.
  \<^item> \<open>Races\<close>: what holds under every schedule, and what other handlers can spoil.
  \<^item> \<open>Text_Node\<close>: the same class in the build without transactions, whose blocks carry text, as the
    refinement of a log of texts (locale \<open>event_refinement\<close>).
  \<^item> \<open>Dial\<close>: constructors and destructors of \<open>web/websocket_client.cc\<close> and the list of clients of
    \<open>web/websocket_peer.h\<close>, of which the node of the other theories only sees the addresses.
  \<^item> \<open>Json_Text\<close>: what nodes rely on of the text of JSON values (locale \<open>json_wire\<close>), with a printer and a
    parser that satisfy it. \<open>Exchange\<close>: nodes of the build without transactions, with the connections and
    the servers between them; a request goes to the connection of the peer number that its thread was given,
    which may be one that is stuck.
  \<^item> \<open>Lifecycle\<close>: the program after start-up: \<open>nix.h\<close>, \<open>Node::run\<close> and \<open>Node::stop\<close>, \<open>run\<close> and \<open>stop\<close> of the two
    servers, the pending accept that keeps \<open>run\<close> from returning and how it is started again, the end of \<open>main\<close>.
  \<^item> \<open>Python\<close>: the module of \<open>python.cc\<close> for the integration tests.
  \<^item> \<open>Schema\<close>: the types of the JSON messages, and objects that lack a member.
  \<^item> \<open>Wallet\<close>: \<open>bwallet/bwallet.go\<close>, one definition per Go function, with what it uses of the Go library:
    paths, scanner, flags, base64, decoding of JSON into structs. Cryptography, the text of JSON and the
    operating system are the records \<open>go_lib\<close> and \<open>go_os\<close>.
  \<^item> \<open>Wallet_Files\<close>: the wallets file and the key files. \<open>Wallet_Wire\<close>: what the wallet reads of the JSON text
    of a node (locale \<open>wallet_wire\<close>). \<open>Payment\<close>: the wallet program together with a node.
  \<^item> this theory: repeated transactions within a block.

  \<^bold>\<open>Reading the model.\<close> A class is a record with the members' names (prefixed where they would
  clash), a member function is a function of the object that returns the changed object. A
  function that may throw returns an \<open>outcome\<close>; one that changes an object and may throw returns
  outcome and object, so what an exception leaves behind is visible. \<open>Undef\<close> stands for undefined
  behaviour: an access past the end of a list, a signed overflow of a time difference, a
  conversion of a \<open>double\<close> that does not fit, a missing key in a constant JSON object. Each reading
  of the clock is an argument. Libraries (JSON, TOML, command line, formatting, OpenSSL, \<open>log2\<close>,
  connecting, files) are parameters; the example environments instantiate all of them. An exception has the
  class that handlers tell apart: of the JSON library \<open>json::parse_error\<close> and all others. Asynchronous
  operations are events with an arbitrary result. The only loops that need no structural recursion
  are mining, which may not end, and the event loop of a client, whose termination is proved.

  \<^bold>\<open>What is shown.\<close> Digests: leading zeros and numeric size agree, text round trip. Transactions:
  exact acceptance conditions, value conservation and its exceptions (duplicate inputs,
  overflow), JSON round trips, ambiguity of the hashed text. Ledger: replay refines the abstract
  ledger; the pool invariant; the behaviour of \<open>remove\<close> and \<open>prune\<close>. Difficulty: quiet first
  period, limited factor, fixed point at perfect timing. Blocks and chains: mining finds the first
  solution, chains stay linked, exact acceptance conditions of \<open>valid\<close> and \<open>append_next_block\<close>,
  reloading of chains, comparison, and the mined blocks that other nodes reject. Nodes: invariants over arbitrary
  event sequences, correspondence of unspent outputs and chain and the one event that breaks it,
  loss of transactions, exception classes of the handlers, threads that always find their peer and
  block, propagation of a block, catching up from a longer chain, the invariant under every interleaving of
  handlers, and three races. The build without transactions: every event explained as a step of a log,
  the way of a posted text from HTTP request to the chain of the next node, and of a new node to the chain of
  its peer. Messages: a value parses exactly when it has the type of a message,
  and what each handler does with one that lacks the member it reads. Web: answers reach the
  callback of the request, the client connection never misuses its stream and when it gets stuck,
  one response per HTTP connection, the process goes through exactly the events of the node that the
  table of routes gives and answers exactly what it has read, the two kinds of requests that can end it,
  and peers whose streams lead to their addresses. Start-up: the state a program starts with, and
  which options have no effect. Shutdown: a signal ends the program in whatever state it is, the servers never
  run out of work, and nothing else ends the program but an uncaught exception. Python: what is signed there verifies there. Wallet: entries of the wallets
  file against the regular expression that reads them and the wallets found after they were created; the text
  that is hashed and the keys agree with the node's; a transfer arrives, with the balances of both wallets
  before and after; the subcommand \<open>mine\<close> never mines; and the nodes that pooled a payment run into undefined
  behaviour when they receive the block that confirms it.

  \<^bold>\<open>Not modelled.\<close> The byte streams under HTTP and WebSockets and the timers of Boost, which appear as
  operations that fail; calls on the unspent outputs or the pool that overlap in time (data races);
  log calls inside handlers; what a detached thread does with the node after \<open>main\<close> has destroyed it (a use
  of a dead object); that the signal handler calls functions which a signal handler must not call, so it
  is modelled as the calls it makes; the translation of Python values by the binding library. Of the Go
  library: letters outside ASCII that Go takes for the same letter when it compares member names, and
  repeated members of an object whose values are arrays or objects.
\<close>

section \<open>Repeated transactions\<close>

text \<open>
  Validation of a block checks every transaction on its own: repeating one of its standard
  transactions leaves the block valid as long as there is room, although the repetition spends
  the same outputs again.
\<close>

theorem repeated_spend_in_block_is_valid:
  assumes "fst (transaction_list_valid E ts i)" and "t \<in> set (tl ts)"
    and "length ts < unat (transaction_num_per_block (cfg E) + 1)"
  shows "fst (transaction_list_valid E (ts @ [t]) i)"
proof -
  obtain k where k: "0 < k" "k < length ts" "t = ts ! k"
  proof -
    from assms(2) obtain j where "j < length (tl ts)" "t = tl ts ! j" by (auto simp: in_set_conv_nth)
    then show thesis by (intro that [of "Suc j"]) (simp_all add: nth_tl)
  qed
  with assms(1) have "t_type t = STANDARD \<and> t_index t = i \<and> fst (transaction_valid E t)"
    by (auto simp: transaction_list_valid_iff)
  with assms k show ?thesis
    by (auto simp: transaction_list_valid_iff nth_append less_Suc_eq)
qed

theorem repeated_spend_in_block_is_valid_witness:
  "fst (transaction_list_valid (example_env False)
     [reward (example_env False) ''alice'' 1, example_spend, example_spend] 1)"
proof -
  have "fst (transaction_list_valid (example_env False)
      [reward (example_env False) ''alice'' 1, example_spend] 1)"
    by (simp add: transaction_list_valid_iff reward_valid example_spend_valid All_less_Suc2)
      (simp add: example_spend_def spend_def Let_def)
  then show ?thesis
    using repeated_spend_in_block_is_valid [of "example_env False"
        "[reward (example_env False) ''alice'' 1, example_spend]" 1 example_spend] by simp
qed

end
